(* ===== verification/Prelude.thy ===== *)
theory Prelude
  imports Main "HOL-Library.Word" "HOL-Library.Signed_Division"
begin

text \<open>
  Shared ground of the development: the machine integers of the code, the way a C computation
  can stop (process exit, undefined behaviour), little-endian 16-bit values as the host reads
  and writes them through \<^verbatim>\<open>uint16_t*\<close>, and the interface of a byte store, from which the
  16-bit laws of every memory of the program are derived once.
\<close>

unbundle bit_operations_syntax

section \<open>Machine integers\<close>

type_synonym u8 = "8 word"
type_synonym u16 = "16 word"
type_synonym u32 = "32 word"

named_theorems run_simps \<open>rewriting computations that may stop\<close>
named_theorems byte_simps \<open>splitting 16-bit values into bytes and back\<close>

text \<open>The value an \<^verbatim>\<open>int\<close> (32 bits) or an \<^verbatim>\<open>int16_t\<close> holds after storing \<open>x\<close>.\<close>

definition int32 :: "int \<Rightarrow> int" where
  "int32 x = signed_take_bit 31 x"

definition int16 :: "int \<Rightarrow> int" where
  "int16 x = signed_take_bit 15 x"

lemma int32_id: "- 2147483648 \<le> x \<Longrightarrow> x < 2147483648 \<Longrightarrow> int32 x = x"
  by (simp add: int32_def signed_take_bit_int_eq_self)

lemma int16_id: "- 32768 \<le> x \<Longrightarrow> x < 32768 \<Longrightarrow> int16 x = x"
  by (simp add: int16_def signed_take_bit_int_eq_self)

lemma int16_range: "- 32768 \<le> int16 x \<and> int16 x < 32768"
  using signed_take_bit_int_greater_eq_minus_exp [of 15 x] signed_take_bit_int_less_exp [of 15 x]
  by (simp add: int16_def)

lemma unat_u16_bound: "unat (a :: u16) < 65536"
  using unsigned_less [of a] by simp

lemma unat_u8_bound: "unat (a :: u8) < 256"
  using unsigned_less [of a] by simp

lemma uint_u16_bound: "0 \<le> uint (a :: u16) \<and> uint a < 65536"
  using uint_bounded [of a] by simp

lemma uint_u8_bound: "0 \<le> uint (a :: u8) \<and> uint a < 256"
  using uint_bounded [of a] by simp

lemma sdiv_nonneg: "0 \<le> a \<Longrightarrow> 0 < b \<Longrightarrow> (a :: int) sdiv b = a div b"
  by (cases "a = 0") (simp_all add: signed_divide_int_def)

lemma smod_nonneg: "0 \<le> a \<Longrightarrow> 0 < b \<Longrightarrow> (a :: int) smod b = a mod b"
  by (cases "a = 0") (simp_all add: signed_modulo_int_def)

lemma sint_u16: "sint (w :: u16) = (if uint w < 32768 then uint w else uint w - 65536)"
proof -
  have "sint w = take_bit 16 (uint w + 32768) - 32768"
    by (simp add: sint_uint signed_take_bit_eq_take_bit_shift)
  also have "take_bit 16 (uint w + 32768) = (uint w + 32768) mod 65536"
    by (simp add: take_bit_eq_mod)
  also have "\<dots> = (if uint w < 32768 then uint w + 32768 else uint w - 32768)"
  proof (cases "uint w < 32768")
    case True
    then show ?thesis using uint_u16_bound [of w] by (simp add: mod_pos_pos_trivial)
  next
    case False
    have "(uint w - 32768 + 65536) mod 65536 = (uint w - 32768) mod 65536"
      by (rule mod_add_self2)
    also have "\<dots> = uint w - 32768"
      using False uint_u16_bound [of w] by (intro mod_pos_pos_trivial) linarith+
    finally have "(uint w + 32768) mod 65536 = uint w - 32768"
      by (simp add: algebra_simps)
    with False show ?thesis by (simp only: if_False)
  qed
  finally show ?thesis by (simp split: if_splits)
qed

lemma nat_less_unat: "0 \<le> x \<Longrightarrow> x < uint w \<Longrightarrow> nat x < unat w"
  by (simp add: nat_less_iff)

lemma unat_of_int: "0 \<le> x \<Longrightarrow> x < 2 ^ LENGTH('a) \<Longrightarrow> unat (word_of_int x :: 'a::len word) = nat x"
  unfolding unat_eq_nat_uint by (simp add: uint_word_of_int)

lemma unat_plus1: "(a :: u16) < b \<Longrightarrow> unat (a + 1) = Suc (unat a)"
  using unat_u16_bound [of b] by (simp add: unat_word_ariths word_less_nat_alt)

section \<open>Little-endian 16-bit values\<close>

definition u16_of :: "u8 \<Rightarrow> u8 \<Rightarrow> u16" where
  "u16_of lo hi = ucast lo OR push_bit 8 (ucast hi)"

definition lo8 :: "u16 \<Rightarrow> u8" where
  "lo8 w = ucast w"

definition hi8 :: "u16 \<Rightarrow> u8" where
  "hi8 w = ucast (drop_bit 8 w)"

lemma lo8_u16_of [byte_simps, simp]: "lo8 (u16_of l h) = l"
  unfolding lo8_def u16_of_def by (rule bit_word_eqI) (auto simp: bit_simps)

lemma hi8_u16_of [byte_simps, simp]: "hi8 (u16_of l h) = h"
  unfolding hi8_def u16_of_def
  by (rule bit_word_eqI) (auto simp: bit_simps dest: bit_imp_le_length)

lemma u16_of_bytes [byte_simps, simp]: "u16_of (lo8 w) (hi8 w) = w"
  unfolding hi8_def lo8_def u16_of_def
  by (rule bit_word_eqI) (auto simp: bit_simps)

lemma unat_u16_of: "unat (u16_of l h) = unat l + 256 * unat h"
proof -
  have disj: "(ucast l :: u16) AND push_bit 8 (ucast h) = 0"
    by (rule bit_word_eqI) (auto simp: bit_simps dest: bit_imp_le_length)
  have "u16_of l h = ucast l + push_bit 8 (ucast h)"
    unfolding u16_of_def using disj by (simp add: disjunctive_add_eq_or)
  moreover have "unat (push_bit 8 (ucast h :: u16)) = 256 * unat h"
    using unat_u8_bound [of h]
    by (simp add: push_bit_eq_mult unat_word_ariths unsigned_ucast_eq take_bit_nat_eq_self)
  ultimately show ?thesis
    using unat_u8_bound [of l] unat_u8_bound [of h]
    by (simp add: unat_word_ariths unsigned_ucast_eq take_bit_nat_eq_self)
qed

lemma u16_of_inject: "u16_of l h = u16_of l' h' \<longleftrightarrow> l = l' \<and> h = h'"
  by (metis lo8_u16_of hi8_u16_of)

lemma u16_eq_bytesI: "lo8 w = lo8 w' \<Longrightarrow> hi8 w = hi8 w' \<Longrightarrow> w = w'"
  by (metis u16_of_bytes)

lemma uint_drop_bit_div: "uint (drop_bit n (a :: 'a::len word)) = uint a div 2 ^ n"
proof -
  have "unat (drop_bit n a) = unat a div 2 ^ n"
    by (rule trans [OF unat_drop_bit_eq drop_bit_eq_div])
  then have "int (unat (drop_bit n a)) = int (unat a) div 2 ^ n"
    by (simp only: zdiv_int of_nat_power) simp
  then show ?thesis
    by (simp only: of_nat_unat)
qed

lemma uint_plus1: "(a :: u16) < b \<Longrightarrow> uint (a + 1) = uint a + 1"
proof -
  assume "a < b"
  then have "int (unat (a + 1)) = int (unat a) + 1"
    by (simp only: unat_plus1 of_nat_Suc)
  then show ?thesis
    by (simp only: of_nat_unat)
qed

text \<open>Selecting a nibble of an address, as the dispatch tables of the code do.\<close>

lemma unat_top_nibble: "unat (drop_bit 12 (a :: u16)) = unat a div 4096"
proof -
  have "unat (drop_bit 12 a) = drop_bit 12 (unat a)"
    by (rule unat_drop_bit_eq)
  then show ?thesis
    by (simp only: drop_bit_eq_div) simp
qed

lemma uint_add_small:
  fixes a :: u16
  assumes "uint a + int n < 65536"
  shows "uint (a + of_nat n) = uint a + int n"
proof -
  have "int n < 65536"
    using assms uint_u16_bound [of a] by linarith
  then have n: "n < 2 ^ 16" by simp
  have "uint (of_nat n :: u16) = int n"
    using n by (simp add: unsigned_of_nat take_bit_nat_eq_self)
  then show ?thesis
    using assms uint_u16_bound [of a] by (simp add: uint_word_ariths)
qed

section \<open>Computations that may stop\<close>

text \<open>
  A run of the program's code returns, leaves through \<^verbatim>\<open>exit\<close> (or an error report that
  exits), performs an access whose effect C does not define, or never ends. All but the first
  are values of \<open>stop\<close>, so that no theorem can hold because a faulty access or an endless
  loop was given a convenient meaning.
\<close>

datatype ub =
    NullPointer
  | OutOfBounds
  | Uninitialised
  | BadPointer
  | SignedOverflow

datatype stop =
    Exited int
  | Undefined ub
  | Diverges

type_synonym 'a run = "stop + 'a"

definition bindR :: "'a run \<Rightarrow> ('a \<Rightarrow> 'b run) \<Rightarrow> 'b run" where
  "bindR r f = (case r of Inl e \<Rightarrow> Inl e | Inr x \<Rightarrow> f x)"

lemma bindR_Inr [run_simps, simp]: "bindR (Inr x) f = f x"
  by (simp add: bindR_def)

lemma bindR_Inl [run_simps, simp]: "bindR (Inl e) f = Inl e"
  by (simp add: bindR_def)

lemma bindR_return [run_simps, simp]: "bindR r Inr = r"
  by (cases r) simp_all

lemma bindR_assoc: "bindR (bindR r f) g = bindR r (\<lambda>x. bindR (f x) g)"
  by (cases r) simp_all

lemma bindR_eq_Inr: "bindR r f = Inr y \<longleftrightarrow> (\<exists>x. r = Inr x \<and> f x = Inr y)"
  by (cases r) simp_all

lemma bindR_eq_Inl: "bindR r f = Inl e \<longleftrightarrow> r = Inl e \<or> (\<exists>x. r = Inr x \<and> f x = Inl e)"
  by (cases r) simp_all

lemma bindR_cong: "(\<And>x. r = Inr x \<Longrightarrow> f x = g x) \<Longrightarrow> bindR r f = bindR r g"
  by (cases r) simp_all

text \<open>
  A loop of the code is a partial function into \<open>option\<close>; \<open>None\<close> is the loop that does
  not end.
\<close>

definition loop_result :: "'a run option \<Rightarrow> 'a run" where
  "loop_result r = (case r of None \<Rightarrow> Inl Diverges | Some x \<Rightarrow> x)"

lemma loop_result_Some [run_simps, simp]: "loop_result (Some x) = x"
  by (simp add: loop_result_def)

text \<open>\<open>returns P r\<close>: the computation returns, and its result satisfies \<open>P\<close>.\<close>

definition returns :: "('a \<Rightarrow> bool) \<Rightarrow> 'a run \<Rightarrow> bool" where
  "returns P r \<longleftrightarrow> (case r of Inl e \<Rightarrow> False | Inr x \<Rightarrow> P x)"

text \<open>\<open>keeps P r\<close>: if the computation returns, its result satisfies \<open>P\<close>.\<close>

definition keeps :: "('a \<Rightarrow> bool) \<Rightarrow> 'a run \<Rightarrow> bool" where
  "keeps P r \<longleftrightarrow> (case r of Inl e \<Rightarrow> True | Inr x \<Rightarrow> P x)"

lemma returns_simps [run_simps, simp]:
  "returns P (Inr x) = P x" "returns P (Inl e) = False"
  by (simp_all add: returns_def)

lemma keeps_simps [run_simps, simp]:
  "keeps P (Inr x) = P x" "keeps P (Inl e) = True"
  by (simp_all add: keeps_def)

lemma keeps_bindR: "keeps Q r \<Longrightarrow> (\<And>x. Q x \<Longrightarrow> keeps P (f x)) \<Longrightarrow> keeps P (bindR r f)"
  by (cases r) simp_all

lemma returns_bindR: "returns Q r \<Longrightarrow> (\<And>x. Q x \<Longrightarrow> returns P (f x)) \<Longrightarrow> returns P (bindR r f)"
  by (cases r) simp_all

lemma keeps_Inr: "keeps P r \<Longrightarrow> r = Inr x \<Longrightarrow> P x"
  by simp

lemma returns_Inr: "returns P r \<Longrightarrow> \<exists>x. r = Inr x \<and> P x"
  by (cases r) simp_all

section \<open>Text\<close>

definition bytes_of :: "string \<Rightarrow> u8 list" where
  "bytes_of s = map of_char s"

text \<open>What \<^verbatim>\<open>%d\<close> writes for a number that is not negative.\<close>

fun digits :: "nat \<Rightarrow> u8 list" where
  "digits n = (if n < 10 then [48 + of_nat n] else digits (n div 10) @ [48 + of_nat (n mod 10)])"

declare digits.simps [simp del]

section \<open>Byte stores\<close>

text \<open>
  Every memory of the program is read and written a byte at a time: the host block behind the
  guest's address space, the frame buffer, the guest's RAM as its own program sees it. The
  interface is one law; runs of bytes and little-endian words follow from it.
\<close>

definition get16 :: "('a::comm_ring_1 \<Rightarrow> u8) \<Rightarrow> 'a \<Rightarrow> u16" where
  "get16 g a = u16_of (g a) (g (a + 1))"

fun put_list :: "('s \<Rightarrow> 'a::comm_ring_1 \<Rightarrow> u8 \<Rightarrow> 's) \<Rightarrow> 's \<Rightarrow> 'a \<Rightarrow> u8 list \<Rightarrow> 's" where
  "put_list put s a [] = s"
| "put_list put s a (b # bs) = put_list put (put s a b) (a + 1) bs"

definition bytes16 :: "u16 list \<Rightarrow> u8 list" where
  "bytes16 ws = concat (map (\<lambda>w. [lo8 w, hi8 w]) ws)"

lemma length_bytes16 [simp]: "length (bytes16 ws) = 2 * length ws"
  by (induction ws) (simp_all add: bytes16_def)

lemma bytes16_nth:
  "k < length ws \<Longrightarrow> bytes16 ws ! (2 * k) = lo8 (ws ! k) \<and> bytes16 ws ! Suc (2 * k) = hi8 (ws ! k)"
proof (induction ws arbitrary: k)
  case Nil
  then show ?case by simp
next
  case (Cons w ws)
  then show ?case by (cases k) (simp_all add: bytes16_def)
qed

definition span :: "'a::comm_ring_1 \<Rightarrow> nat \<Rightarrow> 'a set" where
  "span a n = (\<lambda>i. a + of_nat i) ` {..<n}"

definition no_wrap :: "'a::comm_ring_1 \<Rightarrow> nat \<Rightarrow> bool" where
  "no_wrap a n \<longleftrightarrow> inj_on (\<lambda>i. a + of_nat i) {..<n}"

lemma span_0 [simp]: "span a 0 = {}"
  by (simp add: span_def)

lemma span_Suc: "span a (Suc n) = insert a (span (a + 1) n)"
  by (simp add: span_def lessThan_Suc_eq_insert_0 image_image add.assoc)

lemma span_memI: "i < n \<Longrightarrow> a + of_nat i \<in> span a n"
  by (simp add: span_def)

lemma no_wrap_Suc: "no_wrap a (Suc n) \<longleftrightarrow> a \<notin> span (a + 1) n \<and> no_wrap (a + 1) n"
proof -
  have "inj_on (\<lambda>i. a + of_nat i) {..<Suc n} \<longleftrightarrow>
      inj_on (\<lambda>i. a + of_nat (Suc i)) {..<n} \<and> a \<notin> (\<lambda>i. a + of_nat (Suc i)) ` {..<n}"
    by (auto simp: lessThan_Suc_eq_insert_0 inj_on_def)
  then show ?thesis
    by (simp add: no_wrap_def span_def add.assoc conj_commute)
qed

locale byte_store =
  fixes get :: "'s \<Rightarrow> 'a::comm_ring_1 \<Rightarrow> u8"
    and put :: "'s \<Rightarrow> 'a \<Rightarrow> u8 \<Rightarrow> 's"
    and valid :: "'a \<Rightarrow> bool"
    and inv :: "'s \<Rightarrow> bool"
  assumes inv_put: "inv s \<Longrightarrow> valid a \<Longrightarrow> inv (put s a v)"
    and get_put: "inv s \<Longrightarrow> valid a \<Longrightarrow> valid b \<Longrightarrow>
      get (put s a v) b = (if a = b then v else get s b)"
begin

lemma get_put_same: "inv s \<Longrightarrow> valid a \<Longrightarrow> get (put s a v) a = v"
  by (simp add: get_put)

lemma get_put_other:
  "inv s \<Longrightarrow> valid a \<Longrightarrow> valid b \<Longrightarrow> a \<noteq> b \<Longrightarrow> get (put s a v) b = get s b"
  by (simp add: get_put)

lemma inv_put_list:
  "inv s \<Longrightarrow> \<forall>x \<in> span a (length bs). valid x \<Longrightarrow> inv (put_list put s a bs)"
  by (induction bs arbitrary: s a) (auto simp: span_Suc inv_put)

lemma get_put_list_frame:
  "inv s \<Longrightarrow> \<forall>x \<in> span a (length bs). valid x \<Longrightarrow> valid b \<Longrightarrow> b \<notin> span a (length bs) \<Longrightarrow>
     get (put_list put s a bs) b = get s b"
  by (induction bs arbitrary: s a) (auto simp: span_Suc get_put inv_put)

lemma get_put_list:
  "inv s \<Longrightarrow> \<forall>x \<in> span a (length bs). valid x \<Longrightarrow> no_wrap a (length bs) \<Longrightarrow>
     i < length bs \<Longrightarrow> get (put_list put s a bs) (a + of_nat i) = bs ! i"
proof (induction bs arbitrary: s a i)
  case Nil
  then show ?case by simp
next
  case (Cons b bs)
  have inv: "inv (put s a b)"
    using Cons.prems by (simp add: inv_put span_Suc)
  show ?case
  proof (cases i)
    case 0
    have "get (put_list put (put s a b) (a + 1) bs) a = get (put s a b) a"
      using Cons.prems inv by (intro get_put_list_frame) (simp_all add: span_Suc no_wrap_Suc)
    then show ?thesis
      using 0 Cons.prems by (simp add: get_put_same span_Suc)
  next
    case (Suc j)
    have "get (put_list put (put s a b) (a + 1) bs) (a + 1 + of_nat j) = bs ! j"
      using Suc Cons.prems inv by (intro Cons.IH) (simp_all add: span_Suc no_wrap_Suc)
    then show ?thesis
      using Suc by (simp add: add.assoc)
  qed
qed

text \<open>A struct of 16-bit fields, laid out little-endian, reads back field by field.\<close>

lemma get16_put_list:
  assumes inv: "inv s"
    and valid: "\<forall>x \<in> span a (2 * length ws). valid x"
    and nw: "no_wrap a (2 * length ws)"
    and k: "k < length ws"
  shows "get16 (get (put_list put s a (bytes16 ws))) (a + of_nat (2 * k)) = ws ! k"
proof -
  let ?s = "put_list put s a (bytes16 ws)"
  have "get ?s (a + of_nat (2 * k)) = bytes16 ws ! (2 * k)"
    using assms by (intro get_put_list) simp_all
  moreover have "get ?s (a + of_nat (Suc (2 * k))) = bytes16 ws ! Suc (2 * k)"
    using assms by (intro get_put_list) simp_all
  moreover have "a + of_nat (Suc (2 * k)) = a + of_nat (2 * k) + 1"
    by (simp add: add.assoc add.commute)
  ultimately show ?thesis
    using bytes16_nth [OF k] by (simp add: get16_def del: of_nat_Suc of_nat_mult)
qed

end

end
