(* ===== verification/Host.thy ===== *)
theory Host
  imports Prelude
begin

text \<open>
  The operating system below the shim. Every call the sources make into the C library or the
  kernel is an event; the host's answer may depend on all earlier events (a file that was
  written can be read back, the clock moves on), so the answers are functions of the trace.
  The host itself is not part of the repository: it is a parameter \<open>H\<close> of every
  definition that calls it, and what a theorem needs of it is a named hypothesis.
\<close>

section \<open>Events\<close>

datatype event =
    Print "u8 list"                 \<comment> \<open>fprintf(stdout, \<dots>)\<close>
  | Open "u8 list" u16              \<comment> \<open>open(path, flags)\<close>
  | Close u16
  | Write u16 "u8 list"             \<comment> \<open>write(fd, buffer, size), with the bytes of the buffer\<close>
  | Read u16 u16                    \<comment> \<open>read(fd, \<dots>, size)\<close>
  | Chdir "u8 list"
  | Getcwd u16
  | System "u8 list"
  | Lseek u16 u16 u16
  | Unlink "u8 list"
  | Fflush u16                      \<comment> \<open>fflush of stdout (1) or stderr (2)\<close>
  | Fsync u16
  | Gettimeofday
  | Random
  | Open_fb
  | Ioctl_vscreeninfo
  | Ioctl_fscreeninfo
  | Mmap_fb u32
  | Munmap_fb u32
  | Open_devmem                    \<comment> \<open>open("/dev/mem", O_RDWR|O_SYNC)\<close>
  | Mmap_phys u32                  \<comment> \<open>mmap of /dev/mem at a physical address\<close>
  | Close_fb int
  | Ioctl_vsync int
  | Malloc int
  | Pthread_create nat
  | Pthread_kill nat
  | Time                          \<comment> \<open>time(NULL)\<close>
  | Fgets int                     \<comment> \<open>fgets(\<dots>, size, stdin), 0 for NULL\<close>
  | Fopen "u8 list" string        \<comment> \<open>fopen(path, mode), 0 for NULL\<close>
  | Fseek int nat                 \<comment> \<open>fseek(stream, 0, SEEK_SET) (0) or SEEK_END (2)\<close>
  | Ftell int
  | Fread int nat                 \<comment> \<open>fread(\<dots>, size, 1, stream), with the bytes it stored\<close>
  | Fwrite int "u8 list"          \<comment> \<open>fwrite(\<dots>, size, 1, stream), with the bytes of the buffer\<close>
  | Fclose int
  | Log string                    \<comment> \<open>diagnostic output, by its constant text\<close>

text \<open>What a call returns: its value, the value it gave \<^verbatim>\<open>errno\<close> if it set it, the
  bytes it stored through the pointer it was given.\<close>

record osres =
  os_ret :: int
  os_errno :: "int option"
  os_data :: "u8 list"

record timeval =
  tv_sec :: int
  tv_usec :: int

text \<open>The fields of \<^verbatim>\<open>struct fb_var_screeninfo\<close> that \<^verbatim>\<open>fb.c\<close> reads.\<close>

record vscreen =
  xres :: u32
  yres :: u32
  yres_virtual :: u32
  bits_per_pixel :: u32
  red_offset :: nat
  green_offset :: nat
  blue_offset :: nat

record host =
  os_call :: "event list \<Rightarrow> event \<Rightarrow> osres"
  os_clock :: "event list \<Rightarrow> timeval"
  os_random :: "event list \<Rightarrow> int"
  os_vscreen :: "event list \<Rightarrow> vscreen"
  os_fscreen :: "event list \<Rightarrow> u32"
  os_screen :: "event list \<Rightarrow> nat \<Rightarrow> u8"

section \<open>The process-wide state\<close>

text \<open>
  The state of the shim is the globals of its object files. Each component's theory extends
  the record by the globals of its own file, so that an operation of one file is defined on
  every machine that has its globals, and leaves all others alone by construction.
\<close>

record world =
  trace :: "event list"
  errno :: int

definition emit :: "event \<Rightarrow> 'a world_scheme \<Rightarrow> 'a world_scheme" where
  "emit e s = s\<lparr>trace := e # trace s\<rparr>"

definition syscall :: "host \<Rightarrow> event \<Rightarrow> 'a world_scheme \<Rightarrow> osres \<times> 'a world_scheme" where
  "syscall H e s =
     (let r = os_call H (trace s) e
      in (r, (emit e s)\<lparr>errno := (case os_errno r of None \<Rightarrow> errno s | Some n \<Rightarrow> n)\<rparr>))"

definition gettimeofday :: "host \<Rightarrow> 'a world_scheme \<Rightarrow> timeval \<times> 'a world_scheme" where
  "gettimeofday H s = (os_clock H (trace s), emit Gettimeofday s)"

definition random_call :: "host \<Rightarrow> 'a world_scheme \<Rightarrow> int \<times> 'a world_scheme" where
  "random_call H s = (os_random H (trace s), emit Random s)"

lemma trace_emit [simp]: "trace (emit e s) = e # trace s" "errno (emit e s) = errno s"
  by (simp_all add: emit_def)

lemma fst_syscall [simp]: "fst (syscall H e s) = os_call H (trace s) e"
  by (simp add: syscall_def Let_def)

lemma trace_syscall [simp]: "trace (snd (syscall H e s)) = e # trace s"
  by (simp add: syscall_def Let_def emit_def)

section \<open>Documented behaviour of the host\<close>

text \<open>
  POSIX: \<^verbatim>\<open>read\<close> returns the number of bytes it stored, at most the size asked for, or -1
  with nothing stored; \<^verbatim>\<open>gettimeofday\<close> gives a microsecond part below one million.
\<close>

definition posix_read :: "host \<Rightarrow> bool" where
  "posix_read H \<longleftrightarrow> (\<forall>tr fd n. let r = os_call H tr (Read fd n) in
     length (os_data r) \<le> unat n \<and>
     (os_ret r = int (length (os_data r)) \<or> os_ret r = -1 \<and> os_data r = []))"

definition clock_ok :: "timeval \<Rightarrow> bool" where
  "clock_ok t \<longleftrightarrow> 0 \<le> tv_sec t \<and> tv_sec t < 2 ^ 31 \<and> 0 \<le> tv_usec t \<and> tv_usec t < 1000000"

text \<open>
  A host on which witnesses run: every call returns 0 and stores nothing; its screen has 64 by
  48 pixels of 16 bits.
\<close>

definition null_host :: host where
  "null_host = \<lparr>os_call = (\<lambda>tr e. \<lparr>os_ret = 0, os_errno = None, os_data = []\<rparr>),
     os_clock = (\<lambda>tr. \<lparr>tv_sec = 0, tv_usec = 0\<rparr>), os_random = (\<lambda>tr. 0),
     os_vscreen = (\<lambda>tr. \<lparr>xres = 64, yres = 48, yres_virtual = 48, bits_per_pixel = 16,
       red_offset = 11, green_offset = 5, blue_offset = 0\<rparr>),
     os_fscreen = (\<lambda>tr. 128), os_screen = (\<lambda>tr k. 0)\<rparr>"

lemma posix_read_null_host: "posix_read null_host"
  by (simp add: posix_read_def null_host_def Let_def)

end
