(* ===== verification/Memory.thy ===== *)
theory Memory
  imports Host
begin

text \<open>
  The guest's address space (\<^verbatim>\<open>src/src/mem.c\<close>, \<^verbatim>\<open>src/src/mem.h\<close>): one block of host memory,
  divided into 40K of low memory, 256 pages of 8K behind 0xA000-0xBFFF and 256 pages of 16K
  behind 0xC000-0xFFFF, with the page registers, the dispatch tables on the top address
  nibble, and the tables of pluggable handlers. The handlers for the top 4K call into the
  other components; they are in \<^theory_text>\<open>Bus\<close>.
\<close>

section \<open>Layout\<close>

definition HIMEM1_START :: int where "HIMEM1_START = 0xA000"
definition HIMEM2_START :: int where "HIMEM2_START = 0xC000"
definition LOMEM_SIZE :: int where "LOMEM_SIZE = 0xA000"
definition HIMEM1_SIZE :: int where "HIMEM1_SIZE = 0x200000"
definition HIMEM2_SIZE :: int where "HIMEM2_SIZE = 0xC00000"
definition HIMEM1_START_IN_MEM :: int where "HIMEM1_START_IN_MEM = LOMEM_SIZE"
definition HIMEM2_START_IN_MEM :: int where "HIMEM2_START_IN_MEM = LOMEM_SIZE + HIMEM1_SIZE"
definition EXRAM_START :: u8 where "EXRAM_START = 0x00"

definition MEM_SIZE :: int where "MEM_SIZE = LOMEM_SIZE + HIMEM1_SIZE + HIMEM2_SIZE"

lemmas layout_defs = HIMEM1_START_def HIMEM2_START_def LOMEM_SIZE_def HIMEM1_SIZE_def
  HIMEM2_SIZE_def HIMEM1_START_IN_MEM_def HIMEM2_START_IN_MEM_def MEM_SIZE_def

text \<open>The functions other files plug into the handler tables, by name.\<close>

datatype io_writer =
    Fb_mem_io_write
  | Fb_mem_io_write_1
  | Time_mem_io_write
  | Mmu_mem_io_write
  | Mbox_mem_io_write

datatype io_reader =
    Fb_mem_io_read
  | Time_mem_io_read
  | Mmu_mem_io_read
  | Mbox_mem_io_read

text \<open>
  \<open>mem\<close> is the block returned by \<^verbatim>\<open>malloc\<close>, by offset; a C pointer into it is an
  \<open>int\<close> offset.
\<close>

record memory = world +
  mem :: "int \<Rightarrow> u8"
  himem1_index :: "u8 \<Rightarrow> int"
  himem2_index :: "u8 \<Rightarrow> int"
  himem1_page :: u8
  himem2_page :: u8
  io_write_top_handler :: "u8 \<Rightarrow> io_writer option"
  io_read_top_handler :: "u8 \<Rightarrow> io_reader option"

text \<open>
  \<^verbatim>\<open>mem_init\<close>: the index tables are filled whether or not \<^verbatim>\<open>malloc\<close> succeeds; its result
  is \<open>None\<close> for NULL, otherwise the (unspecified) content of the new block.
\<close>

definition mem_init :: "(int \<Rightarrow> u8) option \<Rightarrow> 'a memory_scheme \<Rightarrow> u8 \<times> 'a memory_scheme" where
  "mem_init block s =
     (let s1 = s\<lparr>himem1_index := (\<lambda>g. uint g * 0x2000 - HIMEM1_START),
                 himem2_index := (\<lambda>g. uint g * 0x4000 - HIMEM2_START)\<rparr>
      in case block of
           None \<Rightarrow> (1, s1)
         | Some content \<Rightarrow> (0, s1\<lparr>mem := content\<rparr>))"

section \<open>Pointers into the block\<close>

definition lowmem_at :: "u16 \<Rightarrow> int" where
  "lowmem_at address = uint address"

definition himem1_at :: "'a memory_scheme \<Rightarrow> u8 \<Rightarrow> u16 \<Rightarrow> int" where
  "himem1_at s page address = HIMEM1_START_IN_MEM + (himem1_index s page + uint address)"

definition himem2_at :: "'a memory_scheme \<Rightarrow> u8 \<Rightarrow> u16 \<Rightarrow> int" where
  "himem2_at s page address = HIMEM2_START_IN_MEM + (himem2_index s page + uint address)"

definition poke :: "int \<Rightarrow> u8 \<Rightarrow> 'a memory_scheme \<Rightarrow> 'a memory_scheme" where
  "poke k v s = s\<lparr>mem := (mem s)(k := v)\<rparr>"

section \<open>The handlers below the top page\<close>

definition write_lomem_zeropage :: "u16 \<Rightarrow> u8 \<Rightarrow> 'a memory_scheme \<Rightarrow> 'a memory_scheme" where
  "write_lomem_zeropage address val s = poke (lowmem_at address) val s"

definition write_lomem_noio :: "u16 \<Rightarrow> u8 \<Rightarrow> 'a memory_scheme \<Rightarrow> 'a memory_scheme" where
  "write_lomem_noio address val s = poke (lowmem_at address) val s"

definition write_himem1 :: "u16 \<Rightarrow> u8 \<Rightarrow> 'a memory_scheme \<Rightarrow> 'a memory_scheme" where
  "write_himem1 address val s = poke (himem1_at s (himem1_page s) address) val s"

definition write_himem2 :: "u16 \<Rightarrow> u8 \<Rightarrow> 'a memory_scheme \<Rightarrow> 'a memory_scheme" where
  "write_himem2 address val s =
     (if himem2_page s < EXRAM_START then s
      else poke (himem2_at s (himem2_page s) address) val s)"

definition read_lomem_zeropage :: "'a memory_scheme \<Rightarrow> u16 \<Rightarrow> u8" where
  "read_lomem_zeropage s address = mem s (lowmem_at address)"

definition read_lomem_noio :: "'a memory_scheme \<Rightarrow> u16 \<Rightarrow> u8" where
  "read_lomem_noio s address = mem s (lowmem_at address)"

definition read_himem1 :: "'a memory_scheme \<Rightarrow> u16 \<Rightarrow> u8" where
  "read_himem1 s address = mem s (himem1_at s (himem1_page s) address)"

definition read_himem2 :: "'a memory_scheme \<Rightarrow> u16 \<Rightarrow> u8" where
  "read_himem2 s address =
     (if himem2_page s < EXRAM_START then mem s (himem2_at s (himem2_page s) address)
      else mem s (himem2_at s (himem2_page s) address))"

section \<open>Dispatch on the top nibble\<close>

datatype mem_handler = Lomem_zeropage | Lomem_noio | Himem1 | Himem2 | Himem2_top

definition mem_write_handler :: "mem_handler list" where
  "mem_write_handler =
     [Lomem_zeropage, Lomem_noio, Lomem_noio, Lomem_noio, Lomem_noio, Lomem_noio, Lomem_noio,
      Lomem_noio, Lomem_noio, Lomem_noio, Himem1, Himem1, Himem2, Himem2, Himem2, Himem2_top]"

definition mem_read_handler :: "mem_handler list" where
  "mem_read_handler =
     [Lomem_zeropage, Lomem_noio, Lomem_noio, Lomem_noio, Lomem_noio, Lomem_noio, Lomem_noio,
      Lomem_noio, Lomem_noio, Lomem_noio, Himem1, Himem1, Himem2, Himem2, Himem2, Himem2_top]"

definition mem_base_handler :: "mem_handler list" where
  "mem_base_handler =
     [Lomem_zeropage, Lomem_noio, Lomem_noio, Lomem_noio, Lomem_noio, Lomem_noio, Lomem_noio,
      Lomem_noio, Lomem_noio, Lomem_noio, Himem1, Himem1, Himem2, Himem2, Himem2, Himem2]"

text \<open>
  \<^verbatim>\<open>mem_base\<close>: the host pointer behind a guest address. There is no separate function for
  the top page here: 0xF000-0xFFFF is taken from the current himem2 page.
\<close>

definition mem_base :: "'a memory_scheme \<Rightarrow> u16 \<Rightarrow> int" where
  "mem_base s address =
     (case mem_base_handler ! unat (drop_bit 12 address) of
        Lomem_zeropage \<Rightarrow> lowmem_at address
      | Lomem_noio \<Rightarrow> lowmem_at address
      | Himem1 \<Rightarrow> himem1_at s (himem1_page s) address
      | _ \<Rightarrow> himem2_at s (himem2_page s) address)"

text \<open>\<^verbatim>\<open>*(uint16_t*)mem_base(a)\<close> and \<^verbatim>\<open>*(uint8_t*)mem_base(a)\<close>, on a little-endian host.\<close>

definition ld16 :: "'a memory_scheme \<Rightarrow> u16 \<Rightarrow> u16" where
  "ld16 s a = get16 (mem s) (mem_base s a)"

definition ld8 :: "'a memory_scheme \<Rightarrow> u16 \<Rightarrow> u8" where
  "ld8 s a = mem s (mem_base s a)"

lemma nth_top_nibble:
  fixes a :: u16
  assumes "\<forall>n \<in> {0, 1, 2, 3, 4, 5, 6, 7, 8, 9, 10, 11, 12, 13, 14, 15}.
     \<forall>x. int n * 4096 \<le> x \<and> x < int n * 4096 + 4096 \<longrightarrow> tab ! n = f x"
  shows "tab ! unat (drop_bit 12 a) = f (uint a)"
proof -
  let ?n = "unat a div 4096"
  have small: "m \<in> {0, 1, 2, 3, 4, 5, 6, 7, 8, 9, 10, 11, 12, 13, 14, 15}" if "m < 16" for m :: nat
    unfolding insert_iff empty_iff using that by presburger
  have "int (unat a) = uint a"
    by simp
  moreover have "?n * 4096 \<le> unat a" "unat a < ?n * 4096 + 4096" "?n < 16"
    using unat_u16_bound [of a] by linarith+
  ultimately have "int ?n * 4096 \<le> uint a" "uint a < int ?n * 4096 + 4096"
    by linarith+
  moreover have "?n \<in> {0, 1, 2, 3, 4, 5, 6, 7, 8, 9, 10, 11, 12, 13, 14, 15}"
    using small [OF \<open>?n < 16\<close>] .
  ultimately have "tab ! ?n = f (uint a)"
    using assms by blast
  then show ?thesis
    by (simp only: unat_top_nibble)
qed

lemma mem_base_handler_at:
  "mem_base_handler ! unat (drop_bit 12 (a :: u16)) =
     (if uint a < 0x1000 then Lomem_zeropage else if uint a < 0xA000 then Lomem_noio
      else if uint a < 0xC000 then Himem1 else Himem2)"
  by (rule nth_top_nibble) (simp add: mem_base_handler_def)

lemma mem_write_handler_at:
  "mem_write_handler ! unat (drop_bit 12 (a :: u16)) =
     (if uint a < 0x1000 then Lomem_zeropage else if uint a < 0xA000 then Lomem_noio
      else if uint a < 0xC000 then Himem1 else if uint a < 0xF000 then Himem2 else Himem2_top)"
  by (rule nth_top_nibble) (simp add: mem_write_handler_def)

lemma mem_read_handler_eq [simp]: "mem_read_handler = mem_write_handler"
  by (simp add: mem_read_handler_def mem_write_handler_def)

section \<open>Well-formed states\<close>

text \<open>What \<^verbatim>\<open>mem_init\<close> establishes and no operation of the shim changes.\<close>

definition indexed :: "'a memory_scheme \<Rightarrow> bool" where
  "indexed s \<longleftrightarrow> himem1_index s = (\<lambda>g. uint g * 0x2000 - 0xA000) \<and>
     himem2_index s = (\<lambda>g. uint g * 0x4000 - 0xC000)"

lemma indexed_mem_init: "indexed (snd (mem_init block s))"
  by (cases block) (simp_all add: mem_init_def indexed_def layout_defs)

lemma indexed_poke [simp]: "indexed (poke k v s) = indexed s"
  by (simp add: indexed_def poke_def)

lemma indexed_memI:
  "indexed s \<Longrightarrow> himem1_index t = himem1_index s \<Longrightarrow> himem2_index t = himem2_index s \<Longrightarrow> indexed t"
  by (simp add: indexed_def)

lemma poke_simps [simp]:
  "mem (poke k v s) = (mem s)(k := v)"
  "himem1_index (poke k v s) = himem1_index s" "himem2_index (poke k v s) = himem2_index s"
  "himem1_page (poke k v s) = himem1_page s" "himem2_page (poke k v s) = himem2_page s"
  "io_write_top_handler (poke k v s) = io_write_top_handler s"
  "io_read_top_handler (poke k v s) = io_read_top_handler s"
  "trace (poke k v s) = trace s" "errno (poke k v s) = errno s"
  by (simp_all add: poke_def)

section \<open>The banked address space\<close>

text \<open>
  The contract of the component: a guest address selects, under the page registers, one cell
  of a space of 40K fixed cells and twice 256 banks; \<open>phys\<close> places the cells in the host
  block. Distinct cells are distinct bytes of the block and every cell is inside it.
\<close>

datatype cell =
    Low u16
  | Bank1 u8 u16
  | Bank2 u8 u16

fun valid_cell :: "cell \<Rightarrow> bool" where
  "valid_cell (Low a) \<longleftrightarrow> uint a < 0xA000"
| "valid_cell (Bank1 p a) \<longleftrightarrow> 0xA000 \<le> uint a \<and> uint a < 0xC000"
| "valid_cell (Bank2 p a) \<longleftrightarrow> 0xC000 \<le> uint a"

definition cell_of :: "u8 \<Rightarrow> u8 \<Rightarrow> u16 \<Rightarrow> cell" where
  "cell_of p1 p2 a =
     (if uint a < 0xA000 then Low a else if uint a < 0xC000 then Bank1 p1 a else Bank2 p2 a)"

fun phys :: "cell \<Rightarrow> int" where
  "phys (Low a) = uint a"
| "phys (Bank1 p a) = 0xA000 + uint p * 0x2000 + (uint a - 0xA000)"
| "phys (Bank2 p a) = 0x20A000 + uint p * 0x4000 + (uint a - 0xC000)"

definition cells :: "'a memory_scheme \<Rightarrow> cell \<Rightarrow> u8" where
  "cells s c = mem s (phys c)"

lemma valid_cell_of [simp]: "valid_cell (cell_of p1 p2 a)"
  by (simp add: cell_of_def)

lemma phys_in_block: "valid_cell c \<Longrightarrow> 0 \<le> phys c \<and> phys c < 0x60A000"
proof (cases c)
  case (Bank1 p a)
  then show "valid_cell c \<Longrightarrow> ?thesis"
    using uint_u8_bound [of p] uint_u16_bound [of a] by simp
next
  case (Bank2 p a)
  then show "valid_cell c \<Longrightarrow> ?thesis"
    using uint_u8_bound [of p] uint_u16_bound [of a] by simp
qed simp

lemma bank_offset_inj:
  fixes p q x y k :: int
  assumes "p * k + x = q * k + y" "0 \<le> x" "x < k" "0 \<le> y" "y < k"
  shows "p = q \<and> x = y"
proof -
  have "(p * k + x) div k = p" "(q * k + y) div k = q"
    using assms int_div_pos_eq [of "p * k + x" k p x] int_div_pos_eq [of "q * k + y" k q y]
    by (simp_all add: mult.commute)
  with assms(1) show ?thesis by simp
qed

lemma phys_inj: "valid_cell c \<Longrightarrow> valid_cell d \<Longrightarrow> phys c = phys d \<Longrightarrow> c = d"
proof -
  assume v: "valid_cell c" "valid_cell d" and eq: "phys c = phys d"
  have b: "0 \<le> uint p \<and> uint p < 256" for p :: u8 by (rule uint_u8_bound)
  have w: "0 \<le> uint a \<and> uint a < 65536" for a :: u16 by (rule uint_u16_bound)
  show "c = d"
  proof (cases c; cases d)
    fix p a q a'
    assume cd: "c = Bank1 p a" "d = Bank1 q a'"
    have "uint p = uint q \<and> uint a - 0xA000 = uint a' - 0xA000"
      using v eq cd by (intro bank_offset_inj [of _ "0x2000"]) simp_all
    with cd show ?thesis by (simp add: word_uint_eq_iff)
  next
    fix p a q a'
    assume cd: "c = Bank2 p a" "d = Bank2 q a'"
    have "uint p = uint q \<and> uint a - 0xC000 = uint a' - 0xC000"
      using v eq cd w [of a] w [of a'] by (intro bank_offset_inj [of _ "0x4000"]) simp_all
    with cd show ?thesis by (simp add: word_uint_eq_iff)
  next
    fix a p a'
    assume "c = Low a" "d = Bank1 p a'"
    with v eq b [of p] show ?thesis by simp
  next
    fix a p a'
    assume "c = Low a" "d = Bank2 p a'"
    with v eq b [of p] show ?thesis by simp
  next
    fix p a a'
    assume "c = Bank1 p a" "d = Low a'"
    with v eq b [of p] show ?thesis by simp
  next
    fix p a a'
    assume "c = Bank2 p a" "d = Low a'"
    with v eq b [of p] show ?thesis by simp
  next
    fix p a q a'
    assume "c = Bank1 p a" "d = Bank2 q a'"
    with v eq b [of p] b [of q] show ?thesis by simp
  next
    fix p a q a'
    assume "c = Bank2 p a" "d = Bank1 q a'"
    with v eq b [of p] b [of q] show ?thesis by simp
  qed (use eq in \<open>simp add: word_uint_eq_iff\<close>)
qed

lemma mem_base_phys:
  assumes "indexed s"
  shows "mem_base s a = phys (cell_of (himem1_page s) (himem2_page s) a)"
  using assms unfolding mem_base_def mem_base_handler_at
  by (simp add: cell_of_def indexed_def lowmem_at_def himem1_at_def himem2_at_def layout_defs)

section \<open>Accesses stay in the block\<close>

text \<open>
  The largest span the shim takes from one guest pointer is a \<^verbatim>\<open>write\<close> or \<^verbatim>\<open>read\<close> of 65535
  bytes; from any guest address, under any page registers, it ends inside the block.
\<close>

lemma mem_base_bounds:
  assumes "indexed s"
  shows "0 \<le> mem_base s a \<and> mem_base s a + 0xFFFF < MEM_SIZE"
  using phys_in_block [of "cell_of (himem1_page s) (himem2_page s) a"] mem_base_phys [OF assms, of a]
  by (simp add: layout_defs)

lemma himem2_at_phys: "indexed s \<Longrightarrow> 0xC000 \<le> uint a \<Longrightarrow> himem2_at s p a = phys (Bank2 p a)"
  by (simp add: himem2_at_def indexed_def layout_defs)

lemma himem1_at_phys: "indexed s \<Longrightarrow> himem1_at s p a = phys (Bank1 p a)"
  by (simp add: himem1_at_def indexed_def layout_defs)

section \<open>Refinement of the banked address space\<close>

lemma cells_poke:
  "valid_cell c \<Longrightarrow> valid_cell d \<Longrightarrow> cells (poke (phys c) v s) d = (if d = c then v else cells s d)"
  using phys_inj by (auto simp: cells_def)

interpretation hostmem: byte_store mem "\<lambda>s k v. poke k v s" "\<lambda>k. True" "\<lambda>s. True"
  by unfold_locales simp_all

text \<open>The same memory as the guest addresses it, under the page registers of the state.\<close>

definition guest_get :: "'a memory_scheme \<Rightarrow> u16 \<Rightarrow> u8" where
  "guest_get s a = mem s (mem_base s a)"

definition guest_put :: "'a memory_scheme \<Rightarrow> u16 \<Rightarrow> u8 \<Rightarrow> 'a memory_scheme" where
  "guest_put s a v = poke (mem_base s a) v s"

lemma mem_base_poke [simp]: "mem_base (poke k v s) a = mem_base s a"
  by (simp add: mem_base_def himem1_at_def himem2_at_def split: mem_handler.split)

lemma cell_of_inj: "cell_of p q a = cell_of p q b \<longleftrightarrow> a = b"
  by (auto simp: cell_of_def split: if_splits)

lemma mem_base_inj: "indexed s \<Longrightarrow> mem_base s a = mem_base s b \<longleftrightarrow> a = b"
  using phys_inj [of "cell_of (himem1_page s) (himem2_page s) a" "cell_of (himem1_page s) (himem2_page s) b"]
  by (auto simp: mem_base_phys cell_of_inj)

interpretation guest: byte_store guest_get guest_put "\<lambda>a. True" indexed
  by unfold_locales (auto simp: guest_get_def guest_put_def mem_base_inj)

text \<open>
  A 16-bit host read through \<^verbatim>\<open>mem_base\<close> agrees with two guest reads, but where the second
  byte lies in another area: there the host pointer runs on into the block.
\<close>

lemma mem_base_succ:
  assumes "indexed s" and "a \<notin> {0x9FFF, 0xBFFF, 0xFFFF}"
  shows "mem_base s (a + 1) = mem_base s a + 1"
proof -
  have neq: "uint a \<noteq> 0x9FFF" "uint a \<noteq> 0xBFFF" "uint a \<noteq> 0xFFFF"
    using assms(2) by (auto simp: word_uint_eq_iff)
  have "uint (a + 1) = uint a + 1"
    using uint_add_small [of a 1] uint_u16_bound [of a] neq(3) by simp
  then show ?thesis
    using neq by (simp add: mem_base_phys [OF assms(1)] cell_of_def)
qed

lemma ld16_guest:
  "indexed s \<Longrightarrow> a \<notin> {0x9FFF, 0xBFFF, 0xFFFF} \<Longrightarrow> ld16 s a = get16 (guest_get s) a"
  by (simp add: ld16_def get16_def guest_get_def mem_base_succ)

end
