(* ===== verification/Mmu.thy ===== *)
theory Mmu
  imports Memory
begin

text \<open>
  The memory management unit (\<^verbatim>\<open>src/src/mmu.c\<close>, \<^verbatim>\<open>src/include/mmu_calls.h\<close>): a pluggable
  handler for the top-page block 0xFFE0-0xFFEF, through which the page registers are written
  and read back, and the assist call that installs it.
\<close>

definition PI_MMU :: u16 where "PI_MMU = 0x0300"
definition PI_MMU_INIT :: u16 where "PI_MMU_INIT = 0x0301"

definition mmu_mem_io_write :: "u16 \<Rightarrow> u8 \<Rightarrow> 'a memory_scheme \<Rightarrow> 'a memory_scheme" where
  "mmu_mem_io_write address data s =
     (if address AND 0xF = 0x00 then
        (poke (himem2_at s 0 address) data s)\<lparr>himem1_page := data\<rparr>
      else if address AND 0xF = 0x01 then
        (poke (himem2_at s 0 address) data s)\<lparr>himem2_page := data\<rparr>
      else s)"

definition mmu_mem_io_read :: "'a memory_scheme \<Rightarrow> u16 \<Rightarrow> u8" where
  "mmu_mem_io_read s address =
     (if address AND 0xF = 0x00 then himem1_page s
      else if address AND 0xF = 0x01 then himem2_page s
      else 255)"

definition mmu_init :: "'a memory_scheme \<Rightarrow> u8 \<times> 'a memory_scheme" where
  "mmu_init s =
     (0, s\<lparr>io_write_top_handler := (io_write_top_handler s)(0xe := Some Mmu_mem_io_write),
          io_read_top_handler := (io_read_top_handler s)(0xe := Some Mmu_mem_io_read)\<rparr>)"

definition sync_mmu_assist :: "'a memory_scheme \<Rightarrow> u8 \<times> 'a memory_scheme" where
  "sync_mmu_assist s =
     (let addr = ld16 s 0xFFF8; data = ld16 s addr
      in if data = PI_MMU_INIT then mmu_init s else (255, s))"

definition async_mmu_assist :: "u16 \<Rightarrow> 'a memory_scheme \<Rightarrow> 'a memory_scheme" where
  "async_mmu_assist addr s =
     (let data = ld16 s addr in if data = PI_MMU_INIT then snd (mmu_init s) else s)"

lemma indexed_mmu_write [simp]: "indexed (mmu_mem_io_write a v s) = indexed s"
  by (simp add: mmu_mem_io_write_def indexed_def)

lemma indexed_mmu_init [simp]: "indexed (snd (mmu_init s)) = indexed s"
  by (simp add: mmu_init_def indexed_def)

lemma indexed_sync_mmu [simp]: "indexed (snd (sync_mmu_assist s)) = indexed s"
  by (simp add: sync_mmu_assist_def Let_def)

lemma indexed_async_mmu [simp]: "indexed (async_mmu_assist a s) = indexed s"
  by (simp add: async_mmu_assist_def Let_def)

text \<open>A page register reads back what was last written to it.\<close>

lemma mmu_read_after_write:
  "mmu_mem_io_read (mmu_mem_io_write a v s) a = (if a AND 0xF = 0 \<or> a AND 0xF = 1 then v else 255)"
  by (simp add: mmu_mem_io_write_def mmu_mem_io_read_def)

text \<open>Writing one register leaves the other alone.\<close>

lemma mmu_write_himem1: "mmu_mem_io_write 0xFFE0 v s = (poke (himem2_at s 0 0xFFE0) v s)\<lparr>himem1_page := v\<rparr>"
  by (simp add: mmu_mem_io_write_def)

lemma mmu_write_himem2: "mmu_mem_io_write 0xFFE1 v s = (poke (himem2_at s 0 0xFFE1) v s)\<lparr>himem2_page := v\<rparr>"
  by (simp add: mmu_mem_io_write_def)

end
