(* ===== verification/TimeUnit.thy ===== *)
theory TimeUnit
  imports Mmu
begin

text \<open>
  The time unit (\<^verbatim>\<open>src/src/time.c\<close>, \<^verbatim>\<open>src/include/time_calls.h\<close>): clock, millisecond counter,
  deadline timer and random numbers behind the top-page block 0xFF20-0xFF2F. Multi-byte
  counters are latched by the read of their highest byte. C's \<^verbatim>\<open>long\<close> is 32 bits on the
  32-bit Pi, so the deadline comparison is unsigned.
\<close>

definition PI_TIME :: u16 where "PI_TIME = 0x0A00"
definition PI_TIME_INIT :: u16 where "PI_TIME_INIT = 0x0A01"

record timeunit = memory +
  now :: timeval
  ms :: timeval
  time_ms :: u32
  deadline :: u32

text \<open>\<^verbatim>\<open>(ms.tv_sec % 1000000)*1000 + ms.tv_usec/1000\<close>; C truncates towards zero.\<close>

definition millis :: "timeval \<Rightarrow> int" where
  "millis t = (tv_sec t smod 1000000) * 1000 + tv_usec t sdiv 1000"

text \<open>Byte \<open>k\<close> of a C integer: \<^verbatim>\<open>(x >> 8*k) & 0xff\<close>.\<close>

definition byte_of :: "nat \<Rightarrow> int \<Rightarrow> u8" where
  "byte_of k x = word_of_int (drop_bit (8 * k) x)"

definition time_mem_io_write ::
  "host \<Rightarrow> u16 \<Rightarrow> u8 \<Rightarrow> 'a timeunit_scheme \<Rightarrow> 'a timeunit_scheme" where
  "time_mem_io_write H address data s =
     (let r = address AND 0xF in
      if r = 0x0C then
        (let (t, s1) = gettimeofday H s in s1\<lparr>ms := t, deadline := ucast data\<rparr>)
      else if r = 0x0D then
        (let d = deadline s OR push_bit 8 (ucast data)
         in s\<lparr>deadline := d + word_of_int (millis (ms s))\<rparr>)
      else s)"

definition time_mem_io_read ::
  "host \<Rightarrow> u16 \<Rightarrow> 'a timeunit_scheme \<Rightarrow> u8 \<times> 'a timeunit_scheme" where
  "time_mem_io_read H address s =
     (let r = address AND 0xF in
      if r = 0x00 then (byte_of 0 (tv_usec (now s)), s)
      else if r = 0x01 then (byte_of 1 (tv_usec (now s)), s)
      else if r = 0x02 then (byte_of 2 (tv_usec (now s)), s)
      else if r = 0x03 then
        (let (t, s1) = gettimeofday H s in (byte_of 3 (tv_usec t), s1\<lparr>now := t\<rparr>))
      else if r = 0x04 then (byte_of 0 (tv_sec (now s)), s)
      else if r = 0x05 then (byte_of 1 (tv_sec (now s)), s)
      else if r = 0x06 then (byte_of 2 (tv_sec (now s)), s)
      else if r = 0x07 then (byte_of 3 (tv_sec (now s)), s)
      else if r = 0x08 then (byte_of 0 (uint (time_ms s)), s)
      else if r = 0x09 then (byte_of 1 (uint (time_ms s)), s)
      else if r = 0x0A then (byte_of 2 (uint (time_ms s)), s)
      else if r = 0x0B then
        (let (t, s1) = gettimeofday H s; v = word_of_int (millis t) :: u32
         in (byte_of 3 (uint v), s1\<lparr>ms := t, time_ms := v\<rparr>))
      else if r = 0x0C then
        (let (t, s1) = gettimeofday H s
         in (if word_of_int (millis t) < deadline s then 255 else 0, s1\<lparr>ms := t\<rparr>))
      else if r = 0x0E \<or> r = 0x0F then
        (let (x, s1) = random_call H s in (word_of_int x, s1))
      else (255, s))"

definition time_init :: "host \<Rightarrow> 'a timeunit_scheme \<Rightarrow> u8 \<times> 'a timeunit_scheme" where
  "time_init H s =
     (let (t1, s1) = gettimeofday H s;
          (t2, s2) = gettimeofday H s1
      in (0, s2\<lparr>now := t1, ms := t2,
            io_write_top_handler := (io_write_top_handler s2)(2 := Some Time_mem_io_write),
            io_read_top_handler := (io_read_top_handler s2)(2 := Some Time_mem_io_read)\<rparr>))"

definition sync_time_assist :: "host \<Rightarrow> 'a timeunit_scheme \<Rightarrow> u8 \<times> 'a timeunit_scheme" where
  "sync_time_assist H s =
     (let addr = ld16 s 0xFFF8; data = ld16 s addr
      in if data = PI_TIME_INIT then time_init H s else (255, s))"

section \<open>Frame\<close>

lemma emit_memory [simp]:
  "mem (emit e s) = mem s" "himem1_index (emit e s) = himem1_index s"
  "himem2_index (emit e s) = himem2_index s" "himem1_page (emit e s) = himem1_page s"
  "himem2_page (emit e s) = himem2_page s"
  "io_write_top_handler (emit e s) = io_write_top_handler s"
  "io_read_top_handler (emit e s) = io_read_top_handler s"
  by (simp_all add: emit_def)

lemma emit_timeunit [simp]:
  "now (emit e s) = now s" "ms (emit e s) = ms s" "time_ms (emit e s) = time_ms s"
  "deadline (emit e s) = deadline s"
  by (simp_all add: emit_def)

lemma time_write_memory:
  "mem (time_mem_io_write H a v s) = mem s"
  "himem1_index (time_mem_io_write H a v s) = himem1_index s"
  "himem2_index (time_mem_io_write H a v s) = himem2_index s"
  "himem1_page (time_mem_io_write H a v s) = himem1_page s"
  "himem2_page (time_mem_io_write H a v s) = himem2_page s"
  "io_write_top_handler (time_mem_io_write H a v s) = io_write_top_handler s"
  "io_read_top_handler (time_mem_io_write H a v s) = io_read_top_handler s"
  by (simp_all add: time_mem_io_write_def Let_def gettimeofday_def)

lemma time_read_memory:
  "mem (snd (time_mem_io_read H a s)) = mem s"
  "himem1_index (snd (time_mem_io_read H a s)) = himem1_index s"
  "himem2_index (snd (time_mem_io_read H a s)) = himem2_index s"
  "himem1_page (snd (time_mem_io_read H a s)) = himem1_page s"
  "himem2_page (snd (time_mem_io_read H a s)) = himem2_page s"
  "io_write_top_handler (snd (time_mem_io_read H a s)) = io_write_top_handler s"
  "io_read_top_handler (snd (time_mem_io_read H a s)) = io_read_top_handler s"
  by (simp_all add: time_mem_io_read_def Let_def gettimeofday_def random_call_def)

lemma indexed_time [simp]:
  "indexed (time_mem_io_write H a v s) = indexed s"
  "indexed (snd (time_mem_io_read H a s)) = indexed s"
  "indexed (snd (time_init H s)) = indexed s"
  "indexed (snd (sync_time_assist H s)) = indexed s"
  by (simp_all add: indexed_def time_write_memory time_read_memory time_init_def
      sync_time_assist_def Let_def gettimeofday_def)

section \<open>Arithmetic of the millisecond clock\<close>

lemma millis_eq:
  assumes "clock_ok t"
  shows "millis t = (tv_sec t mod 1000000) * 1000 + tv_usec t div 1000"
  using assms by (simp add: millis_def clock_ok_def sdiv_nonneg smod_nonneg)

lemma millis_range: "clock_ok t \<Longrightarrow> 0 \<le> millis t \<and> millis t < 1000000000"
proof -
  assume t: "clock_ok t"
  have "0 \<le> tv_sec t mod 1000000" "tv_sec t mod 1000000 < 1000000"
    by simp_all
  moreover have "0 \<le> tv_usec t div 1000" "tv_usec t div 1000 < 1000"
    using t by (auto simp: clock_ok_def)
  ultimately show ?thesis
    unfolding millis_eq [OF t] by linarith
qed

lemma uint_millis: "clock_ok t \<Longrightarrow> uint (word_of_int (millis t) :: u32) = millis t"
  using millis_range [of t] by (simp add: unsigned_of_int take_bit_int_eq_self)

text \<open>Four bytes read highest first reassemble a non-negative 32-bit value.\<close>

definition from_bytes :: "u8 \<Rightarrow> u8 \<Rightarrow> u8 \<Rightarrow> u8 \<Rightarrow> int" where
  "from_bytes b0 b1 b2 b3 = uint b0 + 256 * uint b1 + 65536 * uint b2 + 16777216 * uint b3"

lemma from_bytes_byte_of:
  assumes "0 \<le> x" "x < 2 ^ 32"
  shows "from_bytes (byte_of 0 x) (byte_of 1 x) (byte_of 2 x) (byte_of 3 x) = x"
proof -
  have b: "uint (byte_of k x) = x div 2 ^ (8 * k) mod 256" for k
    by (simp add: byte_of_def unsigned_of_int drop_bit_eq_div take_bit_eq_mod)
  have bytes: "uint (byte_of 0 x) = x mod 256" "uint (byte_of 1 x) = x div 256 mod 256"
    "uint (byte_of 2 x) = x div 65536 mod 256" "uint (byte_of 3 x) = x div 16777216 mod 256"
    by (simp_all add: b)
  have sum: "m0 + 256 * m1 + 65536 * m2 + 16777216 * c = x"
    if "x = 256 * a + m0" "a = 256 * b + m1" "b = 256 * c + m2" for a b c m0 m1 m2 :: int
    using that by simp
  have "x = 256 * (x div 256) + x mod 256"
    by simp
  moreover have "x div 256 = 256 * (x div 65536) + x div 256 mod 256"
    using zdiv_zmult2_eq [of 256 x 256] by simp
  moreover have "x div 65536 = 256 * (x div 16777216) + x div 65536 mod 256"
    using zdiv_zmult2_eq [of 256 x 65536] by simp
  ultimately have total: "x mod 256 + 256 * (x div 256 mod 256) + 65536 * (x div 65536 mod 256)
      + 16777216 * (x div 16777216) = x"
    by (rule sum)
  have top: "x div 16777216 mod 256 = x div 16777216"
    using assms by (intro mod_pos_pos_trivial) simp_all
  show ?thesis
    unfolding from_bytes_def bytes top by (rule total)
qed

section \<open>Latched counters\<close>

text \<open>Reading the clock highest byte first is consistent: the read of 0xFF23 latches one
  moment, and the seven other bytes of seconds and microseconds, however late they are read,
  belong to it.\<close>

theorem clock_latched:
  assumes "clock_ok (os_clock H (trace s))"
  shows "let (b3, s1) = time_mem_io_read H 0xFF23 s; rd = (\<lambda>a. fst (time_mem_io_read H a s1)) in
    from_bytes (rd 0xFF20) (rd 0xFF21) (rd 0xFF22) b3 = tv_usec (os_clock H (trace s)) \<and>
    from_bytes (rd 0xFF24) (rd 0xFF25) (rd 0xFF26) (rd 0xFF27) = tv_sec (os_clock H (trace s)) \<and>
    (\<forall>a \<in> {0xFF20, 0xFF21, 0xFF22, 0xFF24, 0xFF25, 0xFF26, 0xFF27}. snd (time_mem_io_read H a s1) = s1)"
  using assms from_bytes_byte_of [of "tv_usec (os_clock H (trace s))"]
    from_bytes_byte_of [of "tv_sec (os_clock H (trace s))"]
  by (simp add: time_mem_io_read_def gettimeofday_def Let_def clock_ok_def)

text \<open>The millisecond counter read at 0xFF2B, 0xFF2A, 0xFF29, 0xFF28 is the clock's
  milliseconds within a period of a million seconds.\<close>

theorem millisecond_counter:
  assumes "clock_ok (os_clock H (trace s))"
  shows "let (b3, s1) = time_mem_io_read H 0xFF2B s; rd = (\<lambda>a. fst (time_mem_io_read H a s1)) in
    from_bytes (rd 0xFF28) (rd 0xFF29) (rd 0xFF2A) b3 =
      (tv_sec (os_clock H (trace s)) mod 1000000) * 1000 + tv_usec (os_clock H (trace s)) div 1000"
  unfolding millis_eq [OF assms, symmetric]
  using millis_range [OF assms] from_bytes_byte_of [of "millis (os_clock H (trace s))"]
  by (simp add: time_mem_io_read_def gettimeofday_def Let_def uint_millis [OF assms])

section \<open>The deadline timer\<close>

text \<open>The two stores that start the timer, low byte of the delay first.\<close>

definition start_deadline :: "host \<Rightarrow> u16 \<Rightarrow> 'a timeunit_scheme \<Rightarrow> 'a timeunit_scheme" where
  "start_deadline H delay s =
     time_mem_io_write H 0xFF2D (hi8 delay) (time_mem_io_write H 0xFF2C (lo8 delay) s)"

lemma ucast_bytes: "(ucast (lo8 d) :: u32) OR push_bit 8 (ucast (hi8 d)) = ucast d"
  unfolding lo8_def hi8_def by (rule bit_word_eqI) (auto simp: bit_simps dest: bit_imp_le_length)

lemma deadline_start:
  "deadline (start_deadline H d s) = ucast d + word_of_int (millis (os_clock H (trace s)))"
  by (simp add: start_deadline_def time_mem_io_write_def gettimeofday_def Let_def ucast_bytes)

lemma uint_deadline:
  assumes "clock_ok (os_clock H (trace s))"
  shows "uint (deadline (start_deadline H d s)) = uint d + millis (os_clock H (trace s))"
proof -
  have "uint (ucast d :: u32) = uint d"
    using uint_u16_bound [of d] by (simp add: unsigned_ucast_eq take_bit_int_eq_self)
  then show ?thesis
    using millis_range [OF assms] uint_u16_bound [of d]
    by (simp add: deadline_start uint_word_ariths uint_millis [OF assms])
qed

text \<open>The timer reads 255 exactly while the millisecond counter is below its value at the
  start plus the delay: the comparison is exact, also where the sum lies beyond the end of the
  counter's period.\<close>

theorem deadline_reads:
  assumes "clock_ok (os_clock H (trace s))" "clock_ok (os_clock H (trace t))"
    and "deadline t = deadline (start_deadline H d s)"
  shows "fst (time_mem_io_read H 0xFF2C t) =
    (if millis (os_clock H (trace t)) < millis (os_clock H (trace s)) + uint d then 255 else 0)"
proof -
  have "fst (time_mem_io_read H 0xFF2C t) =
      (if (word_of_int (millis (os_clock H (trace t))) :: u32) < deadline t then 255 else 0)"
    by (simp add: time_mem_io_read_def gettimeofday_def Let_def)
  then show ?thesis
    by (simp only: word_less_alt uint_millis [OF assms(2)] assms(3) uint_deadline [OF assms(1)] add.commute)
qed

text \<open>The counter never reaches a deadline beyond the end of its period.\<close>

lemma deadline_never_passes:
  assumes "\<forall>tr. clock_ok (os_clock H tr)" "1000000000 \<le> millis (os_clock H (trace s)) + uint d"
    and "deadline t = deadline (start_deadline H d s)"
  shows "fst (time_mem_io_read H 0xFF2C t) = 255"
proof -
  have "fst (time_mem_io_read H 0xFF2C t) =
      (if (word_of_int (millis (os_clock H (trace t))) :: u32) < deadline t then 255 else 0)"
    by (simp add: time_mem_io_read_def gettimeofday_def Let_def)
  moreover have "millis (os_clock H (trace t)) < millis (os_clock H (trace s)) + uint d"
    using millis_range [of "os_clock H (trace t)"] assms(1,2) by fastforce
  ultimately show ?thesis
    using assms(1) by (simp add: word_less_alt uint_millis assms(3) uint_deadline add.commute)
qed

section \<open>Witnesses\<close>

definition noon_host :: host where
  "noon_host = null_host\<lparr>os_clock := (\<lambda>tr. \<lparr>tv_sec = 999999, tv_usec = 999000\<rparr>)\<rparr>"

definition small_timeunit :: timeunit where
  "small_timeunit = \<lparr>trace = [], errno = 0, mem = (\<lambda>k. 0), himem1_index = (\<lambda>g. 0), himem2_index = (\<lambda>g. 0),
     himem1_page = 0, himem2_page = 0, io_write_top_handler = (\<lambda>k. None), io_read_top_handler = (\<lambda>k. None),
     now = \<lparr>tv_sec = 0, tv_usec = 0\<rparr>, ms = \<lparr>tv_sec = 0, tv_usec = 0\<rparr>, time_ms = 0, deadline = 0\<rparr>"

lemma noon_clock [simp]: "os_clock noon_host tr = \<lparr>tv_sec = 999999, tv_usec = 999000\<rparr>"
  by (simp add: noon_host_def)

lemma noon_clock_ok: "clock_ok \<lparr>tv_sec = 999999, tv_usec = 999000\<rparr>"
  by (simp add: clock_ok_def)

lemma noon_millis: "millis \<lparr>tv_sec = 999999, tv_usec = 999000\<rparr> = 999999999"
  using millis_eq [OF noon_clock_ok] by simp

theorem clock_latched_witness:
  "let (b3, s1) = time_mem_io_read noon_host 0xFF23 small_timeunit;
       rd = (\<lambda>a. fst (time_mem_io_read noon_host a s1)) in
    from_bytes (rd 0xFF20) (rd 0xFF21) (rd 0xFF22) b3 = tv_usec (os_clock noon_host (trace small_timeunit)) \<and>
    from_bytes (rd 0xFF24) (rd 0xFF25) (rd 0xFF26) (rd 0xFF27) = tv_sec (os_clock noon_host (trace small_timeunit)) \<and>
    (\<forall>a \<in> {0xFF20, 0xFF21, 0xFF22, 0xFF24, 0xFF25, 0xFF26, 0xFF27}. snd (time_mem_io_read noon_host a s1) = s1)"
  by (rule clock_latched) (simp add: noon_clock_ok)

theorem millisecond_counter_witness:
  "let (b3, s1) = time_mem_io_read noon_host 0xFF2B small_timeunit;
       rd = (\<lambda>a. fst (time_mem_io_read noon_host a s1)) in
    from_bytes (rd 0xFF28) (rd 0xFF29) (rd 0xFF2A) b3 =
      (tv_sec (os_clock noon_host (trace small_timeunit)) mod 1000000) * 1000 +
       tv_usec (os_clock noon_host (trace small_timeunit)) div 1000"
  by (rule millisecond_counter) (simp add: noon_clock_ok)

theorem deadline_reads_witness:
  "fst (time_mem_io_read noon_host 0xFF2C (start_deadline noon_host 0 small_timeunit)) =
    (if millis (os_clock noon_host (trace (start_deadline noon_host 0 small_timeunit))) <
        millis (os_clock noon_host (trace small_timeunit)) + uint (0 :: u16) then 255 else 0)"
  by (rule deadline_reads) (simp_all add: noon_clock_ok)

end
