(* ===== verification/Framebuffer.thy ===== *)
theory Framebuffer
  imports TimeUnit
begin

text \<open>
  Drawing on the Linux frame buffer (\<^verbatim>\<open>src/src/fb.c\<close>, first half): the globals of the file,
  the bounds-checked view of the mapped screen memory, and the internal drawing primitives
  \<^verbatim>\<open>_cls\<close>, \<^verbatim>\<open>_block\<close>, \<^verbatim>\<open>_point\<close>, \<^verbatim>\<open>_pointRGB\<close>, \<^verbatim>\<open>_line\<close>, \<^verbatim>\<open>_pan\<close>. The
  code does not clip: a store outside the mapping is a value \<open>Undefined OutOfBounds\<close>.
\<close>

section \<open>State\<close>

definition palette :: "u16 list" where
  "palette = [
      0x0000, 0x7bcf, 0x0008, 0x73ca, 0x610c, 0x2b00, 0x5000, 0x3b8e, 0x2a0d, 0x0106, 0x39cf, 0x18c3,
      0x39c7, 0x33ca, 0x7a00, 0x5acb, 0x0000, 0x0841, 0x1082, 0x18c3, 0x2104, 0x2945, 0x3186, 0x39c7,
      0x4208, 0x4a49, 0x528a, 0x5acb, 0x630c, 0x6b4d, 0x738e, 0x7bcf, 0x0842, 0x18c4, 0x2106, 0x3188,
      0x420a, 0x4a4c, 0x5acf, 0x0842, 0x1084, 0x18c6, 0x2108, 0x294a, 0x318c, 0x39cf, 0x0002, 0x0844,
      0x0846, 0x1088, 0x108a, 0x18cc, 0x18cf, 0x0002, 0x0004, 0x0006, 0x0008, 0x000a, 0x000c, 0x000f,
      0x0882, 0x1904, 0x2186, 0x3208, 0x428a, 0x4b0c, 0x5b8f, 0x0842, 0x10c4, 0x1946, 0x21c8, 0x2a4a,
      0x32cc, 0x3b4f, 0x0042, 0x08c4, 0x0946, 0x1188, 0x120a, 0x1a8c, 0x1b0f, 0x0042, 0x00c4, 0x0106,
      0x0188, 0x020a, 0x024c, 0x02cf, 0x0881, 0x1903, 0x2185, 0x3207, 0x4289, 0x4b0b, 0x5bcd, 0x0881,
      0x1103, 0x1984, 0x2206, 0x2a88, 0x3309, 0x3bcb, 0x0081, 0x0902, 0x0984, 0x1205, 0x1286, 0x1b08,
      0x1bc9, 0x0081, 0x0102, 0x0183, 0x0204, 0x0285, 0x0306, 0x03c7, 0x0881, 0x1903, 0x2984, 0x3206,
      0x4288, 0x5309, 0x63cb, 0x0881, 0x1102, 0x2183, 0x2a04, 0x3285, 0x4306, 0x4bc7, 0x0080, 0x0901,
      0x1181, 0x1a02, 0x2282, 0x2b03, 0x33c3, 0x0080, 0x0900, 0x0980, 0x1200, 0x1280, 0x1b00, 0x1bc0,
      0x1081, 0x2103, 0x3184, 0x4206, 0x5288, 0x6309, 0x7bcb, 0x1081, 0x2102, 0x3183, 0x4204, 0x5285,
      0x6306, 0x7bc7, 0x1080, 0x2101, 0x3181, 0x4202, 0x5282, 0x6303, 0x7bc3, 0x1080, 0x2100, 0x3180,
      0x4200, 0x5280, 0x6300, 0x7bc0, 0x1041, 0x20c3, 0x3144, 0x4186, 0x5208, 0x6289, 0x7b0b, 0x1041,
      0x2082, 0x3103, 0x4144, 0x5185, 0x6206, 0x7a47, 0x1000, 0x2041, 0x3081, 0x40c2, 0x5102, 0x6143,
      0x7983, 0x1000, 0x2040, 0x3040, 0x4080, 0x5080, 0x60c0, 0x78c0, 0x1041, 0x20c3, 0x3105, 0x4187,
      0x5209, 0x624b, 0x7acd, 0x1041, 0x2083, 0x30c4, 0x4106, 0x5148, 0x6189, 0x79cb, 0x1001, 0x2042,
      0x3044, 0x4085, 0x5086, 0x60c8, 0x78c9, 0x1001, 0x2002, 0x3003, 0x4004, 0x5005, 0x6006, 0x7807,
      0x1042, 0x20c4, 0x3106, 0x4188, 0x520a, 0x624c, 0x72cf, 0x0842, 0x1884, 0x28c6, 0x3908, 0x494a,
      0x598c, 0x69cf, 0x0802, 0x1844, 0x2846, 0x3088, 0x408a, 0x50cc, 0x60cf, 0x0802, 0x1804, 0x2006,
      0x3008, 0x400a, 0x480c]"

lemma length_palette [simp]: "length palette = 255"
  by (simp add: palette_def)

text \<open>
  The pointer \<^verbatim>\<open>fbbuffer\<close>: NULL, \<^verbatim>\<open>MAP_FAILED\<close>, a mapping of \<open>fbbuflen\<close> bytes, or the
  address of a mapping that \<^verbatim>\<open>munmap\<close> has removed.
\<close>

datatype fbptr = Null | Map_failed | Mapped | Unmapped

record framebuffer = timeunit +
  screen_info :: vscreen
  line_length :: u32
  fbfd :: int
  fbbuffer :: fbptr
  fbbuflen :: u32
  fbmem :: "nat \<Rightarrow> u8"
  stencil_buf :: bool
  brush_color :: u8
  background_color :: u8
  p_cursor_base_x :: u16
  p_cursor_base_y :: u16
  p_cursor_x :: u16
  p_cursor_y :: u16

section \<open>Access to the mapping\<close>

text \<open>What an access to \<open>n\<close> bytes at offset \<open>k\<close> of \<^verbatim>\<open>fbbuffer\<close> is, under C.\<close>

definition fb_access :: "nat \<Rightarrow> nat \<Rightarrow> 'a framebuffer_scheme \<Rightarrow> unit run" where
  "fb_access k n s =
     (case fbbuffer s of
        Null \<Rightarrow> Inl (Undefined NullPointer)
      | Map_failed \<Rightarrow> Inl (Undefined BadPointer)
      | Unmapped \<Rightarrow> Inl (Undefined BadPointer)
      | Mapped \<Rightarrow> if k + n \<le> unat (fbbuflen s) then Inr () else Inl (Undefined OutOfBounds))"

definition fb_store16 :: "nat \<Rightarrow> u16 \<Rightarrow> 'a framebuffer_scheme \<Rightarrow> 'a framebuffer_scheme run" where
  "fb_store16 k w s =
     bindR (fb_access k 2 s) (\<lambda>_. Inr (s\<lparr>fbmem := (fbmem s)(k := lo8 w, Suc k := hi8 w)\<rparr>))"

definition fb_memmove ::
  "nat \<Rightarrow> nat \<Rightarrow> nat \<Rightarrow> 'a framebuffer_scheme \<Rightarrow> 'a framebuffer_scheme run" where
  "fb_memmove dst src n s =
     bindR (fb_access src n s) (\<lambda>_. bindR (fb_access dst n s) (\<lambda>_.
       Inr (s\<lparr>fbmem := (\<lambda>k. if dst \<le> k \<and> k < dst + n then fbmem s (k - dst + src)
                              else fbmem s k)\<rparr>)))"

definition palette_at :: "u8 \<Rightarrow> u16 run" where
  "palette_at col =
     (if unat col < length palette then Inr (palette ! unat col) else Inl (Undefined OutOfBounds))"

text \<open>\<^verbatim>\<open>x*screen_info.bits_per_pixel/8 + y*fixed_info.line_length\<close>, in \<^verbatim>\<open>uint32_t\<close>.\<close>

definition location :: "'a framebuffer_scheme \<Rightarrow> u16 \<Rightarrow> u16 \<Rightarrow> u32" where
  "location s x y =
     (ucast x * bits_per_pixel (screen_info s)) div 8 + ucast y * line_length s"

section \<open>Primitives\<close>

definition prim_cls :: "'a framebuffer_scheme \<Rightarrow> (u8 \<times> 'a framebuffer_scheme) run" where
  "prim_cls s =
     (if fbbuflen s = 0 then Inr (0, s)
      else bindR (fb_access 0 (unat (fbbuflen s)) s)
        (\<lambda>_. Inr (0, s\<lparr>fbmem := (\<lambda>k. if k < unat (fbbuflen s) then 0 else fbmem s k)\<rparr>)))"

definition prim_point ::
  "u16 \<Rightarrow> u16 \<Rightarrow> u8 \<Rightarrow> 'a framebuffer_scheme \<Rightarrow> 'a framebuffer_scheme run" where
  "prim_point x y col s =
     bindR (palette_at col) (\<lambda>pixel. fb_store16 (unat (location s x y)) pixel s)"

definition prim_pointRGB ::
  "u16 \<Rightarrow> u16 \<Rightarrow> u8 \<Rightarrow> u8 \<Rightarrow> u8 \<Rightarrow> 'a framebuffer_scheme \<Rightarrow> 'a framebuffer_scheme run" where
  "prim_pointRGB x y r g b s =
     (let pixel = push_bit (red_offset (screen_info s)) (ucast r)
                  OR push_bit (green_offset (screen_info s)) (ucast g)
                  OR push_bit (blue_offset (screen_info s)) (ucast b)
      in fb_store16 (unat (location s x y)) pixel s)"

text \<open>\<^verbatim>\<open>_block\<close>: the inner loop stores one row, \<^verbatim>\<open>*px++ = pixel\<close>, the outer one the rows.\<close>

function block_row ::
  "u16 \<Rightarrow> u16 \<Rightarrow> nat \<Rightarrow> u16 \<Rightarrow> 'a framebuffer_scheme \<Rightarrow> 'a framebuffer_scheme run" where
  "block_row tmp x2 px pixel s =
     (if tmp < x2 then bindR (fb_store16 px pixel s) (\<lambda>s'. block_row (tmp + 1) x2 (px + 2) pixel s')
      else Inr s)"
  by pat_completeness auto
termination
  by (relation "measure (\<lambda>(tmp, x2, _). unat x2 - unat tmp)")
    (auto simp: unat_plus1 word_less_nat_alt intro!: diff_less_mono2)

declare block_row.simps [simp del]

function block_rows ::
  "u16 \<Rightarrow> u16 \<Rightarrow> u16 \<Rightarrow> u16 \<Rightarrow> u16 \<Rightarrow> 'a framebuffer_scheme \<Rightarrow> 'a framebuffer_scheme run" where
  "block_rows x y x2 y2 pixel s =
     (if y < y2 then
        bindR (block_row x x2 (unat (location s x y)) pixel s)
          (\<lambda>s'. block_rows x (y + 1) x2 y2 pixel s')
      else Inr s)"
  by pat_completeness auto
termination
  by (relation "measure (\<lambda>(x, y, x2, y2, _). unat y2 - unat y)")
    (auto simp: unat_plus1 word_less_nat_alt intro!: diff_less_mono2)

declare block_rows.simps [simp del]

definition prim_block ::
  "u16 \<Rightarrow> u16 \<Rightarrow> u16 \<Rightarrow> u16 \<Rightarrow> u8 \<Rightarrow> 'a framebuffer_scheme \<Rightarrow> 'a framebuffer_scheme run" where
  "prim_block x y x2 y2 col s =
     (if x = x2 \<or> y = y2 then Inr s
      else let (x, x2) = (if x2 < x then (x2, x) else (x, x2));
               (y, y2) = (if y2 < y then (y2, y) else (y, y2))
           in bindR (palette_at col) (\<lambda>pixel. block_rows x y x2 y2 pixel s))"

text \<open>
  \<^verbatim>\<open>_line\<close>: a fixed-point walk along the longer axis. \<open>int32\<close> is what the 32-bit
  \<^verbatim>\<open>int\<close> variables hold; the two loops of the source differ only in which axis \<open>i\<close> is.
\<close>

definition line_pixel :: "bool \<Rightarrow> int \<Rightarrow> int \<Rightarrow> int \<Rightarrow> int \<Rightarrow> int \<times> int" where
  "line_pixel yLonger x y i j =
     (if yLonger then (x + drop_bit 16 j, y + i) else (x + i, y + drop_bit 16 j))"

partial_function (option) line_loop ::
  "bool \<Rightarrow> int \<Rightarrow> int \<Rightarrow> int \<Rightarrow> int \<Rightarrow> u8 \<Rightarrow> int \<Rightarrow> int \<Rightarrow> int \<Rightarrow> 'a framebuffer_scheme \<Rightarrow>
     'a framebuffer_scheme run option" where
  "line_loop yLonger endVal incrementVal decInc x col y i j s =
     (if i = endVal then Some (Inr s)
      else case prim_point (word_of_int (fst (line_pixel yLonger x y i j)))
                  (word_of_int (snd (line_pixel yLonger x y i j))) col s of
             Inl e \<Rightarrow> Some (Inl e)
           | Inr s' \<Rightarrow> line_loop yLonger endVal incrementVal decInc x col y
                         (i + incrementVal) (int32 (j + decInc)) s')"

definition prim_line ::
  "int \<Rightarrow> int \<Rightarrow> int \<Rightarrow> int \<Rightarrow> u8 \<Rightarrow> 'a framebuffer_scheme \<Rightarrow> 'a framebuffer_scheme run" where
  "prim_line x y x2 y2 col s =
     (let shortLen = y2 - y; longLen = x2 - x;
          yLonger = (\<bar>longLen\<bar> < \<bar>shortLen\<bar>);
          (shortLen, longLen) = (if yLonger then (longLen, shortLen) else (shortLen, longLen));
          endVal = longLen;
          incrementVal = (if longLen < 0 then -1 else 1);
          longLen = (if longLen < 0 then - longLen else longLen);
          decInc = (if longLen = 0 then 0 else int32 (shortLen * 65536) sdiv longLen)
      in loop_result (line_loop yLonger endVal incrementVal decInc x col y 0 0 s))"

text \<open>\<^verbatim>\<open>_pan\<close>: shift the screen by one pixel and draw the border in the background colour.\<close>

definition prim_pan :: "u8 \<Rightarrow> 'a framebuffer_scheme \<Rightarrow> 'a framebuffer_scheme run" where
  "prim_pan direction s =
     (let w = xres (screen_info s); h = yres (screen_info s); len = line_length s;
          bg = background_color s
      in if direction = 0x01 then
           bindR (fb_memmove 2 0 (unat (h * len - 2)) s)
             (prim_line 0 0 0 (sint (h - 1)) bg)
         else if direction = 0x09 then
           bindR (fb_memmove 0 2 (unat (h * len - 0)) s)
             (prim_line (sint (w - 1)) 0 (sint (w - 1)) (sint (h - 1)) bg)
         else if direction = 0x10 then
           bindR (fb_memmove (unat len) 0 (unat ((h - 1) * len)) s)
             (prim_line 0 0 (sint (w - 1)) 0 bg)
         else if direction = 0x90 then
           bindR (fb_memmove 0 (unat len) (unat ((h - 1) * len)) s)
             (prim_line 0 (sint (h - 1)) (sint (w - 1)) (sint (h - 1)) bg)
         else Inr s)"

text \<open>
  The loop of \<^verbatim>\<open>fb_circle\<close>, on \<^verbatim>\<open>int16_t\<close> variables: the eight mirror images of
  \<open>(xpos, ypos)\<close> are plotted, then the error term decides whether \<open>xpos\<close> steps.
\<close>

definition circle_octants ::
  "u16 \<Rightarrow> u16 \<Rightarrow> u8 \<Rightarrow> int \<Rightarrow> int \<Rightarrow> 'a framebuffer_scheme \<Rightarrow> 'a framebuffer_scheme run" where
  "circle_octants x y col xpos ypos s =
     (let dx = word_of_int xpos; dy = word_of_int ypos in
      bindR (prim_point (x + dx) (y + dy) col s) (\<lambda>s.
      bindR (prim_point (x - dx) (y + dy) col s) (\<lambda>s.
      bindR (prim_point (x + dx) (y - dy) col s) (\<lambda>s.
      bindR (prim_point (x - dx) (y - dy) col s) (\<lambda>s.
      bindR (prim_point (x + dy) (y + dx) col s) (\<lambda>s.
      bindR (prim_point (x - dy) (y + dx) col s) (\<lambda>s.
      bindR (prim_point (x + dy) (y - dx) col s) (\<lambda>s.
      prim_point (x - dy) (y - dx) col s))))))))"

partial_function (option) circle_loop ::
  "u16 \<Rightarrow> u16 \<Rightarrow> u8 \<Rightarrow> int \<Rightarrow> int \<Rightarrow> int \<Rightarrow> 'a framebuffer_scheme \<Rightarrow>
     'a framebuffer_scheme run option" where
  "circle_loop x y col xpos ypos t1 s =
     (if ypos \<le> xpos then
        (case circle_octants x y col xpos ypos s of
           Inl e \<Rightarrow> Some (Inl e)
         | Inr s' \<Rightarrow>
            (let ypos' = int16 (ypos + 1);
                 t1' = int16 (t1 + ypos');
                 t2 = int16 (t1' - xpos)
             in if 0 \<le> t2 then circle_loop x y col (int16 (xpos - 1)) ypos' t2 s'
                else circle_loop x y col xpos ypos' t1' s'))
      else Some (Inr s))"

definition prim_circle ::
  "u16 \<Rightarrow> u16 \<Rightarrow> u16 \<Rightarrow> u8 \<Rightarrow> 'a framebuffer_scheme \<Rightarrow> 'a framebuffer_scheme run" where
  "prim_circle x y radius col s =
     loop_result (circle_loop x y col (sint radius) 0 (uint (drop_bit 4 radius)) s)"

end
