(* ===== verification/Canvas.thy ===== *)
theory Canvas
  imports Framebuffer
begin

text \<open>
  The screen as a map from coordinates to 16-bit pixels. The interface \<open>canvas\<close> says what
  plotting one point promises; from it the effect of plotting any list of points follows, and
  the primitives of \<^theory_text>\<open>Framebuffer\<close> are shown to plot lists of points.
\<close>

section \<open>Plotting lists of points\<close>

fun plots :: "('p \<Rightarrow> 's \<Rightarrow> 's run) \<Rightarrow> 'p list \<Rightarrow> 's \<Rightarrow> 's run" where
  "plots plot [] s = Inr s"
| "plots plot (p # ps) s = bindR (plot p s) (plots plot ps)"

lemma plots_append: "plots plot (ps @ qs) s = bindR (plots plot ps s) (plots plot qs)"
  by (induction ps arbitrary: s) (simp_all add: bindR_def split: sum.split)

locale canvas =
  fixes plot :: "'p \<Rightarrow> 's \<Rightarrow> 's run"
    and pixel :: "'s \<Rightarrow> 'p \<Rightarrow> 'c"
    and colour :: 'c
    and on :: "'s \<Rightarrow> 'p \<Rightarrow> bool"
    and frame :: "'s \<Rightarrow> 'f"
  assumes plot_on: "on s p \<Longrightarrow>
    returns (\<lambda>s'. frame s' = frame s \<and> (\<forall>q. on s' q = on s q) \<and>
      (\<forall>q. on s q \<longrightarrow> pixel s' q = (if q = p then colour else pixel s q))) (plot p s)"
begin

lemma plots_on:
  "\<forall>p \<in> set ps. on s p \<Longrightarrow>
    returns (\<lambda>s'. frame s' = frame s \<and> (\<forall>q. on s' q = on s q) \<and>
      (\<forall>q. on s q \<longrightarrow> pixel s' q = (if q \<in> set ps then colour else pixel s q))) (plots plot ps s)"
proof (induction ps arbitrary: s)
  case Nil
  then show ?case by simp
next
  case (Cons p ps)
  then have "on s p" by simp
  from returns_Inr [OF plot_on [OF this]] obtain s1 where
    s1: "plot p s = Inr s1" "frame s1 = frame s" "\<forall>q. on s1 q = on s q"
      "\<forall>q. on s q \<longrightarrow> pixel s1 q = (if q = p then colour else pixel s q)"
    by blast
  have "\<forall>p \<in> set ps. on s1 p"
    using Cons.prems s1(3) by simp
  from returns_Inr [OF Cons.IH [OF this]] obtain s2 where
    "plots plot ps s1 = Inr s2" "frame s2 = frame s1" "\<forall>q. on s2 q = on s1 q"
      "\<forall>q. on s1 q \<longrightarrow> pixel s2 q = (if q \<in> set ps then colour else pixel s1 q)"
    by blast
  with s1 show ?case by simp
qed

end

section \<open>The 16-bit screen\<close>

text \<open>
  A mode the drawing code is written for: 16 bits per pixel, a mapping of the whole virtual
  screen, lines that hold a row of pixels, and a mapping size that fits \<^verbatim>\<open>size_t\<close>.
\<close>

definition fb_ok :: "'a framebuffer_scheme \<Rightarrow> bool" where
  "fb_ok s \<longleftrightarrow> fbbuffer s = Mapped \<and> bits_per_pixel (screen_info s) = 16 \<and>
     2 * unat (xres (screen_info s)) \<le> unat (line_length s) \<and>
     unat (yres (screen_info s)) \<le> unat (yres_virtual (screen_info s)) \<and>
     unat (yres_virtual (screen_info s)) * unat (line_length s) < 2 ^ 32 \<and>
     fbbuflen s = yres_virtual (screen_info s) * line_length s \<and>
     unat (xres (screen_info s)) \<le> 32768 \<and> unat (yres (screen_info s)) \<le> 32768"

definition on_screen :: "'a framebuffer_scheme \<Rightarrow> int \<times> int \<Rightarrow> bool" where
  "on_screen s p \<longleftrightarrow> 0 \<le> fst p \<and> fst p < uint (xres (screen_info s)) \<and>
     0 \<le> snd p \<and> snd p < uint (yres (screen_info s))"

definition offset :: "'a framebuffer_scheme \<Rightarrow> int \<times> int \<Rightarrow> nat" where
  "offset s p = 2 * nat (fst p) + nat (snd p) * unat (line_length s)"

definition pixel :: "'a framebuffer_scheme \<Rightarrow> int \<times> int \<Rightarrow> u16" where
  "pixel s p = u16_of (fbmem s (offset s p)) (fbmem s (Suc (offset s p)))"

definition plot :: "u8 \<Rightarrow> int \<times> int \<Rightarrow> 'a framebuffer_scheme \<Rightarrow> 'a framebuffer_scheme run" where
  "plot col p s = prim_point (word_of_int (fst p)) (word_of_int (snd p)) col s"

text \<open>All of the state but the content of the mapping.\<close>

definition fb_frame :: "'a framebuffer_scheme \<Rightarrow> 'a framebuffer_scheme" where
  "fb_frame s = s\<lparr>fbmem := (\<lambda>k. 0)\<rparr>"

lemma fb_frame_fields:
  assumes "fb_frame s' = fb_frame s"
  shows "screen_info s' = screen_info s" "line_length s' = line_length s"
    "fbbuffer s' = fbbuffer s" "fbbuflen s' = fbbuflen s" "mem s' = mem s"
    "himem1_index s' = himem1_index s" "himem2_index s' = himem2_index s"
proof -
  have "screen_info (fb_frame s') = screen_info (fb_frame s)"
    "line_length (fb_frame s') = line_length (fb_frame s)"
    "fbbuffer (fb_frame s') = fbbuffer (fb_frame s)"
    "fbbuflen (fb_frame s') = fbbuflen (fb_frame s)" "mem (fb_frame s') = mem (fb_frame s)"
    "himem1_index (fb_frame s') = himem1_index (fb_frame s)"
    "himem2_index (fb_frame s') = himem2_index (fb_frame s)"
    using assms by simp_all
  then show "screen_info s' = screen_info s" "line_length s' = line_length s"
    "fbbuffer s' = fbbuffer s" "fbbuflen s' = fbbuflen s" "mem s' = mem s"
    "himem1_index s' = himem1_index s" "himem2_index s' = himem2_index s"
    by (simp_all add: fb_frame_def)
qed

lemma fb_frame_fbmem [simp]: "fb_frame (s\<lparr>fbmem := f\<rparr>) = fb_frame s"
  by (simp add: fb_frame_def)

lemma on_screen_fbmem [simp]: "on_screen (s\<lparr>fbmem := f\<rparr>) p = on_screen s p"
  by (simp add: on_screen_def)

lemma fb_ok_fbmem [simp]: "fb_ok (s\<lparr>fbmem := f\<rparr>) = fb_ok s"
  by (simp add: fb_ok_def)

lemma offset_fbmem [simp]: "offset (s\<lparr>fbmem := f\<rparr>) p = offset s p"
  by (simp add: offset_def)

lemma fbbuflen_nat:
  "fb_ok s \<Longrightarrow> unat (fbbuflen s) = unat (yres_virtual (screen_info s)) * unat (line_length s)"
  by (simp add: fb_ok_def unat_word_ariths)

lemma on_screen_nat:
  "on_screen s p \<Longrightarrow> nat (fst p) < unat (xres (screen_info s)) \<and> nat (snd p) < unat (yres (screen_info s))"
  unfolding on_screen_def by (blast intro: nat_less_unat)

lemma fb_okD:
  assumes "fb_ok s"
  shows "2 * unat (xres (screen_info s)) \<le> unat (line_length s)"
    "unat (yres (screen_info s)) \<le> unat (yres_virtual (screen_info s))"
    "unat (xres (screen_info s)) \<le> 32768" "unat (yres (screen_info s)) \<le> 32768"
  using assms by (simp_all add: fb_ok_def)

lemma on_screen_row: "fb_ok s \<Longrightarrow> on_screen s p \<Longrightarrow> 2 * nat (fst p) + 2 \<le> unat (line_length s)"
  using on_screen_nat [of s p] fb_okD(1) [of s] by linarith

lemma offset_right: "0 \<le> a \<Longrightarrow> offset s (a + 1, y) = offset s (a, y) + 2"
  by (simp add: offset_def nat_add_distrib)

text \<open>On-screen pixels lie inside the mapping and do not overlap.\<close>

lemma offset_bound:
  assumes ok: "fb_ok s" and on: "on_screen s p"
  shows "offset s p + 2 \<le> unat (fbbuflen s)"
proof -
  let ?len = "unat (line_length s)"
  have x: "2 * nat (fst p) + 2 \<le> ?len"
    by (rule on_screen_row [OF ok on])
  have "Suc (nat (snd p)) \<le> unat (yres_virtual (screen_info s))"
    using fb_okD(2) [OF ok] on_screen_nat [OF on] by linarith
  then have "Suc (nat (snd p)) * ?len \<le> unat (yres_virtual (screen_info s)) * ?len"
    by (rule mult_le_mono1)
  with x show ?thesis
    unfolding fbbuflen_nat [OF ok] offset_def by simp
qed

lemma offset_apart:
  assumes ok: "fb_ok s" and on: "on_screen s p" "on_screen s q" and "p \<noteq> q"
  shows "offset s p + 2 \<le> offset s q \<or> offset s q + 2 \<le> offset s p"
proof -
  let ?len = "unat (line_length s)"
  note x = on_screen_row [OF ok]
  have rows: "2 * a + 2 \<le> ?len \<Longrightarrow> i < j \<Longrightarrow> 2 * a + i * ?len + 2 \<le> 2 * b + j * ?len" for a b i j
    using mult_le_mono1 [of "Suc i" j ?len] by simp
  show ?thesis
  proof (cases "nat (snd p) = nat (snd q)")
    case True
    with assms(2-4) have "nat (fst p) \<noteq> nat (fst q)"
      by (auto simp: on_screen_def prod_eq_iff)
    with True show ?thesis by (simp add: offset_def) linarith
  next
    case False
    then show ?thesis
      using rows [OF x [OF on(1)]] rows [OF x [OF on(2)]]
      by (simp add: offset_def) (metis nat_neq_iff)
  qed
qed

lemma location_offset:
  assumes ok: "fb_ok s" and on: "on_screen s p"
  shows "unat (location s (word_of_int (fst p)) (word_of_int (snd p))) = offset s p"
proof -
  let ?x = "word_of_int (fst p) :: u16" and ?y = "word_of_int (snd p) :: u16"
  have sizes: "nat (fst p) < 32768" "nat (snd p) < 32768"
    using fb_okD(3,4) [OF ok] on_screen_nat [OF on] by linarith+
  have x: "unat ?x = nat (fst p)" and y: "unat ?y = nat (snd p)"
    using on sizes by (auto simp: on_screen_def intro!: unat_of_int)
  have "unat (ucast ?x * bits_per_pixel (screen_info s) :: u32) = 16 * nat (fst p)"
    using ok sizes by (simp add: fb_ok_def unat_word_ariths unsigned_ucast_eq take_bit_nat_eq_self x)
  then have xs: "unat ((ucast ?x * bits_per_pixel (screen_info s)) div 8 :: u32) = 2 * nat (fst p)"
    by (simp add: unat_div)
  have bound: "2 * nat (fst p) + nat (snd p) * unat (line_length s) < 2 ^ 32"
    using offset_bound [OF ok on] unsigned_less [of "fbbuflen s", where ?'a = nat]
    by (simp add: offset_def)
  moreover have "take_bit 32 (nat (snd p)) = nat (snd p)"
    using sizes by (simp add: take_bit_nat_eq_self)
  ultimately have "unat (ucast ?y * line_length s :: u32) = nat (snd p) * unat (line_length s)"
    by (simp add: unat_word_ariths unsigned_ucast_eq y)
  with xs bound show ?thesis
    by (simp add: location_def offset_def unat_word_ariths)
qed

section \<open>Plotting on the screen\<close>

lemma palette_at_Inr [simp]: "unat col < 255 \<Longrightarrow> palette_at col = Inr (palette ! unat col)"
  by (simp add: palette_at_def)

lemma plot_on_screen:
  assumes ok: "fb_ok s" and on: "on_screen s p" and col: "unat col < 255"
  shows "plot col p s = Inr (s\<lparr>fbmem := (fbmem s)(offset s p := lo8 (palette ! unat col),
     Suc (offset s p) := hi8 (palette ! unat col))\<rparr>)"
  using ok offset_bound [OF ok on] location_offset [OF ok on] col
  by (simp add: plot_def prim_point_def fb_store16_def fb_access_def fb_ok_def)

lemma pixel_store:
  assumes ok: "fb_ok s" and on: "on_screen s p" "on_screen s q"
  shows "pixel (s\<lparr>fbmem := (fbmem s)(offset s p := lo8 w, Suc (offset s p) := hi8 w)\<rparr>) q =
     (if q = p then w else pixel s q)"
  using offset_apart [OF ok on] by (auto simp: pixel_def)

interpretation screen: canvas "plot col" pixel "palette ! unat col"
  "\<lambda>s p. fb_ok s \<and> on_screen s p \<and> unat col < 255" fb_frame
  for col :: u8
  by unfold_locales (auto simp: plot_on_screen pixel_store)

lemma plots_screen:
  assumes "fb_ok s" "\<forall>p \<in> set ps. on_screen s p" "unat col < 255"
  obtains s' where "plots (plot col) ps s = Inr s'" "fb_frame s' = fb_frame s" "fb_ok s'"
    "\<And>q. on_screen s' q = on_screen s q"
    "\<And>q. on_screen s q \<Longrightarrow> pixel s' q = (if q \<in> set ps then palette ! unat col else pixel s q)"
proof -
  have "\<forall>p \<in> set ps. fb_ok s \<and> on_screen s p \<and> unat col < 255"
    using assms by simp
  from returns_Inr [OF screen.plots_on [OF this]] obtain s' where
    s': "plots (plot col) ps s = Inr s'" and fr: "fb_frame s' = fb_frame s"
      and px: "\<forall>q. fb_ok s \<and> on_screen s q \<and> unat col < 255 \<longrightarrow>
        pixel s' q = (if q \<in> set ps then palette ! unat col else pixel s q)"
    by blast
  have "fb_ok s'" "on_screen s' q = on_screen s q" for q
    using assms(1) fb_frame_fields [OF fr] by (simp_all add: fb_ok_def on_screen_def)
  moreover from px assms
  have "pixel s' q = (if q \<in> set ps then palette ! unat col else pixel s q)" if "on_screen s q" for q
    using that by blast
  ultimately show thesis
    using s' fr by (intro that [of s'])
qed

section \<open>A small screen\<close>

text \<open>A state for the witnesses: a black screen of 64 by 48 pixels, all of memory zero.\<close>

definition small_screen :: framebuffer where
  "small_screen = \<lparr>trace = [], errno = 0, mem = (\<lambda>k. 0),
     himem1_index = (\<lambda>g. uint g * 0x2000 - 0xA000), himem2_index = (\<lambda>g. uint g * 0x4000 - 0xC000),
     himem1_page = 0, himem2_page = 0, io_write_top_handler = (\<lambda>k. None),
     io_read_top_handler = (\<lambda>k. None), now = \<lparr>tv_sec = 0, tv_usec = 0\<rparr>,
     ms = \<lparr>tv_sec = 0, tv_usec = 0\<rparr>, time_ms = 0, deadline = 0,
     screen_info = os_vscreen null_host [], line_length = 128, fbfd = 3, fbbuffer = Mapped,
     fbbuflen = 6144, fbmem = (\<lambda>k. 0), stencil_buf = False, brush_color = 1,
     background_color = 0, p_cursor_base_x = 0, p_cursor_base_y = 0, p_cursor_x = 0,
     p_cursor_y = 0\<rparr>"

lemma small_screen_ok [simp]: "fb_ok small_screen"
  by (simp add: fb_ok_def small_screen_def null_host_def)

lemma small_screen_on [simp]:
  "on_screen small_screen (x, y) \<longleftrightarrow> 0 \<le> x \<and> x < 64 \<and> 0 \<le> y \<and> y < 48"
  by (auto simp: on_screen_def small_screen_def null_host_def)

lemma small_screen_indexed [simp]: "indexed small_screen"
  by (simp add: indexed_def small_screen_def)

lemma small_screen_size [simp]:
  "xres (screen_info small_screen) = 64" "yres (screen_info small_screen) = 48"
  "yres_virtual (screen_info small_screen) = 48" "background_color small_screen = 0"
  by (simp_all add: small_screen_def null_host_def)

end
