(* ===== verification/Lines.thy ===== *)
theory Lines
  imports Canvas
begin

text \<open>
  What \<^verbatim>\<open>_line\<close> puts on the screen: its loop as a list of plotted points, their number, the
  rectangle they stay in and their distance from the ideal line.
\<close>

section \<open>Lines\<close>

definition line_points :: "int \<Rightarrow> int \<Rightarrow> int \<Rightarrow> int \<Rightarrow> (int \<times> int) list" where
  "line_points x y x2 y2 =
     (let dx = x2 - x; dy = y2 - y; yLonger = (\<bar>dx\<bar> < \<bar>dy\<bar>);
          short = (if yLonger then dx else dy); long = (if yLonger then dy else dx);
          inc = (if long < 0 then -1 else 1);
          dec = (if long = 0 then 0 else (short * 65536) sdiv \<bar>long\<bar>)
      in map (\<lambda>m. line_pixel yLonger x y (inc * int m) (dec * int m)) [0..<nat \<bar>long\<bar>])"

lemma line_loop_plots:
  fixes s :: "'a framebuffer_scheme"
  assumes inc: "inc = 1 \<or> inc = -1"
  shows "endVal = i + inc * int n \<Longrightarrow> \<forall>m \<le> n. int32 (j + dec * int m) = j + dec * int m \<Longrightarrow>
    line_loop yL endVal inc dec x col y i j s =
      Some (plots (plot col)
        (map (\<lambda>m. line_pixel yL x y (i + inc * int m) (j + dec * int m)) [0..<n]) s)"
proof (induction n arbitrary: i j s)
  case 0
  then show ?case by (simp add: line_loop.simps)
next
  case (Suc n)
  let ?f = "\<lambda>m. line_pixel yL x y (i + inc * int m) (j + dec * int m)"
  let ?g = "\<lambda>m. line_pixel yL x y (i + inc + inc * int m) (j + dec + dec * int m)"
  have neq: "i \<noteq> endVal"
    using Suc.prems(1) inc by auto
  have pts: "map ?f [0..<Suc n] = line_pixel yL x y i j # map ?g [0..<n]"
    by (simp add: upt_conv_Cons map_Suc_upt [symmetric] algebra_simps del: upt_Suc)
  have "endVal = (i + inc) + inc * int n"
    using Suc.prems(1) by (simp add: algebra_simps)
  moreover have "\<forall>m \<le> n. int32 (j + dec + dec * int m) = j + dec + dec * int m"
  proof (intro allI impI)
    fix m assume "m \<le> n"
    then show "int32 (j + dec + dec * int m) = j + dec + dec * int m"
      using Suc.prems(2) [rule_format, of "Suc m"] by (simp add: algebra_simps)
  qed
  ultimately have IH: "line_loop yL endVal inc dec x col y (i + inc) (j + dec) t =
      Some (plots (plot col) (map ?g [0..<n]) t)"
    for t :: "'a framebuffer_scheme"
    by (rule Suc.IH [of "i + inc" "j + dec"])
  have j: "int32 (j + dec) = j + dec"
    using Suc.prems(2) [rule_format, of 1] by simp
  show ?case
    unfolding pts line_loop.simps [of yL endVal inc dec x col y i j s]
    by (simp add: neq j IH plot_def [symmetric] split: sum.split)
qed

text \<open>The fixed-point slope, rounded towards zero, never overshoots the shorter side.\<close>

lemma slope_bounds:
  fixes short L m :: int
  assumes "0 < L" "0 \<le> m" "m \<le> L"
  defines "dec \<equiv> (short * 65536) sdiv L"
  shows "min 0 (short * 65536) \<le> dec * m \<and> dec * m \<le> max 0 (short * 65536)"
proof (cases "0 \<le> short")
  case True
  have "dec = short * 65536 div L"
    unfolding dec_def using True assms(1) by (intro sdiv_nonneg) simp_all
  moreover have "short * 65536 div L * m \<le> short * 65536 div L * L"
    using True assms by (intro mult_left_mono) (simp_all add: pos_imp_zdiv_nonneg_iff)
  moreover have "short * 65536 div L * L \<le> short * 65536"
    using assms(1) by (metis minus_mod_eq_div_mult diff_ge_0_iff_ge le_add_same_cancel1
        diff_add_cancel pos_mod_sign)
  moreover have "0 \<le> short * 65536 div L * m"
    using True assms by (simp add: pos_imp_zdiv_nonneg_iff)
  ultimately show ?thesis by simp
next
  case False
  let ?e = "(- short * 65536) div L"
  have "dec = - ?e"
    using False assms(1) by (simp add: dec_def signed_divide_int_def sgn_if)
  moreover have "?e * m \<le> ?e * L"
    using False assms by (intro mult_left_mono) (simp_all add: pos_imp_zdiv_nonneg_iff)
  moreover have "?e * L \<le> - short * 65536"
    using assms(1) by (metis minus_mod_eq_div_mult diff_ge_0_iff_ge le_add_same_cancel1
        diff_add_cancel pos_mod_sign)
  moreover have "0 \<le> ?e * m"
    using False assms by (simp add: pos_imp_zdiv_nonneg_iff)
  ultimately show ?thesis using False by simp
qed

lemma drop16_div: "drop_bit 16 (j :: int) = j div 65536"
  by (simp add: drop_bit_eq_div)

lemma minor_bounds:
  fixes short L m :: int
  assumes "0 < L" "0 \<le> m" "m \<le> L"
  defines "d \<equiv> drop_bit 16 ((short * 65536) sdiv L * m)"
  shows "min 0 short \<le> d \<and> d \<le> max 0 short"
proof -
  let ?j = "(short * 65536) sdiv L * m"
  have "min 0 (short * 65536) div 65536 \<le> ?j div 65536 \<and> ?j div 65536 \<le> max 0 (short * 65536) div 65536"
    using slope_bounds [OF assms(1-3), of short] by (simp add: zdiv_mono1)
  moreover have "min 0 (short * 65536) div 65536 = min 0 short" "max 0 (short * 65536) div 65536 = max 0 short"
    by (simp_all add: min_def max_def)
  ultimately show ?thesis
    by (simp add: d_def drop16_div)
qed

text \<open>In the coordinate range of a screen no 32-bit operation of \<^verbatim>\<open>_line\<close> overflows.\<close>

lemma line_no_overflow:
  assumes "\<bar>short\<bar> \<le> \<bar>long\<bar>" "\<bar>long\<bar> < 32768" "long \<noteq> 0" "m \<le> nat \<bar>long\<bar>"
  shows "int32 (short * 65536) = short * 65536"
    "int32 ((short * 65536) sdiv \<bar>long\<bar> * int m) = (short * 65536) sdiv \<bar>long\<bar> * int m"
proof -
  show "int32 (short * 65536) = short * 65536"
    using assms by (intro int32_id) linarith+
  have "min 0 (short * 65536) \<le> (short * 65536) sdiv \<bar>long\<bar> * int m \<and>
      (short * 65536) sdiv \<bar>long\<bar> * int m \<le> max 0 (short * 65536)"
    using assms by (intro slope_bounds) linarith+
  then show "int32 ((short * 65536) sdiv \<bar>long\<bar> * int m) = (short * 65536) sdiv \<bar>long\<bar> * int m"
    using assms by (intro int32_id) linarith+
qed

definition coord :: "int \<Rightarrow> bool" where
  "coord x \<longleftrightarrow> 0 \<le> x \<and> x < 32768"

lemma prim_line_plots:
  assumes "coord x" "coord y" "coord x2" "coord y2"
  shows "prim_line x y x2 y2 col s = plots (plot col) (line_points x y x2 y2) s"
proof -
  define yL where "yL \<longleftrightarrow> \<bar>x2 - x\<bar> < \<bar>y2 - y\<bar>"
  define short where "short = (if yL then x2 - x else y2 - y)"
  define long where "long = (if yL then y2 - y else x2 - x)"
  define inc :: int where "inc = (if long < 0 then -1 else 1)"
  define dec where "dec = (if long = 0 then 0 else (short * 65536) sdiv \<bar>long\<bar>)"
  have sizes: "\<bar>short\<bar> \<le> \<bar>long\<bar>" "\<bar>long\<bar> < 32768"
    using assms by (auto simp: short_def long_def yL_def coord_def)
  have dec': "(if long = 0 then 0 else int32 (short * 65536) sdiv \<bar>long\<bar>) = dec"
    using line_no_overflow(1) [OF sizes, of 0] by (simp add: dec_def)
  have "line_loop yL long inc dec x col y 0 0 s =
      Some (plots (plot col) (map (\<lambda>m. line_pixel yL x y (0 + inc * int m) (0 + dec * int m))
        [0..<nat \<bar>long\<bar>]) s)"
  proof (rule line_loop_plots)
    show "inc = 1 \<or> inc = -1" by (simp add: inc_def)
    show "long = 0 + inc * int (nat \<bar>long\<bar>)" by (simp add: inc_def)
    show "\<forall>m \<le> nat \<bar>long\<bar>. int32 (0 + dec * int m) = 0 + dec * int m"
      using line_no_overflow(2) [OF sizes] by (simp add: dec_def int32_def)
  qed
  moreover have ab: "(if l < 0 then - l else l) = \<bar>l\<bar>" for l :: int
    by simp
  have "prim_line x y x2 y2 col s = loop_result (line_loop yL long inc
      (if long = 0 then 0 else int32 (short * 65536) sdiv \<bar>long\<bar>) x col y 0 0 s)"
  proof (cases yL)
    case True
    then have "\<bar>x2 - x\<bar> < \<bar>y2 - y\<bar>" by (simp add: yL_def)
    with True show ?thesis
      by (simp only: prim_line_def Let_def short_def long_def inc_def ab if_True prod.case) simp
  next
    case False
    then have "\<not> \<bar>x2 - x\<bar> < \<bar>y2 - y\<bar>" by (simp add: yL_def)
    with False show ?thesis
      by (simp only: prim_line_def Let_def short_def long_def inc_def ab if_False prod.case) simp
  qed
  ultimately show ?thesis
    unfolding dec' by (simp add: line_points_def Let_def yL_def short_def long_def inc_def dec_def)
qed

lemma set_line_points:
  "set (line_points x y x2 y2) =
     (let dx = x2 - x; dy = y2 - y; yLonger = (\<bar>dx\<bar> < \<bar>dy\<bar>);
          short = (if yLonger then dx else dy); long = (if yLonger then dy else dx)
      in (\<lambda>m. line_pixel yLonger x y (sgn long * int m) ((short * 65536) sdiv \<bar>long\<bar> * int m))
           ` {..<nat \<bar>long\<bar>})"
  by (auto simp: line_points_def Let_def lessThan_atLeast0 sgn_if)

lemma line_points_in_box:
  assumes "p \<in> set (line_points x y x2 y2)"
  shows "min x x2 \<le> fst p \<and> fst p \<le> max x x2 \<and> min y y2 \<le> snd p \<and> snd p \<le> max y y2"
proof -
  define yL where "yL \<longleftrightarrow> \<bar>x2 - x\<bar> < \<bar>y2 - y\<bar>"
  define short where "short = (if yL then x2 - x else y2 - y)"
  define long where "long = (if yL then y2 - y else x2 - x)"
  from assms obtain m where m: "m < nat \<bar>long\<bar>"
    and p: "p = line_pixel yL x y (sgn long * int m) ((short * 65536) sdiv \<bar>long\<bar> * int m)"
    by (auto simp: set_line_points Let_def yL_def short_def long_def)
  define a where "a = sgn long * int m"
  define b where "b = drop_bit 16 ((short * 65536) sdiv \<bar>long\<bar> * int m)"
  have "min 0 long \<le> a \<and> a \<le> max 0 long"
    using m by (auto simp: a_def sgn_if)
  moreover have "min 0 short \<le> b \<and> b \<le> max 0 short"
    unfolding b_def using m by (intro minor_bounds) linarith+
  moreover have "p = (if yL then (x + b, y + a) else (x + a, y + b))"
    by (simp add: p line_pixel_def a_def b_def)
  ultimately show ?thesis
    unfolding short_def long_def by (cases yL) (auto simp: min_def max_def split: if_splits)
qed

lemma length_line_points: "length (line_points x y x2 y2) = nat (max \<bar>x2 - x\<bar> \<bar>y2 - y\<bar>)"
  by (simp add: line_points_def Let_def max_def)

text \<open>
  How close a plotted point is to the ideal line: with \<open>m\<close> steps taken along the longer
  side, the offset along the shorter side is within one and a half pixels of
  \<open>m * short / long\<close>.
\<close>

lemma slope_error:
  fixes short L m :: int
  assumes L: "0 < L" and m: "0 \<le> m" "m < 32768"
  defines "dec \<equiv> (short * 65536) sdiv L"
  shows "\<bar>dec * m * L - m * short * 65536\<bar> \<le> 32767 * L"
proof -
  have round: "\<bar>dec * L - short * 65536\<bar> \<le> L"
  proof -
    have div: "0 \<le> a - a div L * L \<and> a - a div L * L \<le> L" for a :: int
      using L by (simp add: minus_div_mult_eq_mod less_imp_le)
    show ?thesis
    proof (cases "0 \<le> short")
      case True
      then have "dec = short * 65536 div L"
        using L unfolding dec_def by (intro sdiv_nonneg) simp_all
      then show ?thesis using div [of "short * 65536"] by simp
    next
      case False
      then have "dec = - ((- short * 65536) div L)"
        using L by (simp add: dec_def signed_divide_int_def sgn_if)
      then show ?thesis using div [of "- short * 65536"] by simp
    qed
  qed
  have "dec * m * L - m * short * 65536 = m * (dec * L - short * 65536)"
    by (simp add: algebra_simps)
  then have "\<bar>dec * m * L - m * short * 65536\<bar> = m * \<bar>dec * L - short * 65536\<bar>"
    using m by (simp add: abs_mult)
  also have "\<dots> \<le> m * L"
    using round m by (intro mult_left_mono) simp_all
  also have "\<dots> \<le> 32767 * L"
    using m L by (intro mult_right_mono) simp_all
  finally show ?thesis .
qed

lemma minor_error:
  fixes short L m :: int
  assumes L: "0 < L" and m: "0 \<le> m" "m < 32768"
  defines "d \<equiv> drop_bit 16 ((short * 65536) sdiv L * m)"
  shows "2 * (d * L - m * short) \<le> L \<and> - 3 * L \<le> 2 * (d * L - m * short)"
proof -
  let ?j = "(short * 65536) sdiv L * m"
  have j: "d * 65536 \<le> ?j" "?j \<le> d * 65536 + 65535"
    using mult_div_mod_eq [of 65536 ?j] pos_mod_sign [of 65536 ?j] pos_mod_bound [of 65536 ?j]
    unfolding d_def drop16_div by linarith+
  have sum: "2 * (A - M) \<le> L \<and> - 3 * L \<le> 2 * (A - M)"
    if "A * 65536 \<le> J" "J \<le> A * 65536 + 65535 * L" "\<bar>J - M * 65536\<bar> \<le> 32767 * L" for A J M :: int
  proof -
    have "J - M * 65536 \<le> 32767 * L" "- (J - M * 65536) \<le> 32767 * L"
      using that(3) by (simp_all add: abs_le_iff)
    then have "65536 * (A - M) \<le> 32767 * L" "65536 * (M - A) \<le> 98302 * L"
      using that(1,2) by (simp_all add: algebra_simps)
    then have "32768 * (2 * (A - M)) \<le> 32768 * L" "32768 * (2 * (M - A)) \<le> 32768 * (3 * L)"
      using L by linarith+
    then show ?thesis by simp
  qed
  have "d * L * 65536 \<le> ?j * L"
    using mult_right_mono [OF j(1), of L] L by (simp add: algebra_simps)
  moreover have "?j * L \<le> d * L * 65536 + 65535 * L"
    using mult_right_mono [OF j(2), of L] L by (simp add: algebra_simps)
  moreover have "\<bar>?j * L - m * short * 65536\<bar> \<le> 32767 * L"
    using slope_error [OF L m] .
  ultimately show ?thesis
    by (rule sum)
qed

section \<open>Properties of the primitives\<close>

text \<open>Twice the area spanned by a plotted point and the line's ends, at most one and a half
  pixels times the longer side.\<close>

lemma line_points_near:
  assumes size: "\<bar>x2 - x\<bar> < 32768" "\<bar>y2 - y\<bar> < 32768" and p: "p \<in> set (line_points x y x2 y2)"
  shows "2 * \<bar>(snd p - y) * (x2 - x) - (fst p - x) * (y2 - y)\<bar> \<le> 3 * max \<bar>x2 - x\<bar> \<bar>y2 - y\<bar>"
proof -
  define yL where "yL \<longleftrightarrow> \<bar>x2 - x\<bar> < \<bar>y2 - y\<bar>"
  define short where "short = (if yL then x2 - x else y2 - y)"
  define long where "long = (if yL then y2 - y else x2 - x)"
  from p obtain m where m: "m < nat \<bar>long\<bar>"
    and pt: "p = line_pixel yL x y (sgn long * int m) ((short * 65536) sdiv \<bar>long\<bar> * int m)"
    by (auto simp: set_line_points Let_def yL_def short_def long_def)
  define d where "d = drop_bit 16 ((short * 65536) sdiv \<bar>long\<bar> * int m)"
  have "\<bar>long\<bar> < 32768"
    using size by (simp add: long_def)
  then have err: "2 * (d * \<bar>long\<bar> - int m * short) \<le> \<bar>long\<bar> \<and> - 3 * \<bar>long\<bar> \<le> 2 * (d * \<bar>long\<bar> - int m * short)"
    unfolding d_def using m by (intro minor_error) linarith+
  then have "2 * \<bar>d * \<bar>long\<bar> - int m * short\<bar> \<le> 3 * \<bar>long\<bar>"
    by (auto simp: abs_if split: if_splits)
  moreover have "\<bar>d * long - sgn long * int m * short\<bar> = \<bar>d * \<bar>long\<bar> - int m * short\<bar>"
  proof -
    have "long \<noteq> 0" using m by auto
    then show ?thesis
      by (cases "0 < long") (simp_all add: sgn_if abs_if algebra_simps)
  qed
  moreover have "\<bar>(snd p - y) * (x2 - x) - (fst p - x) * (y2 - y)\<bar> =
      \<bar>d * long - sgn long * int m * short\<bar>"
    by (cases yL) (simp_all add: pt line_pixel_def short_def long_def d_def abs_minus_commute)
  moreover have "\<bar>long\<bar> = max \<bar>x2 - x\<bar> \<bar>y2 - y\<bar>"
    by (auto simp: long_def yL_def)
  ultimately show ?thesis by simp
qed

lemma on_screen_coord: "fb_ok s \<Longrightarrow> on_screen s (x, y) \<Longrightarrow> coord x \<and> coord y"
proof -
  assume ok: "fb_ok s" and on: "on_screen s (x, y)"
  have "int (unat (xres (screen_info s))) = uint (xres (screen_info s))"
    "int (unat (yres (screen_info s))) = uint (yres (screen_info s))"
    by simp_all
  then have "uint (xres (screen_info s)) \<le> 32768" "uint (yres (screen_info s)) \<le> 32768"
    using fb_okD(3,4) [OF ok] by linarith+
  then show "coord x \<and> coord y"
    using on by (simp add: on_screen_def coord_def)
qed

lemma line_points_on_screen:
  assumes "on_screen s (x, y)" "on_screen s (x2, y2)" "p \<in> set (line_points x y x2 y2)"
  shows "on_screen s p"
  using line_points_in_box [OF assms(3)] assms(1,2)
  by (auto simp: on_screen_def min_def max_def split: if_splits)



end
