(* ===== verification/Panning.thy ===== *)
theory Panning
  imports Lines
begin

text \<open>
  What \<^verbatim>\<open>_pan\<close> does to the screen in each direction: where the pixels move, which border
  pixels are repainted, and the direction that reads past the mapping.
\<close>

section \<open>Panning\<close>

lemma fb_geometry:
  assumes "fb_ok s" "0 < unat (yres (screen_info s))"
  shows "unat ((yres (screen_info s) - 1) * line_length s) =
      (unat (yres (screen_info s)) - 1) * unat (line_length s)"
    "unat (yres (screen_info s) * line_length s) = unat (yres (screen_info s)) * unat (line_length s)"
    "unat (yres (screen_info s)) * unat (line_length s) \<le> unat (fbbuflen s)"
proof -
  let ?h = "unat (yres (screen_info s))" and ?len = "unat (line_length s)"
  have le: "?h * ?len \<le> unat (fbbuflen s)"
    unfolding fbbuflen_nat [OF assms(1)] using fb_okD(2) [OF assms(1)] by (rule mult_le_mono1)
  then show "?h * ?len \<le> unat (fbbuflen s)" .
  have lt: "?h * ?len < 2 ^ 32"
    using le unsigned_less [of "fbbuflen s", where ?'a = nat] by simp
  then show "unat (yres (screen_info s) * line_length s) = ?h * ?len"
    by (simp add: unat_word_ariths)
  have h1: "unat (yres (screen_info s) - 1) = ?h - 1"
    using assms(2) by (simp add: unat_sub_if' )
  have "(?h - 1) * ?len \<le> ?h * ?len"
    by (intro mult_le_mono1) simp
  from le_less_trans [OF this lt] show "unat ((yres (screen_info s) - 1) * line_length s) = (?h - 1) * ?len"
    by (simp add: unat_word_ariths h1)
qed

text \<open>The straight border lines that panning draws.\<close>

lemma set_line_horizontal: "x \<le> x2 \<Longrightarrow> set (line_points x y x2 y) = {x..<x2} \<times> {y}"
proof -
  assume "x \<le> x2"
  have "(\<lambda>m. x + int m) ` {0..<nat (x2 - x)} = {x..<x2}"
    using image_int_atLeastLessThan [of 0 "nat (x2 - x)"] \<open>x \<le> x2\<close>
      image_add_int_atLeastLessThan [of x "x2"] by (simp add: image_image [symmetric] add.commute)
  then show ?thesis
    using \<open>x \<le> x2\<close> by (auto simp: line_points_def line_pixel_def Let_def)
qed

lemma set_line_vertical: "y \<le> y2 \<Longrightarrow> set (line_points x y x y2) = {x} \<times> {y..<y2}"
proof -
  assume "y \<le> y2"
  have "(\<lambda>m. y + int m) ` {0..<nat (y2 - y)} = {y..<y2}"
    using image_int_atLeastLessThan [of 0 "nat (y2 - y)"] \<open>y \<le> y2\<close>
      image_add_int_atLeastLessThan [of y "y2"] by (simp add: image_image [symmetric] add.commute)
  then show ?thesis
    using \<open>y \<le> y2\<close> by (auto simp: line_points_def line_pixel_def Let_def)
qed

definition screen_w :: "'a framebuffer_scheme \<Rightarrow> int" where
  "screen_w s = uint (xres (screen_info s))"

definition screen_h :: "'a framebuffer_scheme \<Rightarrow> int" where
  "screen_h s = uint (yres (screen_info s))"

lemma sint_pred: "0 < unat w \<Longrightarrow> unat w \<le> 32768 \<Longrightarrow> sint (w - 1 :: u32) = uint w - 1"
proof -
  assume w: "0 < unat w" "unat w \<le> 32768"
  have "int (unat w) = uint w" by simp
  then have b: "0 < uint w" "uint w \<le> 32768"
    using w by linarith+
  have "uint (w - 1) = uint w - 1"
    using b by (simp add: uint_word_ariths)
  then show ?thesis
    using b by (simp add: sint_uint signed_take_bit_int_eq_self)
qed

text \<open>A border line after the move, from corner to corner: its last pixel is not drawn.\<close>

lemma border_line:
  assumes ok: "fb_ok s" and ends: "on_screen s (x, y)" "on_screen s (x2, y2)" and col: "unat col < 255"
  obtains s' where "prim_line x y x2 y2 col s = Inr s'" "fb_frame s' = fb_frame s"
    "\<And>q. on_screen s q \<Longrightarrow>
       pixel s' q = (if q \<in> set (line_points x y x2 y2) then palette ! unat col else pixel s q)"
  using plots_screen [OF ok _ col] line_points_on_screen [OF ends] on_screen_coord [OF ok ends(1)]
    on_screen_coord [OF ok ends(2)] by (metis prim_line_plots)

lemma memmove_ok:
  "fb_ok s \<Longrightarrow> src + n \<le> unat (fbbuflen s) \<Longrightarrow> dst + n \<le> unat (fbbuflen s) \<Longrightarrow>
     fb_memmove dst src n s = Inr (s\<lparr>fbmem := (\<lambda>k. if dst \<le> k \<and> k < dst + n then fbmem s (k - dst + src)
        else fbmem s k)\<rparr>)"
  by (simp add: fb_memmove_def fb_access_def fb_ok_def)

lemma screen_positive:
  "on_screen s (x, y) \<Longrightarrow> 0 < unat (xres (screen_info s)) \<and> 0 < unat (yres (screen_info s))"
  using on_screen_nat [of s "(x, y)"] by auto

lemma corner_on_screen:
  assumes "fb_ok s" "0 < unat (xres (screen_info s))" "0 < unat (yres (screen_info s))"
  shows "on_screen s (0, 0)" "on_screen s (0, screen_h s - 1)" "on_screen s (screen_w s - 1, 0)"
    "on_screen s (screen_w s - 1, screen_h s - 1)"
    "sint (xres (screen_info s) - 1) = screen_w s - 1"
    "sint (yres (screen_info s) - 1) = screen_h s - 1"
proof -
  have "int (unat (xres (screen_info s))) = screen_w s" "int (unat (yres (screen_info s))) = screen_h s"
    by (simp_all add: screen_w_def screen_h_def)
  then have "0 < screen_w s" "0 < screen_h s"
    using assms by linarith+
  then show "on_screen s (0, 0)" "on_screen s (0, screen_h s - 1)" "on_screen s (screen_w s - 1, 0)"
    "on_screen s (screen_w s - 1, screen_h s - 1)"
    by (simp_all add: on_screen_def screen_w_def screen_h_def)
  show "sint (xres (screen_info s) - 1) = screen_w s - 1" "sint (yres (screen_info s) - 1) = screen_h s - 1"
    using assms fb_okD(3,4) [OF assms(1)] by (simp_all add: sint_pred screen_w_def screen_h_def)
qed

lemma nat_row: "0 < y \<Longrightarrow> nat y * n = nat (y - 1) * n + n"
  by (metis Suc_nat_eq_nat_zadd1 add.commute diff_add_cancel int_one_le_iff_zero_less le_diff_eq
      add_0 mult_Suc)

text \<open>
  What one pan does, cell by cell: \<open>src\<close> is the cell whose content moves into the given one,
  \<open>border\<close> the cells the border line reaches.
\<close>

lemma pan_down_cells:
  assumes ok: "fb_ok s" and dim: "0 < unat (xres (screen_info s))" "0 < unat (yres (screen_info s))"
    and col: "unat (background_color s) < 255"
  shows "\<exists>s'. prim_pan 0x10 s = Inr s' \<and> (\<forall>x y. on_screen s (x, y) \<longrightarrow> pixel s' (x, y) =
    (if y = 0 then if x < screen_w s - 1 then palette ! unat (background_color s) else pixel s (x, 0)
     else pixel s (x, y - 1)))"
proof -
  let ?len = "unat (line_length s)" and ?h = "unat (yres (screen_info s))"
  let ?n = "(?h - 1) * ?len"
  define s1 where "s1 = s\<lparr>fbmem := (\<lambda>k. if ?len \<le> k \<and> k < ?len + ?n then fbmem s (k - ?len + 0)
      else fbmem s k)\<rparr>"
  note geo = fb_geometry [OF ok dim(2)] and corners = corner_on_screen [OF ok dim]
  have n: "?len + ?n = ?h * ?len"
    using dim(2) by (cases ?h) simp_all
  have move: "fb_memmove ?len 0 (unat ((yres (screen_info s) - 1) * line_length s)) s = Inr s1"
    using n geo memmove_ok [OF ok, of 0 ?n ?len] by (simp add: s1_def)
  have ok1: "fb_ok s1" "on_screen s1 q = on_screen s q" "background_color s1 = background_color s" for q
    using ok by (simp_all add: s1_def)
  obtain s2 where s2: "prim_line 0 0 (screen_w s - 1) 0 (background_color s) s1 = Inr s2"
    "\<And>q. on_screen s1 q \<Longrightarrow> pixel s2 q =
       (if q \<in> set (line_points 0 0 (screen_w s - 1) 0) then palette ! unat (background_color s)
        else pixel s1 q)"
    using border_line [OF ok1(1) _ _ col, of 0 0 "screen_w s - 1" 0] corners ok1(2) by metis
  have "prim_pan 0x10 s = Inr s2"
    using move s2(1) corners by (simp add: prim_pan_def Let_def)
  moreover have "pixel s1 (x, y) = (if y = 0 then pixel s (x, 0) else pixel s (x, y - 1))"
    if on: "on_screen s (x, y)" for x y
  proof -
    have below: "Suc (offset s (x, y)) < (nat y + 1) * ?len" "nat y < ?h"
      using on_screen_row [OF ok on] on_screen_nat [OF on] by (simp_all add: offset_def)
    then have "Suc (offset s (x, y)) < ?h * ?len"
      using mult_le_mono1 [of "nat y + 1" ?h ?len] by linarith
    moreover have "y \<noteq> 0 \<Longrightarrow> offset s (x, y) = offset s (x, y - 1) + ?len"
      using on nat_row [of y ?len] by (simp add: offset_def on_screen_def)
    moreover have "y = 0 \<Longrightarrow> Suc (offset s (x, y)) < ?len"
      using below(1) by simp
    ultimately show ?thesis
      unfolding pixel_def using n by (auto simp: s1_def)
  qed
  moreover have "(x, y) \<in> set (line_points 0 0 (screen_w s - 1) 0) \<longleftrightarrow> y = 0 \<and> x < screen_w s - 1"
    if "on_screen s (x, y)" for x y
    using that corners(3) by (auto simp: set_line_horizontal on_screen_def)
  ultimately show ?thesis
    using s2(2) ok1(2) by (intro exI [of _ s2]) (auto split: if_splits)
qed

lemma pan_up_cells:
  assumes ok: "fb_ok s" and dim: "0 < unat (xres (screen_info s))" "0 < unat (yres (screen_info s))"
    and col: "unat (background_color s) < 255"
  shows "\<exists>s'. prim_pan 0x90 s = Inr s' \<and> (\<forall>x y. on_screen s (x, y) \<longrightarrow> pixel s' (x, y) =
    (if y = screen_h s - 1
     then if x < screen_w s - 1 then palette ! unat (background_color s) else pixel s (x, y)
     else pixel s (x, y + 1)))"
proof -
  let ?len = "unat (line_length s)" and ?h = "unat (yres (screen_info s))"
  let ?n = "(?h - 1) * ?len"
  define s1 where "s1 = s\<lparr>fbmem := (\<lambda>k. if 0 \<le> k \<and> k < 0 + ?n then fbmem s (k - 0 + ?len)
      else fbmem s k)\<rparr>"
  note geo = fb_geometry [OF ok dim(2)] and corners = corner_on_screen [OF ok dim]
  have n: "?len + ?n = ?h * ?len"
    using dim(2) by (cases ?h) simp_all
  have move: "fb_memmove 0 ?len (unat ((yres (screen_info s) - 1) * line_length s)) s = Inr s1"
    using n geo memmove_ok [OF ok, of ?len ?n 0] by (simp add: s1_def)
  have ok1: "fb_ok s1" "on_screen s1 q = on_screen s q" "background_color s1 = background_color s" for q
    using ok by (simp_all add: s1_def)
  obtain s2 where s2: "prim_line 0 (screen_h s - 1) (screen_w s - 1) (screen_h s - 1) (background_color s) s1 = Inr s2"
    "\<And>q. on_screen s1 q \<Longrightarrow> pixel s2 q =
       (if q \<in> set (line_points 0 (screen_h s - 1) (screen_w s - 1) (screen_h s - 1))
        then palette ! unat (background_color s) else pixel s1 q)"
    using border_line [OF ok1(1) _ _ col, of 0 "screen_h s - 1" "screen_w s - 1" "screen_h s - 1"]
      corners ok1(2) by metis
  have "prim_pan 0x90 s = Inr s2"
    using move s2(1) corners by (simp add: prim_pan_def Let_def)
  moreover have "pixel s1 (x, y) = (if y = screen_h s - 1 then pixel s (x, y) else pixel s (x, y + 1))"
    if on: "on_screen s (x, y)" for x y
  proof (cases "y = screen_h s - 1")
    case True
    have "int (unat (yres (screen_info s))) = screen_h s"
      by (simp add: screen_h_def)
    then have "nat y = ?h - 1"
      using True by linarith
    then show ?thesis
      using True by (simp add: pixel_def offset_def s1_def)
  next
    case False
    have h: "int (unat (yres (screen_info s))) = screen_h s"
      by (simp add: screen_h_def)
    have y: "0 \<le> y" "y < screen_h s"
      using on by (auto simp: on_screen_def screen_h_def)
    then have "nat y + 1 \<le> ?h - 1"
      using False h by linarith
    moreover have "Suc (offset s (x, y)) < (nat y + 1) * ?len"
      using on_screen_row [OF ok on] by (simp add: offset_def)
    ultimately have "Suc (offset s (x, y)) < ?n"
      using mult_le_mono1 [of "nat y + 1" "?h - 1" ?len] by linarith
    moreover have "offset s (x, y + 1) = offset s (x, y) + ?len"
      using y nat_row [of "y + 1" ?len] by (simp add: offset_def)
    ultimately show ?thesis
      using False by (simp add: pixel_def s1_def)
  qed
  moreover have "(x, y) \<in> set (line_points 0 (screen_h s - 1) (screen_w s - 1) (screen_h s - 1)) \<longleftrightarrow>
      y = screen_h s - 1 \<and> x < screen_w s - 1"
    if "on_screen s (x, y)" for x y
    using that corners(3) by (auto simp: set_line_horizontal on_screen_def)
  ultimately show ?thesis
    using s2(2) ok1(2) by (intro exI [of _ s2]) (auto split: if_splits)
qed

lemma pan_right_cells:
  assumes ok: "fb_ok s" and dim: "0 < unat (xres (screen_info s))" "0 < unat (yres (screen_info s))"
    and col: "unat (background_color s) < 255"
  shows "\<exists>s'. prim_pan 0x01 s = Inr s' \<and> (\<forall>x y. on_screen s (x, y) \<longrightarrow>
    (0 < x \<longrightarrow> pixel s' (x, y) = pixel s (x - 1, y)) \<and>
    (y < screen_h s - 1 \<longrightarrow> pixel s' (0, y) = palette ! unat (background_color s)))"
proof -
  let ?len = "unat (line_length s)" and ?h = "unat (yres (screen_info s))"
  define s1 where "s1 = s\<lparr>fbmem := (\<lambda>k. if 2 \<le> k \<and> k < 2 + (?h * ?len - 2) then fbmem s (k - 2 + 0)
      else fbmem s k)\<rparr>"
  note geo = fb_geometry [OF ok dim(2)] and corners = corner_on_screen [OF ok dim]
  have "2 \<le> ?len"
    using fb_okD(1) [OF ok] dim(1) by linarith
  then have two: "2 \<le> ?h * ?len"
    using dim(2) mult_le_mono [of 1 ?h 2 ?len] by simp
  have size: "unat (yres (screen_info s) * line_length s - 2) = ?h * ?len - 2"
    using two geo(2) by (simp add: unat_sub_if')
  have move: "fb_memmove 2 0 (unat (yres (screen_info s) * line_length s - 2)) s = Inr s1"
    using two geo memmove_ok [OF ok, of 0 "?h * ?len - 2" 2] unfolding size by (simp add: s1_def)
  have ok1: "fb_ok s1" "on_screen s1 q = on_screen s q" "background_color s1 = background_color s" for q
    using ok by (simp_all add: s1_def)
  obtain s2 where s2: "prim_line 0 0 0 (screen_h s - 1) (background_color s) s1 = Inr s2"
    "\<And>q. on_screen s1 q \<Longrightarrow> pixel s2 q =
       (if q \<in> set (line_points 0 0 0 (screen_h s - 1)) then palette ! unat (background_color s)
        else pixel s1 q)"
    using border_line [OF ok1(1) _ _ col, of 0 0 0 "screen_h s - 1"] corners ok1(2) by metis
  have "prim_pan 0x01 s = Inr s2"
    using move s2(1) corners by (simp add: prim_pan_def Let_def)
  moreover have "pixel s1 (x, y) = pixel s (x - 1, y)" if on: "on_screen s (x, y)" "0 < x" for x y
  proof -
    have "Suc (offset s (x, y)) < (nat y + 1) * ?len" "nat y < ?h"
      using on_screen_row [OF ok on(1)] on_screen_nat [OF on(1)] by (simp_all add: offset_def)
    then have "Suc (offset s (x, y)) < ?h * ?len"
      using mult_le_mono1 [of "nat y + 1" ?h ?len] by linarith
    moreover have right: "offset s (x, y) = offset s (x - 1, y) + 2"
      using offset_right [of "x - 1" s y] on(2) by simp
    ultimately have "Suc (offset s (x - 1, y)) < ?h * ?len - 2"
      using two by linarith
    then show ?thesis
      by (simp add: pixel_def s1_def right)
  qed
  moreover have "(x, y) \<in> set (line_points 0 0 0 (screen_h s - 1)) \<longleftrightarrow> x = 0 \<and> 0 \<le> y \<and> y < screen_h s - 1" for x y
    using corners(2) by (auto simp: set_line_vertical on_screen_def)
  moreover have "on_screen s (x, y) \<Longrightarrow> on_screen s (0, y) \<and> 0 \<le> y" for x y
    using corners(1) by (simp add: on_screen_def)
  ultimately show ?thesis
    using s2(2) ok1(2) by (intro exI [of _ s2]) (auto split: if_splits)
qed

text \<open>Panning left needs two bytes beyond the visible rows.\<close>

lemma pan_left_cells:
  assumes ok: "fb_ok s" and dim: "0 < unat (xres (screen_info s))" "0 < unat (yres (screen_info s))"
    and col: "unat (background_color s) < 255"
    and spare: "unat (yres (screen_info s)) < unat (yres_virtual (screen_info s))"
  shows "\<exists>s'. prim_pan 0x09 s = Inr s' \<and> (\<forall>x y. on_screen s (x, y) \<longrightarrow>
    (x < screen_w s - 1 \<longrightarrow> pixel s' (x, y) = pixel s (x + 1, y)) \<and>
    (x = screen_w s - 1 \<longrightarrow> y < screen_h s - 1 \<longrightarrow> pixel s' (x, y) = palette ! unat (background_color s)))"
proof -
  let ?len = "unat (line_length s)" and ?h = "unat (yres (screen_info s))"
  define s1 where "s1 = s\<lparr>fbmem := (\<lambda>k. if 0 \<le> k \<and> k < 0 + ?h * ?len then fbmem s (k - 0 + 2)
      else fbmem s k)\<rparr>"
  note geo = fb_geometry [OF ok dim(2)] and corners = corner_on_screen [OF ok dim]
  have "2 \<le> ?len"
    using fb_okD(1) [OF ok] dim(1) by linarith
  then have two: "2 + ?h * ?len \<le> unat (fbbuflen s)"
    using mult_le_mono1 [OF Suc_leI [OF spare], of ?len] fbbuflen_nat [OF ok] by simp
  have move: "fb_memmove 0 2 (unat (yres (screen_info s) * line_length s - 0)) s = Inr s1"
    using two geo memmove_ok [OF ok, of 2 "?h * ?len" 0] by (simp add: s1_def)
  have ok1: "fb_ok s1" "on_screen s1 q = on_screen s q" "background_color s1 = background_color s" for q
    using ok by (simp_all add: s1_def)
  obtain s2 where s2:
    "prim_line (screen_w s - 1) 0 (screen_w s - 1) (screen_h s - 1) (background_color s) s1 = Inr s2"
    "\<And>q. on_screen s1 q \<Longrightarrow> pixel s2 q =
       (if q \<in> set (line_points (screen_w s - 1) 0 (screen_w s - 1) (screen_h s - 1))
        then palette ! unat (background_color s) else pixel s1 q)"
    using border_line [OF ok1(1) _ _ col, of "screen_w s - 1" 0 "screen_w s - 1" "screen_h s - 1"]
      corners ok1(2) by metis
  have "prim_pan 0x09 s = Inr s2"
    using move s2(1) corners by (simp add: prim_pan_def Let_def)
  moreover have "pixel s1 (x, y) = pixel s (x + 1, y)" if on: "on_screen s (x, y)" for x y
  proof -
    have "Suc (offset s (x, y)) < (nat y + 1) * ?len" "nat y < ?h"
      using on_screen_row [OF ok on] on_screen_nat [OF on] by (simp_all add: offset_def)
    then have "Suc (offset s (x, y)) < ?h * ?len"
      using mult_le_mono1 [of "nat y + 1" ?h ?len] by linarith
    moreover have "offset s (x + 1, y) = offset s (x, y) + 2"
      using offset_right [of x s y] on by (simp add: on_screen_def)
    ultimately show ?thesis
      by (simp add: pixel_def s1_def)
  qed
  moreover have "(x, y) \<in> set (line_points (screen_w s - 1) 0 (screen_w s - 1) (screen_h s - 1)) \<longleftrightarrow>
      x = screen_w s - 1 \<and> 0 \<le> y \<and> y < screen_h s - 1" for x y
    using corners(2) by (auto simp: set_line_vertical on_screen_def)
  moreover have "on_screen s (x, y) \<Longrightarrow> 0 \<le> y" for x y
    by (simp add: on_screen_def)
  ultimately show ?thesis
    using s2(2) ok1(2) by (intro exI [of _ s2]) (auto split: if_splits)
qed

section \<open>All four directions\<close>

text \<open>The cell whose content a pan moves into \<open>(x, y)\<close>, and the corner its border line omits.\<close>

fun pan_source :: "u8 \<Rightarrow> int \<times> int \<Rightarrow> int \<times> int" where
  "pan_source d (x, y) =
     (if d = 0x01 then (x - 1, y) else if d = 0x09 then (x + 1, y)
      else if d = 0x10 then (x, y - 1) else (x, y + 1))"

definition pan_corner :: "u8 \<Rightarrow> 'a framebuffer_scheme \<Rightarrow> int \<times> int" where
  "pan_corner d s =
     (if d = 0x01 then (0, screen_h s - 1) else if d = 0x10 then (screen_w s - 1, 0)
      else (screen_w s - 1, screen_h s - 1))"

text \<open>C36. Panning moves every pixel one step in its direction and paints the border it uncovers
  in the background colour, all but the border's last pixel; panning left is safe only where
  the mapping holds more rows than are visible.\<close>

theorem pan_moves:
  assumes ok: "fb_ok s" and dim: "0 < unat (xres (screen_info s))" "0 < unat (yres (screen_info s))"
    and col: "unat (background_color s) < 255" and d: "d \<in> {0x01, 0x09, 0x10, 0x90}"
    and spare: "d = 0x09 \<longrightarrow> unat (yres (screen_info s)) < unat (yres_virtual (screen_info s))"
  shows "\<exists>s'. prim_pan d s = Inr s' \<and> (\<forall>p. on_screen s p \<longrightarrow>
    (if on_screen s (pan_source d p) then pixel s' p = pixel s (pan_source d p)
     else p \<noteq> pan_corner d s \<longrightarrow> pixel s' p = palette ! unat (background_color s)))"
proof -
  note on = on_screen_def screen_w_def screen_h_def
  consider "d = 0x01" | "d = 0x09" | "d = 0x10" | "d = 0x90"
    using d by auto
  then show ?thesis
  proof cases
    case 1
    from pan_right_cells [OF ok dim col] obtain s' where "prim_pan 0x01 s = Inr s'" and
      "\<forall>x y. on_screen s (x, y) \<longrightarrow> (0 < x \<longrightarrow> pixel s' (x, y) = pixel s (x - 1, y)) \<and>
        (y < screen_h s - 1 \<longrightarrow> pixel s' (0, y) = palette ! unat (background_color s))" by blast
    with 1 show ?thesis
      by (intro exI [of _ s']) (fastforce simp: on pan_corner_def)
  next
    case 2
    from pan_left_cells [OF ok dim col] 2 spare obtain s' where "prim_pan 0x09 s = Inr s'" and
      "\<forall>x y. on_screen s (x, y) \<longrightarrow> (x < screen_w s - 1 \<longrightarrow> pixel s' (x, y) = pixel s (x + 1, y)) \<and>
        (x = screen_w s - 1 \<longrightarrow> y < screen_h s - 1 \<longrightarrow>
           pixel s' (x, y) = palette ! unat (background_color s))" by blast
    with 2 show ?thesis
      by (intro exI [of _ s']) (fastforce simp: on pan_corner_def)
  next
    case 3
    from pan_down_cells [OF ok dim col] obtain s' where "prim_pan 0x10 s = Inr s'" and
      "\<forall>x y. on_screen s (x, y) \<longrightarrow> pixel s' (x, y) = (if y = 0 then if x < screen_w s - 1
         then palette ! unat (background_color s) else pixel s (x, 0) else pixel s (x, y - 1))" by blast
    with 3 show ?thesis
      by (intro exI [of _ s']) (fastforce simp: on pan_corner_def)
  next
    case 4
    from pan_up_cells [OF ok dim col] obtain s' where "prim_pan 0x90 s = Inr s'" and
      "\<forall>x y. on_screen s (x, y) \<longrightarrow> pixel s' (x, y) = (if y = screen_h s - 1 then if x < screen_w s - 1
         then palette ! unat (background_color s) else pixel s (x, y) else pixel s (x, y + 1))" by blast
    with 4 show ?thesis
      by (intro exI [of _ s']) (fastforce simp: on pan_corner_def)
  qed
qed

text \<open>Panning left on a screen whose virtual height is its visible height reads past the
  mapping.\<close>

theorem pan_left_overruns:
  assumes ok: "fb_ok s" and dim: "0 < unat (yres (screen_info s))"
    and exact: "yres_virtual (screen_info s) = yres (screen_info s)"
  shows "prim_pan 0x09 s = Inl (Undefined OutOfBounds)"
proof -
  have "unat (yres (screen_info s) * line_length s) = unat (fbbuflen s)"
    using fbbuflen_nat [OF ok] fb_geometry [OF ok dim] exact by simp
  then have "fb_memmove 0 2 (unat (yres (screen_info s) * line_length s - 0)) s = Inl (Undefined OutOfBounds)"
    using ok by (simp add: fb_memmove_def fb_access_def fb_ok_def)
  then show ?thesis
    by (simp add: prim_pan_def Let_def)
qed

theorem pan_moves_witness:
  "\<exists>s'. prim_pan 0x10 small_screen = Inr s' \<and> (\<forall>p. on_screen small_screen p \<longrightarrow>
    (if on_screen small_screen (pan_source 0x10 p) then pixel s' p = pixel small_screen (pan_source 0x10 p)
     else p \<noteq> pan_corner 0x10 small_screen \<longrightarrow> pixel s' p = palette ! unat (background_color small_screen)))"
  by (rule pan_moves) simp_all

theorem pan_left_overruns_witness: "prim_pan 0x09 small_screen = Inl (Undefined OutOfBounds)"
  using pan_left_overruns [of small_screen] by simp

end
