(* ===== verification/Circles.thy ===== *)
theory Circles
  imports Lines
begin

text \<open>
  What the loop of \<^verbatim>\<open>fb_circle\<close> puts on the screen: its 16-bit arithmetic against a walk over
  unbounded integers, termination for every radius, and the distance of the plotted points from
  the ideal circle.
\<close>

section \<open>Circles\<close>

text \<open>The walk of \<^verbatim>\<open>fb_circle\<close> over unbounded integers: the points of one octant.\<close>

function circle_walk :: "int \<Rightarrow> int \<Rightarrow> int \<Rightarrow> (int \<times> int) list" where
  "circle_walk xp yp t =
     (if yp \<le> xp then
        (xp, yp) # (if xp \<le> t + (yp + 1) then circle_walk (xp - 1) (yp + 1) (t + (yp + 1) - xp)
                    else circle_walk xp (yp + 1) (t + (yp + 1)))
      else [])"
  by pat_completeness auto
termination
  by (relation "measure (\<lambda>(xp, yp, t). nat (xp - yp + 1))") auto

declare circle_walk.simps [simp del]

definition octants :: "int \<Rightarrow> int \<Rightarrow> int \<times> int \<Rightarrow> (int \<times> int) list" where
  "octants x y p =
     [(x + fst p, y + snd p), (x - fst p, y + snd p), (x + fst p, y - snd p), (x - fst p, y - snd p),
      (x + snd p, y + fst p), (x - snd p, y + fst p), (x + snd p, y - fst p), (x - snd p, y - fst p)]"

definition circle_points :: "int \<Rightarrow> int \<Rightarrow> int \<Rightarrow> (int \<times> int) list" where
  "circle_points x y r = concat (map (octants x y) (circle_walk r 0 (r div 16)))"

lemma plots_fun: "plots f [] = Inr" "plots f (p # ps) = (\<lambda>s. bindR (f p s) (plots f ps))"
  by (simp_all add: fun_eq_iff)

lemma circle_octants_plots:
  "circle_octants x y col xp yp s = plots (plot col) (octants (uint x) (uint y) (xp, yp)) s"
  by (simp add: circle_octants_def octants_def Let_def plot_def plots_fun)

text \<open>
  The error term stays below \<open>xpos\<close> while the loop runs, so that every value that decides
  a branch is exact although \<open>t1\<close> may leave the 16-bit range in between; and it measures
  how far \<open>(xpos, ypos)\<close> is from the circle.
\<close>

definition circle_inv :: "int \<Rightarrow> int \<Rightarrow> int \<Rightarrow> int \<Rightarrow> bool" where
  "circle_inv r xp yp t \<longleftrightarrow> 0 \<le> yp \<and> yp \<le> 32767 \<and> xp \<le> r \<and> r \<le> 32767 \<and> -1 \<le> xp \<and> 0 \<le> t \<and>
     (yp \<le> xp \<longrightarrow> t < max xp 1) \<and>
     xp * xp + xp + yp * yp + yp = r * r + r - 2 * (r div 16) + 2 * t"

lemma circle_inv_room:
  assumes "circle_inv r xp yp t" "yp \<le> xp"
  shows "yp < 32767"
proof (rule ccontr)
  assume "\<not> yp < 32767"
  with assms have eqs: "yp = 32767" "xp = 32767" "r = 32767"
    by (auto simp: circle_inv_def)
  with assms show False
    by (auto simp: circle_inv_def)
qed

lemma circle_inv_step:
  assumes "circle_inv r xp yp t" "yp \<le> xp"
  shows "xp \<le> t + (yp + 1) \<Longrightarrow> circle_inv r (xp - 1) (yp + 1) (t + (yp + 1) - xp)"
    "t + (yp + 1) < xp \<Longrightarrow> circle_inv r xp (yp + 1) (t + (yp + 1))"
  using assms circle_inv_room [OF assms]
  by (auto simp: circle_inv_def max_def algebra_simps split: if_splits)

lemma int16_diff: "- 32768 \<le> b \<Longrightarrow> b < 32768 \<Longrightarrow> int16 (int16 a - b) = int16 (a - b)"
  unfolding int16_def by (metis int16_id int16_def signed_take_bit_diff)

lemma circle_exact:
  assumes "circle_inv r xp yp t" "yp \<le> xp"
  shows "int16 (yp + 1) = yp + 1"
    "int16 (int16 (t + (yp + 1)) - xp) = t + (yp + 1) - xp"
    "t + (yp + 1) < xp \<Longrightarrow> int16 (t + (yp + 1)) = t + (yp + 1)"
    "int16 (xp - 1) = xp - 1"
proof -
  have "int16 (int16 (t + (yp + 1)) - xp) = int16 (t + (yp + 1) - xp)"
    using assms by (intro int16_diff) (auto simp: circle_inv_def)
  also have "\<dots> = t + (yp + 1) - xp"
    using assms by (intro int16_id) (auto simp: circle_inv_def max_def split: if_splits)
  finally show "int16 (int16 (t + (yp + 1)) - xp) = t + (yp + 1) - xp" .
qed (use assms circle_inv_room [OF assms] in \<open>auto simp: circle_inv_def intro!: int16_id\<close>)

lemma circle_loop_plots:
  fixes s :: "'a framebuffer_scheme"
  shows "circle_inv r xp yp t \<Longrightarrow> circle_loop x y col xp yp t s =
    Some (plots (plot col) (concat (map (octants (uint x) (uint y)) (circle_walk xp yp t))) s)"
proof (induction xp yp t arbitrary: s rule: circle_walk.induct)
  case (1 xp yp t)
  let ?oct = "octants (uint x) (uint y)"
  show ?case
  proof (cases "yp \<le> xp")
    case False
    then show ?thesis
      by (simp add: circle_loop.simps [of x y col xp yp t s] circle_walk.simps [of xp yp t])
  next
    case le: True
    note exact = circle_exact [OF "1.prems" le]
    show ?thesis
    proof (cases "xp \<le> t + (yp + 1)")
      case True
      note IH = "1.IH" (1) [OF le True circle_inv_step(1) [OF "1.prems" le True]]
      show ?thesis
        unfolding circle_loop.simps [of x y col xp yp t s] circle_walk.simps [of xp yp t]
        using le True by (simp add: exact Let_def IH circle_octants_plots plots_append
            bindR_def split: sum.split)
    next
      case False
      note IH = "1.IH" (2) [OF le False circle_inv_step(2) [OF "1.prems" le]]
      have lt: "t + (yp + 1) < xp" using False by simp
      have t2: "int16 (t + (yp + 1) - xp) = t + (yp + 1) - xp"
        using exact(2) exact(3) [OF lt] by simp
      show ?thesis
        unfolding circle_loop.simps [of x y col xp yp t s] circle_walk.simps [of xp yp t]
        using le False by (simp add: exact(1,4) exact(3) [OF lt] t2 Let_def IH [OF lt] circle_octants_plots
            plots_append bindR_def split: sum.split)
    qed
  qed
qed

lemma circle_inv_init: "0 \<le> r \<Longrightarrow> r \<le> 32767 \<Longrightarrow> circle_inv r r 0 (r div 16)"
  by (auto simp: circle_inv_def max_def)

lemma circle_walk_inv:
  "circle_inv r xp yp t \<Longrightarrow> p \<in> set (circle_walk xp yp t) \<Longrightarrow>
     snd p \<le> fst p \<and> (\<exists>t'. circle_inv r (fst p) (snd p) t')"
proof (induction xp yp t rule: circle_walk.induct)
  case (1 xp yp t)
  from "1.prems"(2) have le: "yp \<le> xp"
    by (simp add: circle_walk.simps [of xp yp t] split: if_splits)
  show ?case
  proof (cases "p = (xp, yp)")
    case True
    then show ?thesis using "1.prems"(1) le by auto
  next
    case False
    with "1.prems"(2) le have rest: "p \<in> set (if xp \<le> t + (yp + 1)
        then circle_walk (xp - 1) (yp + 1) (t + (yp + 1) - xp) else circle_walk xp (yp + 1) (t + (yp + 1)))"
      by (simp add: circle_walk.simps [of xp yp t])
    show ?thesis
      using rest "1.IH" [OF le] circle_inv_step [OF "1.prems"(1) le] by (simp split: if_splits)
  qed
qed

lemma prim_circle_plots:
  assumes "unat radius \<le> 32767"
  shows "prim_circle x y radius col s =
    plots (plot col) (circle_points (uint x) (uint y) (uint radius)) s"
proof -
  have "int (unat radius) = uint radius"
    by simp
  then have r: "0 \<le> uint radius" "uint radius \<le> 32767"
    using assms by linarith+
  have "sint radius = uint radius"
    using r by (simp add: sint_u16)
  moreover have "uint (drop_bit 4 radius) = uint radius div 16"
    by (simp only: uint_drop_bit_div) simp
  moreover note circle_loop_plots [OF circle_inv_init [OF r], of x y col s]
  ultimately show ?thesis
    by (simp only: prim_circle_def circle_points_def loop_result_Some)
qed

lemma prim_circle_negative:
  assumes "32767 < unat radius"
  shows "prim_circle x y radius col s = Inr s"
proof -
  have "int (unat radius) = uint radius"
    by simp
  then have "32767 < uint radius"
    using assms by linarith
  then have "sint radius < 0"
    using uint_u16_bound [of radius] by (simp add: sint_u16)
  then show ?thesis
    by (simp add: prim_circle_def circle_loop.simps)
qed

lemma plots_not_diverges:
  "(\<And>p s. f p s \<noteq> Inl Diverges) \<Longrightarrow> plots f ps s \<noteq> Inl Diverges"
  by (induction ps arbitrary: s) (auto simp: bindR_eq_Inl)

lemma prim_point_not_diverges: "prim_point x y col s \<noteq> Inl Diverges"
  by (auto simp: prim_point_def palette_at_def fb_store16_def fb_access_def bindR_eq_Inl
      split: fbptr.splits if_splits)

lemma circle_points_box:
  assumes "0 \<le> r" "r \<le> 32767" "q \<in> set (circle_points x y r)"
  shows "x - r \<le> fst q \<and> fst q \<le> x + r \<and> y - r \<le> snd q \<and> snd q \<le> y + r"
proof -
  from assms(3) obtain p where p: "p \<in> set (circle_walk r 0 (r div 16))" and q: "q \<in> set (octants x y p)"
    by (auto simp: circle_points_def)
  from circle_walk_inv [OF circle_inv_init [OF assms(1,2)] p]
  have "0 \<le> snd p" "snd p \<le> fst p" "fst p \<le> r"
    by (auto simp: circle_inv_def)
  with q show ?thesis by (auto simp: octants_def)
qed

lemma circle_inv_near:
  assumes "circle_inv r xp yp t" "yp \<le> xp" "1 \<le> r"
  shows "(r - 1) * (r - 1) \<le> xp * xp + yp * yp \<and> xp * xp + yp * yp \<le> (r + 1) * (r + 1)"
proof -
  have eq: "xp * xp + yp * yp = r * r + r - 2 * (r div 16) + 2 * t - xp - yp"
    and bounds: "0 \<le> yp" "0 \<le> xp" "xp \<le> r" "0 \<le> t" "t < max xp 1"
    using assms by (auto simp: circle_inv_def algebra_simps)
  have d: "0 \<le> r div 16" "16 * (r div 16) \<le> r"
    using assms(3) by simp_all
  have "2 * t - xp \<le> r"
    using bounds assms(3) by (simp add: max_def split: if_splits)
  then have "r * r + r - 2 * (r div 16) + 2 * t - xp - yp \<le> r * r + 2 * r + 1"
    using d bounds by linarith
  moreover have "r * r - 2 * r + 1 \<le> r * r + r - 2 * (r div 16) + 2 * t - xp - yp"
  proof (cases "r = 1")
    case True
    then show ?thesis using eq d bounds assms(2) zero_le_square [of xp] zero_le_square [of yp] by simp
  next
    case False
    then show ?thesis using d bounds assms(2,3) by linarith
  qed
  ultimately show ?thesis
    unfolding eq by (simp add: algebra_simps)
qed

lemma circle_points_near:
  assumes "1 \<le> r" "r \<le> 32767" "q \<in> set (circle_points x y r)"
  shows "(r - 1) * (r - 1) \<le> (fst q - x) * (fst q - x) + (snd q - y) * (snd q - y) \<and>
    (fst q - x) * (fst q - x) + (snd q - y) * (snd q - y) \<le> (r + 1) * (r + 1)"
proof -
  from assms(3) obtain p where p: "p \<in> set (circle_walk r 0 (r div 16))" and q: "q \<in> set (octants x y p)"
    by (auto simp: circle_points_def)
  have "0 \<le> r" using assms(1) by simp
  from circle_walk_inv [OF circle_inv_init [OF this assms(2)] p] obtain t where
    "circle_inv r (fst p) (snd p) t" "snd p \<le> fst p" by blast
  from circle_inv_near [OF this assms(1)] have
    "(r - 1) * (r - 1) \<le> fst p * fst p + snd p * snd p \<and> fst p * fst p + snd p * snd p \<le> (r + 1) * (r + 1)" .
  moreover have "(fst q - x) * (fst q - x) + (snd q - y) * (snd q - y) = fst p * fst p + snd p * snd p"
    using q by (auto simp: octants_def)
  ultimately show ?thesis by simp
qed

text \<open>C7. 
  C2. A circle of radius up to 32767 whose square lies on the screen. \<^verbatim>\<open>fb_circle\<close>'s loop
  ends, returns without an access outside the mapping, colours the four points of the axes, and
  every pixel it colours has a distance between \<open>radius - 1\<close> and \<open>radius + 1\<close> from the
  centre.
\<close>

theorem circle_draws:
  assumes ok: "fb_ok s" and r: "1 \<le> unat radius" "unat radius \<le> 32767"
    and lo: "on_screen s (uint x - uint radius, uint y - uint radius)"
    and hi: "on_screen s (uint x + uint radius, uint y + uint radius)"
    and col: "unat col < 255"
  shows "\<exists>s' ps. prim_circle x y radius col s = Inr s' \<and> fb_frame s' = fb_frame s \<and>
    (\<forall>q. on_screen s q \<longrightarrow> pixel s' q = (if q \<in> set ps then palette ! unat col else pixel s q)) \<and>
    {(uint x + uint radius, uint y), (uint x - uint radius, uint y),
     (uint x, uint y + uint radius), (uint x, uint y - uint radius)} \<subseteq> set ps \<and>
    (\<forall>(a, b) \<in> set ps. (uint radius - 1)\<^sup>2 \<le> (a - uint x)\<^sup>2 + (b - uint y)\<^sup>2 \<and>
       (a - uint x)\<^sup>2 + (b - uint y)\<^sup>2 \<le> (uint radius + 1)\<^sup>2)"
proof -
  let ?r = "uint radius" and ?ps = "circle_points (uint x) (uint y) (uint radius)"
  have "int (unat radius) = ?r" by simp
  then have r': "0 \<le> ?r" "1 \<le> ?r" "?r \<le> 32767"
    using r by linarith+
  have "\<forall>q \<in> set ?ps. on_screen s q"
    using circle_points_box [OF r'(1,3)] lo hi by (fastforce simp: on_screen_def)
  then obtain s' where "plots (plot col) ?ps s = Inr s'" "fb_frame s' = fb_frame s"
    "\<And>q. on_screen s q \<Longrightarrow> pixel s' q = (if q \<in> set ?ps then palette ! unat col else pixel s q)"
    using plots_screen [OF ok _ col] by metis
  moreover have "(?r, 0) \<in> set (circle_walk ?r 0 (?r div 16))"
    using r' by (simp add: circle_walk.simps [of ?r])
  then have "set (octants (uint x) (uint y) (?r, 0)) \<subseteq> set ?ps"
    by (force simp: circle_points_def)
  ultimately show ?thesis
    using circle_points_near [OF r'(2,3)]
    by (intro exI [of _ s'] exI [of _ ?ps])
      (auto simp: prim_circle_plots [OF r(2)] octants_def power2_eq_square)
qed

text \<open>
  C3. The loop of \<^verbatim>\<open>fb_circle\<close> ends for every radius, whatever the screen.
\<close>

theorem circle_terminates: "prim_circle x y radius col s \<noteq> Inl Diverges"
proof (cases "unat radius \<le> 32767")
  case True
  have "plots (plot col) ps s \<noteq> Inl Diverges" for ps
    by (rule plots_not_diverges) (simp add: plot_def prim_point_not_diverges)
  then show ?thesis
    by (simp add: prim_circle_plots [OF True])
next
  case False
  then show ?thesis
    by (simp add: prim_circle_negative)
qed

text \<open>A circle of radius 10 around (30, 20) on the small screen.\<close>

theorem circle_draws_witness:
  "\<exists>s' ps. prim_circle 30 20 10 7 small_screen = Inr s' \<and> fb_frame s' = fb_frame small_screen \<and>
    (\<forall>q. on_screen small_screen q \<longrightarrow>
       pixel s' q = (if q \<in> set ps then palette ! unat (7 :: u8) else pixel small_screen q)) \<and>
    {(uint (30 :: u16) + uint (10 :: u16), uint (20 :: u16)),
     (uint (30 :: u16) - uint (10 :: u16), uint (20 :: u16)),
     (uint (30 :: u16), uint (20 :: u16) + uint (10 :: u16)),
     (uint (30 :: u16), uint (20 :: u16) - uint (10 :: u16))} \<subseteq> set ps \<and>
    (\<forall>(a, b) \<in> set ps. (uint (10 :: u16) - 1)\<^sup>2 \<le> (a - uint (30 :: u16))\<^sup>2 + (b - uint (20 :: u16))\<^sup>2 \<and>
       (a - uint (30 :: u16))\<^sup>2 + (b - uint (20 :: u16))\<^sup>2 \<le> (uint (10 :: u16) + 1)\<^sup>2)"
  by (rule circle_draws) simp_all

end
