(* ===== verification/Blocks.thy ===== *)
theory Blocks
  imports Canvas
begin

text \<open>
  What \<^verbatim>\<open>_block\<close> puts on the screen: the running pointer of its inner loop as a row of
  plotted points, and the filled rectangle.
\<close>

section \<open>Blocks\<close>

definition row_points :: "u16 \<Rightarrow> u16 \<Rightarrow> int \<Rightarrow> (int \<times> int) list" where
  "row_points x x2 y = map (\<lambda>a. (a, y)) [uint x..uint x2 - 1]"

lemma set_row_points: "set (row_points x x2 y) = {uint x..<uint x2} \<times> {y}"
  by (auto simp: row_points_def)

lemma row_points_step: "x < x2 \<Longrightarrow> row_points x x2 y = (uint x, y) # row_points (x + 1) x2 y"
  by (simp add: row_points_def upto_rec1 uint_plus1 word_less_alt)

lemma row_points_end: "\<not> x < x2 \<Longrightarrow> row_points x x2 y = []"
  by (simp add: row_points_def word_less_alt)

lemma plot_on_screen_frame:
  assumes "fb_ok s" "on_screen s p" "unat col < 255"
  obtains s' where "plot col p s = Inr s'" "fb_ok s'" "fb_frame s' = fb_frame s"
    "\<And>q. on_screen s' q = on_screen s q" "\<And>q. offset s' q = offset s q"
  by (rule that [OF plot_on_screen [OF assms]]) (use assms in simp_all)

text \<open>Storing at the running pointer of the inner loop is plotting the next point of the row.\<close>

lemma store_plot:
  assumes "fb_ok s" "on_screen s p" "unat col < 255"
  shows "fb_store16 (offset s p) (palette ! unat col) s = plot col p s"
  using offset_bound [OF assms(1,2)] plot_on_screen [OF assms] assms(1)
  by (simp add: fb_store16_def fb_access_def fb_ok_def)

lemma block_row_plots:
  fixes s :: "'a framebuffer_scheme"
  assumes col: "unat col < 255"
  shows "fb_ok s \<Longrightarrow> \<forall>p \<in> {uint x..<uint x2} \<times> {y}. on_screen s p \<Longrightarrow> px = offset s (uint x, y) \<Longrightarrow>
    block_row x x2 px (palette ! unat col) s = plots (plot col) (row_points x x2 y) s"
proof (induction x x2 px "palette ! unat col" s rule: block_row.induct)
  case (1 x x2 px s)
  show ?case
  proof (cases "x < x2")
    case False
    then show ?thesis
      by (simp add: block_row.simps row_points_end)
  next
    case True
    then have on: "on_screen s (uint x, y)"
      using "1.prems"(2) by (simp add: word_less_alt)
    obtain s1 where s1: "plot col (uint x, y) s = Inr s1" "fb_ok s1"
      "\<And>q. on_screen s1 q = on_screen s q" "\<And>q. offset s1 q = offset s q"
      using plot_on_screen_frame [OF "1.prems"(1) on col] by metis
    have "block_row (x + 1) x2 (px + 2) (palette ! unat col) s1 =
        plots (plot col) (row_points (x + 1) x2 y) s1"
      using True s1 "1.prems"(2,3) by (intro "1.hyps") (auto simp: uint_plus1 offset_right)
    then show ?thesis
      unfolding block_row.simps [of x x2 px _ s] row_points_step [OF True]
      using True s1 store_plot [OF "1.prems"(1) on col] by (simp add: "1.prems"(3))
  qed
qed

definition block_points :: "u16 \<Rightarrow> u16 \<Rightarrow> u16 \<Rightarrow> u16 \<Rightarrow> (int \<times> int) list" where
  "block_points x y x2 y2 = concat (map (row_points x x2) [uint y..uint y2 - 1])"

lemma set_block_points: "set (block_points x y x2 y2) = {uint x..<uint x2} \<times> {uint y..<uint y2}"
  by (auto simp: block_points_def set_row_points)

lemma block_rows_plots:
  fixes s :: "'a framebuffer_scheme"
  assumes col: "unat col < 255" and x: "x < x2"
  shows "fb_ok s \<Longrightarrow> \<forall>p \<in> {uint x..<uint x2} \<times> {uint y..<uint y2}. on_screen s p \<Longrightarrow>
    block_rows x y x2 y2 (palette ! unat col) s = plots (plot col) (block_points x y x2 y2) s"
  using x
proof (induction x y x2 y2 "palette ! unat col" s rule: block_rows.induct)
  case (1 x y x2 y2 s)
  show ?case
  proof (cases "y < y2")
    case False
    then show ?thesis
      by (simp add: block_rows.simps [of x y] block_points_def word_less_alt)
  next
    case True
    have pts: "block_points x y x2 y2 = row_points x x2 (uint y) @ block_points x (y + 1) x2 y2"
      using True by (simp add: block_points_def upto_rec1 uint_plus1 word_less_alt)
    have row: "\<forall>p \<in> {uint x..<uint x2} \<times> {uint y}. on_screen s p"
      using True "1.prems"(2) by (auto simp: word_less_alt)
    then have on: "on_screen s (uint x, uint y)"
      using "1.prems"(3) by (simp add: word_less_alt)
    have "unat (location s x y) = offset s (uint x, uint y)"
      using location_offset [OF "1.prems"(1) on] by simp
    from block_row_plots [OF col "1.prems"(1) row this]
    have first: "block_row x x2 (unat (location s x y)) (palette ! unat col) s =
      plots (plot col) (row_points x x2 (uint y)) s" .
    have "\<forall>p \<in> set (row_points x x2 (uint y)). on_screen s p"
      using row by (simp add: set_row_points)
    then obtain s1 where s1: "plots (plot col) (row_points x x2 (uint y)) s = Inr s1" "fb_ok s1"
      "\<And>q. on_screen s1 q = on_screen s q"
      using plots_screen [OF "1.prems"(1) _ col] by metis
    have "block_rows x (y + 1) x2 y2 (palette ! unat col) s1 =
        plots (plot col) (block_points x (y + 1) x2 y2) s1"
      using True first s1 "1.prems"(2,3) by (intro "1.hyps") (auto simp: uint_plus1)
    then show ?thesis
      unfolding block_rows.simps [of x y x2 y2 _ s] pts plots_append
      using True first s1 by simp
  qed
qed

text \<open>C33. 
  C4. \<^verbatim>\<open>_block\<close> with corners on the screen (the right and lower edge excluded) returns and
  fills exactly the rectangle between its corners, in whichever order they are given.
\<close>

theorem block_fills:
  assumes ok: "fb_ok s" and col: "unat col < 255"
    and edge: "max (uint x) (uint x2) \<le> uint (xres (screen_info s))"
      "max (uint y) (uint y2) \<le> uint (yres (screen_info s))"
  shows "\<exists>s'. prim_block x y x2 y2 col s = Inr s' \<and> fb_frame s' = fb_frame s \<and>
    (\<forall>a b. on_screen s (a, b) \<longrightarrow> pixel s' (a, b) =
       (if a \<in> {min (uint x) (uint x2)..<max (uint x) (uint x2)} \<and>
           b \<in> {min (uint y) (uint y2)..<max (uint y) (uint y2)}
        then palette ! unat col else pixel s (a, b)))"
proof (cases "x = x2 \<or> y = y2")
  case True
  then show ?thesis
    by (auto simp: prim_block_def)
next
  case False
  define l r t b where "l = min x x2" and "r = max x x2" and "t = min y y2" and "b = max y y2"
  have lr: "l < r"
    using False by (auto simp: l_def r_def min_def max_def)
  have sides: "uint l = min (uint x) (uint x2)" "uint r = max (uint x) (uint x2)"
      "uint t = min (uint y) (uint y2)" "uint b = max (uint y) (uint y2)"
    by (auto simp: l_def r_def t_def b_def min_def max_def word_le_def)
  have prim: "prim_block x y x2 y2 col s = block_rows l t r b (palette ! unat col) s"
    using False col by (auto simp: prim_block_def l_def r_def t_def b_def min_def max_def)
  have on: "\<forall>p \<in> {uint l..<uint r} \<times> {uint t..<uint b}. on_screen s p"
  proof
    fix p
    assume p: "p \<in> {uint l..<uint r} \<times> {uint t..<uint b}"
    have "uint r \<le> uint (xres (screen_info s))" "uint b \<le> uint (yres (screen_info s))"
      using edge by (simp_all only: sides)
    moreover have "0 \<le> fst p" "0 \<le> snd p"
      using p order_trans [OF uint_ge_0 [of l]] order_trans [OF uint_ge_0 [of t]] by auto
    ultimately show "on_screen s p"
      using p by (auto simp: on_screen_def)
  qed
  then have "\<forall>p \<in> set (block_points l t r b). on_screen s p"
    by (simp add: set_block_points)
  then obtain s' where "plots (plot col) (block_points l t r b) s = Inr s'" "fb_frame s' = fb_frame s"
    "\<And>q. on_screen s q \<Longrightarrow> pixel s' q =
       (if q \<in> set (block_points l t r b) then palette ! unat col else pixel s q)"
    using plots_screen [OF ok _ col] by metis
  then show ?thesis
    using block_rows_plots [OF col lr ok on]
    by (intro exI [of _ s']) (simp add: prim set_block_points sides)
qed

text \<open>A block between (10, 20) and (5, 4), corners in the order the caller chose.\<close>

theorem block_fills_witness:
  "\<exists>s'. prim_block 10 4 5 20 7 small_screen = Inr s' \<and> fb_frame s' = fb_frame small_screen \<and>
    (\<forall>a b. on_screen small_screen (a, b) \<longrightarrow> pixel s' (a, b) =
       (if a \<in> {min (uint (10 :: u16)) (uint (5 :: u16))..<max (uint (10 :: u16)) (uint (5 :: u16))} \<and>
           b \<in> {min (uint (4 :: u16)) (uint (20 :: u16))..<max (uint (4 :: u16)) (uint (20 :: u16))}
        then palette ! unat (7 :: u8) else pixel small_screen (a, b)))"
  by (rule block_fills) simp_all

end
