(* ===== verification/DrawFrame.thy ===== *)
theory DrawFrame
  imports Panning Circles Blocks
begin

text \<open>
  Frame conditions of the drawing primitives of \<^verbatim>\<open>src/src/fb.c\<close>, in any mode and for any
  arguments: whatever a primitive draws, the guest's memory and every other global are as
  they were.
\<close>

section \<open>Drawing changes nothing but the mapping\<close>

text \<open>Whatever the mode, a drawing primitive that returns has left the rest of the state alone.\<close>

definition same_frame :: "'a framebuffer_scheme \<Rightarrow> 'a framebuffer_scheme run \<Rightarrow> bool" where
  "same_frame s r \<longleftrightarrow> keeps (\<lambda>s'. fb_frame s' = fb_frame s) r"

lemma same_frame_Inr [simp]: "same_frame s (Inr s') \<longleftrightarrow> fb_frame s' = fb_frame s"
  by (simp add: same_frame_def)

lemma same_frame_Inl [simp]: "same_frame s (Inl e)"
  by (simp add: same_frame_def)

lemma same_frame_bind:
  "same_frame s r \<Longrightarrow> (\<And>s'. fb_frame s' = fb_frame s \<Longrightarrow> same_frame s' (f s')) \<Longrightarrow> same_frame s (bindR r f)"
  by (cases r) (auto simp: same_frame_def keeps_def split: sum.split)

lemma same_frame_trans: "fb_frame t = fb_frame s \<Longrightarrow> same_frame t r \<Longrightarrow> same_frame s r"
  by (simp add: same_frame_def)

lemma same_frame_bind_value: "(\<And>v. same_frame s (f v)) \<Longrightarrow> same_frame s (bindR r f)"
  by (cases r) simp_all

lemma same_frame_store16: "same_frame s (fb_store16 k w s)"
  unfolding fb_store16_def by (rule same_frame_bind_value) simp

lemma same_frame_memmove: "same_frame s (fb_memmove d k n s)"
  unfolding fb_memmove_def by (intro same_frame_bind_value) simp

lemma same_frame_point: "same_frame s (prim_point x y col s)"
  unfolding prim_point_def by (intro same_frame_bind_value same_frame_store16)

lemma same_frame_pointRGB: "same_frame s (prim_pointRGB x y r g b s)"
  unfolding prim_pointRGB_def Let_def by (rule same_frame_store16)

lemma same_frame_block_row: "same_frame s (block_row tmp x2 px w s)"
proof (induction tmp x2 px w s rule: block_row.induct)
  case (1 tmp x2 px w s)
  have "same_frame s (bindR (fb_store16 px w s) (\<lambda>s'. block_row (tmp + 1) x2 (px + 2) w s'))"
    if "tmp < x2"
    using 1 [OF that] by (intro same_frame_bind same_frame_store16)
  then show ?case
    by (subst block_row.simps) simp
qed

lemma same_frame_block_rows: "same_frame s (block_rows x y x2 y2 w s)"
proof (induction x y x2 y2 w s rule: block_rows.induct)
  case (1 x y x2 y2 w s)
  have "same_frame s (bindR (block_row x x2 (unat (location s x y)) w s)
          (\<lambda>s'. block_rows x (y + 1) x2 y2 w s'))" if "y < y2"
    using 1 [OF that] by (intro same_frame_bind same_frame_block_row)
  then show ?case
    by (subst block_rows.simps) simp
qed

lemma same_frame_block: "same_frame s (prim_block x y x2 y2 col s)"
  by (simp add: prim_block_def split_beta same_frame_bind_value same_frame_block_rows)


lemma same_frame_line_loop:
  "line_loop l e inc dec x col y i j s = Some r \<Longrightarrow> same_frame s r"
proof (rule line_loop.raw_induct [where P = "\<lambda>l e inc dec x col y i j. same_frame" and
    xa = "(((((((((l, e), inc), dec), x), col), y), i), j), s)", unfolded prod.case], goal_cases)
  case (1 loop l e inc dec x col y i j s r)
  show ?case
  proof (cases "i = e")
    case False
    let ?p = "prim_point (word_of_int (fst (line_pixel l x y i j)))
                  (word_of_int (snd (line_pixel l x y i j))) col s"
    have "same_frame s ?p"
      by (rule same_frame_point)
    with 1 False show ?thesis
      by (cases ?p) (auto intro: same_frame_trans)
  qed (use 1 in auto)
qed

lemma same_frame_loop: "(\<And>r'. r = Some r' \<Longrightarrow> same_frame s r') \<Longrightarrow> same_frame s (loop_result r)"
  by (cases r) (simp_all add: loop_result_def)

lemma same_frame_line: "same_frame s (prim_line x y x2 y2 col s)"
  unfolding prim_line_def Let_def split_beta by (rule same_frame_loop, erule same_frame_line_loop)

lemma same_frame_circle_octants: "same_frame s (circle_octants x y col xpos ypos s)"
  unfolding circle_octants_def Let_def by (intro same_frame_bind same_frame_point)

lemma same_frame_circle_loop:
  "circle_loop x y col xpos ypos t1 s = Some r \<Longrightarrow> same_frame s r"
proof (rule circle_loop.raw_induct [where P = "\<lambda>x y col xpos ypos t1. same_frame" and
    xa = "((((((x, y), col), xpos), ypos), t1), s)", unfolded prod.case], goal_cases)
  case (1 loop x y col xpos ypos t1 s r)
  note frame = same_frame_circle_octants [of s x y col xpos ypos]
  show ?case
  proof (cases "circle_octants x y col xpos ypos s")
    case (Inr s')
    with 1 frame show ?thesis
      by (auto simp: Let_def split: if_splits intro: same_frame_trans)
  next
    case (Inl e)
    from 1(3) have "r = Inl e \<or> r = Inr s"
      unfolding Inl by (simp split: if_splits)
    then show ?thesis
      by auto
  qed
qed

lemma same_frame_circle: "same_frame s (prim_circle x y radius col s)"
  unfolding prim_circle_def by (rule same_frame_loop, erule same_frame_circle_loop)

lemma same_frame_pan: "same_frame s (prim_pan d s)"
proof -
  have "same_frame s (bindR (fb_memmove a b n s) (prim_line x y x2 y2 col))" for a b n x y x2 y2 col
    by (intro same_frame_bind same_frame_memmove same_frame_line)
  then show ?thesis
    unfolding prim_pan_def Let_def by simp
qed

lemma same_frame_cls: "same_frame s (bindR (prim_cls s) (\<lambda>(_, s'). Inr s'))"
  by (simp add: prim_cls_def bindR_assoc same_frame_bind_value)

text \<open>What equal frames mean for each global the other components read.\<close>

lemma fb_frame_globals:
  assumes "fb_frame s' = fb_frame s"
  shows "mem s' = mem s" "himem1_index s' = himem1_index s" "himem2_index s' = himem2_index s"
    "himem1_page s' = himem1_page s" "himem2_page s' = himem2_page s"
    "io_write_top_handler s' = io_write_top_handler s" "io_read_top_handler s' = io_read_top_handler s"
    "trace s' = trace s" "errno s' = errno s"
    "background_color s' = background_color s" "brush_color s' = brush_color s"
    "p_cursor_x s' = p_cursor_x s" "p_cursor_y s' = p_cursor_y s"
    "p_cursor_base_x s' = p_cursor_base_x s" "p_cursor_base_y s' = p_cursor_base_y s"
  using arg_cong [OF assms, of mem] arg_cong [OF assms, of himem1_index]
    arg_cong [OF assms, of himem2_index] arg_cong [OF assms, of himem1_page]
    arg_cong [OF assms, of himem2_page] arg_cong [OF assms, of io_write_top_handler]
    arg_cong [OF assms, of io_read_top_handler] arg_cong [OF assms, of trace]
    arg_cong [OF assms, of errno] arg_cong [OF assms, of background_color]
    arg_cong [OF assms, of brush_color] arg_cong [OF assms, of p_cursor_x]
    arg_cong [OF assms, of p_cursor_y] arg_cong [OF assms, of p_cursor_base_x]
    arg_cong [OF assms, of p_cursor_base_y]
  by (simp_all add: fb_frame_def)

lemma same_frame_result: "same_frame s r \<Longrightarrow> r = Inr s' \<Longrightarrow> fb_frame s' = fb_frame s"
  by simp

end
