(* ===== verification/FbCalls.thy ===== *)
theory FbCalls
  imports DrawFrame
begin

text \<open>
  The outer half of \<^verbatim>\<open>src/src/fb.c\<close>: opening the device, the memory-mapped pixel cursor at
  0xFF00-0xFF0F, and the assist calls \<^verbatim>\<open>fb_point\<close>, \<^verbatim>\<open>fb_line\<close>, \<dots> that fetch their
  arguments from guest memory (opcodes of \<^verbatim>\<open>src/include/fb_calls.h\<close>).
\<close>

definition PI_FB :: u16 where "PI_FB = 0x0900"
definition PI_FB_INIT :: u16 where "PI_FB_INIT = 0x0901"
definition PI_FB_POINT :: u16 where "PI_FB_POINT = 0x0902"
definition PI_FB_POINTRGB :: u16 where "PI_FB_POINTRGB = 0x0903"
definition PI_FB_LINE :: u16 where "PI_FB_LINE = 0x0904"
definition PI_FB_CIRCLE :: u16 where "PI_FB_CIRCLE = 0x0905"
definition PI_FB_WAITFORVSYNC :: u16 where "PI_FB_WAITFORVSYNC = 0x0906"
definition PI_FB_CLS :: u16 where "PI_FB_CLS = 0x0907"
definition PI_FB_BLOCK :: u16 where "PI_FB_BLOCK = 0x0908"
definition PI_FB_MALLOC_SBUF :: u16 where "PI_FB_MALLOC_SBUF = 0x0909"

lemmas fb_opcodes = PI_FB_INIT_def PI_FB_POINT_def PI_FB_POINTRGB_def PI_FB_LINE_def
  PI_FB_CIRCLE_def PI_FB_WAITFORVSYNC_def PI_FB_CLS_def PI_FB_BLOCK_def PI_FB_MALLOC_SBUF_def

section \<open>The memory-mapped cursor\<close>

definition fb_mem_io_write ::
  "u16 \<Rightarrow> u8 \<Rightarrow> 'a framebuffer_scheme \<Rightarrow> 'a framebuffer_scheme run" where
  "fb_mem_io_write address data s =
     (let r = address AND 0xF in
      if r = 0x00 then
        let v = (p_cursor_base_x s AND 0xFF00) OR ucast data
        in Inr (s\<lparr>p_cursor_base_x := v, p_cursor_x := v\<rparr>)
      else if r = 0x01 then
        let v = (p_cursor_base_x s AND 0x00FF) OR push_bit 8 (ucast data)
        in Inr (s\<lparr>p_cursor_base_x := v, p_cursor_x := v\<rparr>)
      else if r = 0x02 then
        let v = (p_cursor_base_y s AND 0xFF00) OR ucast data
        in Inr (s\<lparr>p_cursor_base_y := v, p_cursor_y := v\<rparr>)
      else if r = 0x03 then
        let v = (p_cursor_base_y s AND 0x00FF) OR push_bit 8 (ucast data)
        in Inr (s\<lparr>p_cursor_base_y := v, p_cursor_y := v\<rparr>)
      else if r = 0x04 then prim_point (p_cursor_x s) (p_cursor_y s) data s
      else if r = 0x05 then
        prim_point (p_cursor_x s) (p_cursor_y s) data (s\<lparr>p_cursor_x := p_cursor_x s + 1\<rparr>)
      else if r = 0x06 then
        prim_point (p_cursor_x s) (p_cursor_y s) data (s\<lparr>p_cursor_y := p_cursor_y s + 1\<rparr>)
      else if r = 0x07 then
        prim_point (p_cursor_x s) (p_cursor_y s) data (s\<lparr>p_cursor_x := p_cursor_x s - 1\<rparr>)
      else if r = 0x08 then
        prim_point (p_cursor_x s) (p_cursor_y s) data (s\<lparr>p_cursor_y := p_cursor_y s - 1\<rparr>)
      else if r = 0x09 then
        let y = p_cursor_base_y s + 1
        in prim_point (p_cursor_base_x s) y data
             (s\<lparr>p_cursor_base_y := y, p_cursor_x := p_cursor_base_x s, p_cursor_y := y\<rparr>)
      else if r = 0x0A then
        let x = p_cursor_base_x s + 1
        in prim_point x (p_cursor_base_y s) data
             (s\<lparr>p_cursor_base_x := x, p_cursor_x := x, p_cursor_y := p_cursor_base_y s\<rparr>)
      else if r = 0x0B then prim_pan data s
      else if r = 0x0E then Inr (s\<lparr>brush_color := data\<rparr>)
      else if r = 0x0F then Inr (s\<lparr>background_color := data\<rparr>)
      else Inr s)"

definition fb_mem_io_write_1 :: "u16 \<Rightarrow> u8 \<Rightarrow> 'a framebuffer_scheme \<Rightarrow> 'a framebuffer_scheme" where
  "fb_mem_io_write_1 address data s = s"

definition fb_mem_io_read :: "'a framebuffer_scheme \<Rightarrow> u16 \<Rightarrow> u8" where
  "fb_mem_io_read s address =
     (let r = address AND 0xF in
      if r = 0x00 then ucast (xres (screen_info s) AND 0xFF)
      else if r = 0x01 then ucast (drop_bit 8 (xres (screen_info s)) AND 0xFF)
      else if r = 0x02 then ucast (yres (screen_info s) AND 0xFF)
      else if r = 0x03 then ucast (drop_bit 8 (yres (screen_info s)) AND 0xFF)
      else 255)"

section \<open>Opening the device\<close>

text \<open>
  The common failure path of \<^verbatim>\<open>fb_init\<close>: a mapping left by an earlier call is removed, but
  \<^verbatim>\<open>fbbuffer\<close> and the handlers stay as they are.
\<close>

definition fb_init_fail :: "host \<Rightarrow> string \<Rightarrow> 'a framebuffer_scheme \<Rightarrow> int \<times> 'a framebuffer_scheme" where
  "fb_init_fail H msg s =
     (let s1 = snd (syscall H (Log msg) s);
          s2 = (if fbbuffer s1 = Mapped \<or> fbbuffer s1 = Unmapped
                then (snd (syscall H (Munmap_fb (fbbuflen s1)) s1))\<lparr>fbbuffer := Unmapped\<rparr> else s1);
          s3 = (if 0 \<le> fbfd s2 then snd (syscall H (Close_fb (fbfd s2)) s2) else s2)
      in (1, s3))"

text \<open>After a successful ioctl the kernel has filled \<^verbatim>\<open>screen_info\<close>, \<^verbatim>\<open>fixed_info\<close>.\<close>

definition get_vscreeninfo :: "host \<Rightarrow> 'a framebuffer_scheme \<Rightarrow> bool \<times> 'a framebuffer_scheme" where
  "get_vscreeninfo H s =
     (let (r, s1) = syscall H Ioctl_vscreeninfo s
      in if os_ret r = 0 then (True, s1\<lparr>screen_info := os_vscreen H (trace s)\<rparr>) else (False, s1))"

definition get_fscreeninfo :: "host \<Rightarrow> 'a framebuffer_scheme \<Rightarrow> bool \<times> 'a framebuffer_scheme" where
  "get_fscreeninfo H s =
     (let (r, s1) = syscall H Ioctl_fscreeninfo s
      in if os_ret r = 0 then (True, s1\<lparr>line_length := os_fscreen H (trace s)\<rparr>) else (False, s1))"

definition map_fb :: "host \<Rightarrow> 'a framebuffer_scheme \<Rightarrow> 'a framebuffer_scheme" where
  "map_fb H s =
     (let n = yres_virtual (screen_info s) * line_length s;
          (r, s1) = syscall H (Mmap_fb n) (s\<lparr>fbbuflen := n\<rparr>)
      in if os_ret r = -1 then s1\<lparr>fbbuffer := Map_failed\<rparr>
         else s1\<lparr>fbbuffer := Mapped, fbmem := os_screen H (trace s)\<rparr>)"

definition fb_init :: "host \<Rightarrow> 'a framebuffer_scheme \<Rightarrow> int \<times> 'a framebuffer_scheme" where
  "fb_init H s =
     (let (r, s0) = syscall H Open_fb s; s1 = s0\<lparr>fbfd := os_ret r\<rparr>
      in if 0 \<le> fbfd s1 then
           let (ok1, s2) = get_vscreeninfo H s1
           in if \<not> ok1 then fb_init_fail H ''ioctl failed'' s2
              else let (ok2, s3) = get_fscreeninfo H s2
                   in if \<not> ok2 then fb_init_fail H ''ioctl failed'' s3
                      else let s4 = map_fb H s3
                           in if fbbuffer s4 \<noteq> Map_failed then
                                (0, s4\<lparr>io_write_top_handler := (io_write_top_handler s4)
                                         (0 := Some Fb_mem_io_write, 1 := Some Fb_mem_io_write_1),
                                       io_read_top_handler := (io_read_top_handler s4)
                                         (0 := Some Fb_mem_io_read)\<rparr>)
                              else fb_init_fail H ''mmap failed'' s4
         else fb_init_fail H ''open failed'' s1)"

definition fb_wait_vsync :: "host \<Rightarrow> 'a framebuffer_scheme \<Rightarrow> u8 \<times> 'a framebuffer_scheme" where
  "fb_wait_vsync H s =
     (let (r, s1) = syscall H (Ioctl_vsync (fbfd s)) s
      in if os_ret r = -1 then (0, snd (syscall H (Log ''fb ioctl failed'') s1)) else (0, s1))"

section \<open>Assist calls\<close>

definition fb_pointRGB :: "u16 \<Rightarrow> 'a framebuffer_scheme \<Rightarrow> (u8 \<times> 'a framebuffer_scheme) run" where
  "fb_pointRGB addr s =
     (let sys = ld16 s (addr + 2); x = ld16 s sys; y = ld16 s (sys + 2);
          r = ld8 s (sys + 4); g = ld8 s (sys + 6); b = ld8 s (sys + 8)
      in bindR (prim_pointRGB x y r g b s) (\<lambda>s'. Inr (0, s')))"

definition fb_point :: "u16 \<Rightarrow> 'a framebuffer_scheme \<Rightarrow> (u8 \<times> 'a framebuffer_scheme) run" where
  "fb_point addr s =
     (let sys = ld16 s (addr + 2); x = ld16 s sys; y = ld16 s (sys + 2); col = ld8 s (sys + 4)
      in bindR (prim_point x y col s) (\<lambda>s'. Inr (0, s')))"

definition fb_line :: "u16 \<Rightarrow> 'a framebuffer_scheme \<Rightarrow> (u8 \<times> 'a framebuffer_scheme) run" where
  "fb_line addr s =
     (let sys = ld16 s (addr + 2); x = ld16 s sys; y = ld16 s (sys + 2);
          x1 = ld16 s (sys + 4); y1 = ld16 s (sys + 6); col = ld8 s (sys + 8)
      in bindR (prim_line (uint x) (uint y) (uint x1) (uint y1) col s) (\<lambda>s'. Inr (0, s')))"

definition fb_circle :: "u16 \<Rightarrow> 'a framebuffer_scheme \<Rightarrow> (u8 \<times> 'a framebuffer_scheme) run" where
  "fb_circle addr s =
     (let sys = ld16 s (addr + 2); x = ld16 s sys; y = ld16 s (sys + 2);
          radius = ld16 s (sys + 4); col = ld8 s (sys + 6)
      in bindR (prim_circle x y radius col s) (\<lambda>s'. Inr (0, s')))"

definition fb_cls :: "u16 \<Rightarrow> 'a framebuffer_scheme \<Rightarrow> (u8 \<times> 'a framebuffer_scheme) run" where
  "fb_cls addr s = bindR (prim_cls s) (\<lambda>(_, s'). Inr (0, s'))"

definition fb_block :: "u16 \<Rightarrow> 'a framebuffer_scheme \<Rightarrow> (u8 \<times> 'a framebuffer_scheme) run" where
  "fb_block addr s =
     (let sys = ld16 s (addr + 2); x = ld16 s sys; y = ld16 s (sys + 2);
          x1 = ld16 s (sys + 4); y1 = ld16 s (sys + 6); col = ld8 s (sys + 8)
      in bindR (prim_block x y x1 y1 col s) (\<lambda>s'. Inr (0, s')))"

definition fb_malloc_sbuf :: "host \<Rightarrow> u16 \<Rightarrow> 'a framebuffer_scheme \<Rightarrow> u8 \<times> 'a framebuffer_scheme" where
  "fb_malloc_sbuf H addr s =
     (let sys = ld16 s (addr + 2); width = ld16 s sys; height = ld16 s (sys + 2);
          (r, s1) = syscall H (Malloc (int32 (uint width * uint height))) s
      in (if os_ret r = 0 then 0xff else 0, s1\<lparr>stencil_buf := (os_ret r \<noteq> 0)\<rparr>))"

definition sync_fb_assist :: "host \<Rightarrow> 'a framebuffer_scheme \<Rightarrow> (u8 \<times> 'a framebuffer_scheme) run" where
  "sync_fb_assist H s =
     (let addr = ld16 s 0xFFF8; data = ld16 s addr in
      if data = PI_FB_INIT then (let (r, s1) = fb_init H s in Inr (word_of_int r, s1))
      else if data = PI_FB_POINT then fb_point addr s
      else if data = PI_FB_POINTRGB then fb_pointRGB addr s
      else if data = PI_FB_LINE then fb_line addr s
      else if data = PI_FB_CIRCLE then fb_circle addr s
      else if data = PI_FB_WAITFORVSYNC then Inr (fb_wait_vsync H s)
      else if data = PI_FB_CLS then fb_cls addr s
      else if data = PI_FB_BLOCK then fb_block addr s
      else if data = PI_FB_MALLOC_SBUF then Inr (fb_malloc_sbuf H addr s)
      else Inr (255, s))"

definition async_fb_assist :: "host \<Rightarrow> u16 \<Rightarrow> 'a framebuffer_scheme \<Rightarrow> 'a framebuffer_scheme" where
  "async_fb_assist H addr s =
     (let data = ld16 s addr in if data = PI_FB_INIT then snd (fb_init H s) else s)"

section \<open>Frame of the calls\<close>

text \<open>What the guest can observe of its own memory: the block, the banking and the handlers.\<close>

definition same_memory :: "'a memory_scheme \<Rightarrow> 'b memory_scheme \<Rightarrow> bool" where
  "same_memory s s' \<longleftrightarrow> mem s' = mem s \<and> himem1_index s' = himem1_index s \<and>
     himem2_index s' = himem2_index s \<and> himem1_page s' = himem1_page s \<and>
     himem2_page s' = himem2_page s \<and> io_write_top_handler s' = io_write_top_handler s \<and>
     io_read_top_handler s' = io_read_top_handler s"

lemma same_memory_refl [simp]: "same_memory s s"
  by (simp add: same_memory_def)

lemma same_memory_frame: "fb_frame s' = fb_frame s \<Longrightarrow> same_memory s s'"
  unfolding same_memory_def by (intro conjI fb_frame_globals)

lemma same_memory_trans: "same_memory s t \<Longrightarrow> same_memory t u \<Longrightarrow> same_memory s u"
  by (simp add: same_memory_def)

lemma same_memory_indexed: "same_memory s s' \<Longrightarrow> indexed s' = indexed s"
  by (simp add: same_memory_def indexed_def)

lemma keeps_memory: "same_frame t r \<Longrightarrow> same_memory s t \<Longrightarrow> keeps (same_memory s) r"
  by (cases r) (simp_all add: same_memory_trans [OF _ same_memory_frame])

lemma fb_write_memory: "keeps (same_memory s) (fb_mem_io_write address data s)"
  unfolding fb_mem_io_write_def Let_def
  by (auto simp: same_memory_def intro!: keeps_memory same_frame_point same_frame_pan)

lemma keeps_call:
  "same_frame s r \<Longrightarrow> keeps (\<lambda>(v, s'). same_memory s s') (bindR r (\<lambda>s'. Inr (v, s')))"
  by (cases r) (simp_all add: same_memory_frame)

lemma keeps_cls: "keeps (\<lambda>(v, s'). same_memory s s') (fb_cls addr s)"
  using same_frame_cls [of s] unfolding fb_cls_def prim_cls_def
  by (auto simp: bindR_def fb_access_def same_memory_frame split: sum.split fbptr.split)

lemma fb_calls_memory:
  "keeps (\<lambda>(v, s'). same_memory s s') (fb_point addr s)"
  "keeps (\<lambda>(v, s'). same_memory s s') (fb_pointRGB addr s)"
  "keeps (\<lambda>(v, s'). same_memory s s') (fb_line addr s)"
  "keeps (\<lambda>(v, s'). same_memory s s') (fb_circle addr s)"
  "keeps (\<lambda>(v, s'). same_memory s s') (fb_block addr s)"
  unfolding fb_point_def fb_pointRGB_def fb_line_def fb_circle_def fb_block_def Let_def
  by (intro keeps_call same_frame_point same_frame_pointRGB same_frame_line same_frame_circle
      same_frame_block)+

lemma syscall_memory [simp]:
  "mem (snd (syscall H e s)) = mem s" "himem1_index (snd (syscall H e s)) = himem1_index s"
  "himem2_index (snd (syscall H e s)) = himem2_index s"
  "himem1_page (snd (syscall H e s)) = himem1_page s"
  "himem2_page (snd (syscall H e s)) = himem2_page s"
  "io_write_top_handler (snd (syscall H e s)) = io_write_top_handler s"
  "io_read_top_handler (snd (syscall H e s)) = io_read_top_handler s"
  by (simp_all add: syscall_def Let_def)

lemma fb_init_fail_memory [simp]: "same_memory s (snd (fb_init_fail H msg s))"
  by (simp add: fb_init_fail_def Let_def same_memory_def)

definition same_ram :: "'a memory_scheme \<Rightarrow> 'b memory_scheme \<Rightarrow> bool" where
  "same_ram s s' \<longleftrightarrow> mem s' = mem s \<and> himem1_index s' = himem1_index s \<and>
     himem2_index s' = himem2_index s \<and> himem1_page s' = himem1_page s \<and>
     himem2_page s' = himem2_page s"

lemma same_ram_refl [simp]: "same_ram s s"
  by (simp add: same_ram_def)

lemma same_memory_ram: "same_memory s s' \<Longrightarrow> same_ram s s'"
  by (simp add: same_memory_def same_ram_def)

lemma same_ram_trans: "same_ram s t \<Longrightarrow> same_ram t u \<Longrightarrow> same_ram s u"
  by (simp add: same_ram_def)

lemma same_ram_indexed: "same_ram s s' \<Longrightarrow> indexed s' = indexed s"
  by (simp add: same_ram_def indexed_def)

lemma same_ram_mem_base: "same_ram s s' \<Longrightarrow> mem_base s' a = mem_base s a"
  by (simp add: same_ram_def mem_base_def himem1_at_def himem2_at_def split: mem_handler.split)

lemma same_ram_screeninfo:
  "same_ram s (snd (get_vscreeninfo H s))" "same_ram s (snd (get_fscreeninfo H s))"
  by (simp_all add: get_vscreeninfo_def get_fscreeninfo_def Let_def split_beta same_ram_def)

lemma same_ram_map_fb: "same_ram s (map_fb H s)"
  by (simp add: map_fb_def Let_def split_beta same_ram_def)

lemma same_ram_syscall: "same_ram s (snd (syscall H e s))"
  by (simp add: same_ram_def)

lemma same_ram_updates:
  "same_ram s (t\<lparr>fbfd := x\<rparr>) = same_ram s t"
  "same_ram s (t\<lparr>io_write_top_handler := w, io_read_top_handler := r\<rparr>) = same_ram s t"
  by (simp_all add: same_ram_def)

lemma fb_init_ram: "same_ram s (snd (fb_init H s))"
proof -
  define s1 where "s1 = (snd (syscall H Open_fb s))\<lparr>fbfd := os_ret (fst (syscall H Open_fb s))\<rparr>"
  define s2 where "s2 = snd (get_vscreeninfo H s1)"
  define s3 where "s3 = snd (get_fscreeninfo H s2)"
  define s4 where "s4 = map_fb H s3"
  have 1: "same_ram s s1"
    unfolding s1_def by (simp add: same_ram_updates same_ram_syscall del: fst_syscall)
  have 2: "same_ram s s2"
    using same_ram_trans [OF 1 same_ram_screeninfo(1)] by (simp add: s2_def)
  have 3: "same_ram s s3"
    using same_ram_trans [OF 2 same_ram_screeninfo(2)] by (simp add: s3_def)
  have 4: "same_ram s s4"
    using same_ram_trans [OF 3 same_ram_map_fb] by (simp add: s4_def)
  have fail: "same_ram s t \<Longrightarrow> same_ram s (snd (fb_init_fail H msg t))" for t msg
    by (rule same_ram_trans [OF _ same_memory_ram [OF fb_init_fail_memory]])
  show ?thesis
    unfolding fb_init_def Let_def split_beta s1_def [symmetric] s2_def [symmetric]
      s3_def [symmetric] s4_def [symmetric]
    using fail [OF 1] fail [OF 2] fail [OF 3] fail [OF 4] 4
    by (simp add: same_ram_updates)
qed

lemma fb_wait_vsync_memory: "same_memory s (snd (fb_wait_vsync H s))"
  by (simp add: fb_wait_vsync_def Let_def split_beta same_memory_def)

lemma fb_malloc_sbuf_memory: "same_memory s (snd (fb_malloc_sbuf H addr s))"
  by (simp add: fb_malloc_sbuf_def Let_def split_beta same_memory_def)

lemma keeps_weaken: "keeps P r \<Longrightarrow> (\<And>x. P x \<Longrightarrow> Q x) \<Longrightarrow> keeps Q r"
  by (cases r) simp_all

lemma sync_fb_ram: "keeps (\<lambda>(v, s'). same_ram s s') (sync_fb_assist H s)"
proof -
  have calls: "keeps (\<lambda>(v, s'). same_ram s s') r" if "keeps (\<lambda>(v, s'). same_memory s s') r" for r :: "('b \<times> 'a framebuffer_scheme) run"
    using that by (rule keeps_weaken) (auto intro: same_memory_ram)
  show ?thesis
    using fb_init_ram [of s H] same_memory_ram [OF fb_wait_vsync_memory [of s H]]
      same_memory_ram [OF fb_malloc_sbuf_memory [of s H]]
    by (auto simp: sync_fb_assist_def Let_def split_beta intro!: calls fb_calls_memory keeps_cls)
qed

section \<open>Screen size and pixel cursor\<close>

lemma ucast_AND_ff: "ucast (w AND 0xFF) = (ucast (w :: u32) :: u8)"
proof (rule bit_word_eqI)
  fix n assume "n < LENGTH(8)"
  moreover have "bit (0xFF :: u32) n \<longleftrightarrow> n < 8"
  proof -
    have "(0xFF :: u32) = mask 8"
      by (simp add: mask_eq_exp_minus_1)
    then show ?thesis
      by (simp only: bit_mask_iff) auto
  qed
  ultimately show "bit (ucast (w AND 0xFF) :: u8) n = bit (ucast w :: u8) n"
    by (simp add: bit_simps)
qed

lemma reassemble16: "u16_of (ucast (w AND 0xFF)) (ucast (drop_bit 8 w AND 0xFF)) = ucast (w :: u32)"
  unfolding ucast_AND_ff u16_of_def
  by (rule bit_word_eqI) (auto simp: bit_simps)

text \<open>The guest reads the screen's width and height from 0xFF00-0xFF03, low byte first; the
  other registers of the block read 255.\<close>

theorem screen_size_registers:
  "u16_of (fb_mem_io_read s 0xFF00) (fb_mem_io_read s 0xFF01) = ucast (xres (screen_info s)) \<and>
   u16_of (fb_mem_io_read s 0xFF02) (fb_mem_io_read s 0xFF03) = ucast (yres (screen_info s)) \<and>
   (\<forall>r \<in> {0xFF04..0xFF0F}. fb_mem_io_read s r = 255)"
proof -
  have "(\<forall>r \<in> {0xFF04..0xFF0F}. fb_mem_io_read s r = 255)"
  proof
    fix r :: u16 assume "r \<in> {0xFF04..0xFF0F}"
    then have "r \<in> {0xFF04, 0xFF05, 0xFF06, 0xFF07, 0xFF08, 0xFF09, 0xFF0A, 0xFF0B, 0xFF0C, 0xFF0D,
        0xFF0E, 0xFF0F}"
      unfolding insert_iff empty_iff word_uint_eq_iff atLeastAtMost_iff word_le_def by simp presburger
    then show "fb_mem_io_read s r = 255"
      by (auto simp: fb_mem_io_read_def)
  qed
  then show ?thesis
    by (simp add: fb_mem_io_read_def reassemble16)
qed

text \<open>A guest program's stores to the block, in order.\<close>

definition fb_stores :: "(u16 \<times> u8) list \<Rightarrow> 'a framebuffer_scheme \<Rightarrow> 'a framebuffer_scheme run" where
  "fb_stores = plots (\<lambda>(a, v). fb_mem_io_write a v)"

lemma fb_stores_simps [simp]:
  "fb_stores [] s = Inr s"
  "fb_stores ((a, v) # ws) s = bindR (fb_mem_io_write a v s) (fb_stores ws)"
  by (simp_all add: fb_stores_def)

lemma u16_two_halves:
  "(((v AND 0xFF00) OR ucast l) AND 0x00FF) OR push_bit 8 (ucast h) = u16_of l h"
proof (rule bit_word_eqI)
  fix n assume n: "n < LENGTH(16)"
  have ff: "bit (0xFF :: u16) n \<longleftrightarrow> n < 8"
  proof -
    have "(0xFF :: u16) = mask 8" by (simp add: mask_eq_exp_minus_1)
    then show ?thesis by (simp only: bit_mask_iff) auto
  qed
  have ff00: "bit (0xFF00 :: u16) n \<longleftrightarrow> 8 \<le> n"
  proof -
    have "(0xFF00 :: u16) = push_bit 8 (mask 8)" by (simp add: mask_eq_exp_minus_1)
    then show ?thesis using n by (simp only: bit_push_bit_iff bit_mask_iff) auto
  qed
  show "bit ((((v AND 0xFF00) OR ucast l) AND 0x00FF) OR push_bit 8 (ucast h)) n = bit (u16_of l h) n"
    using n ff ff00 by (auto simp: u16_of_def bit_simps dest: bit_imp_le_length)
qed

lemma cursor_set:
  "fb_stores [(0xFF00, lo8 x), (0xFF01, hi8 x), (0xFF02, lo8 y), (0xFF03, hi8 y)] s =
     Inr (s\<lparr>p_cursor_base_x := x, p_cursor_x := x, p_cursor_base_y := y, p_cursor_y := y\<rparr>)"
  by (simp add: fb_mem_io_write_def u16_two_halves Let_def)

lemma fb_ok_cursor [simp]:
  "fb_ok (s\<lparr>p_cursor_x := a\<rparr>) = fb_ok s"
  "fb_ok (s\<lparr>p_cursor_base_x := a, p_cursor_x := b, p_cursor_base_y := c, p_cursor_y := d\<rparr>) = fb_ok s"
  by (simp_all add: fb_ok_def)

lemma on_screen_cursor [simp]:
  "on_screen (s\<lparr>p_cursor_x := a\<rparr>) p = on_screen s p"
  "on_screen (s\<lparr>p_cursor_base_x := a, p_cursor_x := b, p_cursor_base_y := c, p_cursor_y := d\<rparr>) p = on_screen s p"
  by (simp_all add: on_screen_def)

lemma pixel_cursor [simp]:
  "pixel (s\<lparr>p_cursor_x := a\<rparr>) p = pixel s p"
  "pixel (s\<lparr>p_cursor_base_x := a, p_cursor_x := b, p_cursor_base_y := c, p_cursor_y := d\<rparr>) p = pixel s p"
  by (simp_all add: pixel_def offset_def)

lemma cursor_write_right:
  assumes ok: "fb_ok s" and on: "on_screen s (uint (p_cursor_x s), uint (p_cursor_y s))"
    and c: "unat c < 255"
  obtains s' where "fb_mem_io_write 0xFF05 c s = Inr s'" "fb_ok s'" "p_cursor_x s' = p_cursor_x s + 1"
    "p_cursor_y s' = p_cursor_y s" "\<And>q. on_screen s' q = on_screen s q"
    "\<And>q. on_screen s q \<Longrightarrow> pixel s' q =
       (if q = (uint (p_cursor_x s), uint (p_cursor_y s)) then palette ! unat c else pixel s q)"
proof -
  let ?t = "s\<lparr>p_cursor_x := p_cursor_x s + 1\<rparr>" and ?p = "(uint (p_cursor_x s), uint (p_cursor_y s))"
  let ?s' = "?t\<lparr>fbmem := (fbmem ?t)(offset ?t ?p := lo8 (palette ! unat c),
     Suc (offset ?t ?p) := hi8 (palette ! unat c))\<rparr>"
  have ok': "fb_ok ?t" and on': "on_screen ?t ?p"
    using ok on by simp_all
  have "plot c ?p ?t = Inr ?s'"
    by (rule plot_on_screen [OF ok' on' c])
  then have "fb_mem_io_write 0xFF05 c s = Inr ?s'"
    by (simp add: fb_mem_io_write_def plot_def)
  moreover have "pixel ?s' q = (if q = ?p then palette ! unat c else pixel s q)" if "on_screen s q" for q
    using pixel_store [OF ok' on', of q "palette ! unat c"] that by simp
  ultimately show thesis
    using ok by (intro that [of ?s']) simp_all
qed

lemma cursor_stores_right:
  "fb_ok s \<Longrightarrow> \<forall>k < length cs. on_screen s (uint (p_cursor_x s) + int k, uint (p_cursor_y s)) \<Longrightarrow>
     \<forall>c \<in> set cs. unat c < 255 \<Longrightarrow>
     \<exists>s'. fb_stores (map (Pair 0xFF05) cs) s = Inr s' \<and> p_cursor_x s' = p_cursor_x s + of_nat (length cs) \<and>
       p_cursor_y s' = p_cursor_y s \<and>
       (\<forall>q. on_screen s q \<longrightarrow> pixel s' q =
          (if snd q = uint (p_cursor_y s) \<and> uint (p_cursor_x s) \<le> fst q \<and>
              fst q < uint (p_cursor_x s) + int (length cs)
           then palette ! unat (cs ! nat (fst q - uint (p_cursor_x s))) else pixel s q))"
proof (induction cs arbitrary: s)
  case Nil
  then show ?case by auto
next
  case (Cons c cs)
  let ?x = "p_cursor_x s" and ?y = "p_cursor_y s"
  have on: "on_screen s (uint ?x, uint ?y)"
    using Cons.prems(2) by (drule_tac spec [of _ 0]) simp
  obtain s1 where s1: "fb_mem_io_write 0xFF05 c s = Inr s1" "fb_ok s1" "p_cursor_x s1 = ?x + 1"
    "p_cursor_y s1 = ?y" "\<And>q. on_screen s1 q = on_screen s q"
    "\<And>q. on_screen s q \<Longrightarrow> pixel s1 q = (if q = (uint ?x, uint ?y) then palette ! unat c else pixel s q)"
    using cursor_write_right [OF Cons.prems(1) on, of c] Cons.prems(3) by auto
  have "unat ?x < 32768"
    using fb_okD(3) [OF Cons.prems(1)] on_screen_nat [OF on] by simp
  moreover have "int (unat ?x) = uint ?x"
    by simp
  ultimately have "uint ?x < 32768"
    by linarith
  then have step: "uint (?x + 1) = uint ?x + 1"
    using uint_add_small [of ?x 1] by simp
  have "\<forall>k < length cs. on_screen s1 (uint (p_cursor_x s1) + int k, uint (p_cursor_y s1))"
  proof (intro allI impI)
    fix k assume "k < length cs"
    then show "on_screen s1 (uint (p_cursor_x s1) + int k, uint (p_cursor_y s1))"
      using Cons.prems(2) [rule_format, of "Suc k"] by (simp add: s1 step add.assoc)
  qed
  from Cons.IH [OF s1(2) this] Cons.prems(3) obtain s2 where
    s2: "fb_stores (map (Pair 0xFF05) cs) s1 = Inr s2" "p_cursor_x s2 = ?x + 1 + of_nat (length cs)"
      "p_cursor_y s2 = ?y"
      "\<forall>q. on_screen s q \<longrightarrow> pixel s2 q = (if snd q = uint ?y \<and> uint ?x + 1 \<le> fst q \<and>
         fst q < uint ?x + 1 + int (length cs)
       then palette ! unat (cs ! nat (fst q - (uint ?x + 1))) else pixel s1 q)"
    by (auto simp: s1 step)
  have "pixel s2 q = (if snd q = uint ?y \<and> uint ?x \<le> fst q \<and> fst q < uint ?x + int (length (c # cs))
       then palette ! unat ((c # cs) ! nat (fst q - uint ?x)) else pixel s q)" if q: "on_screen s q" for q
  proof (cases "snd q = uint ?y \<and> uint ?x + 1 \<le> fst q \<and> fst q < uint ?x + 1 + int (length cs)")
    case True
    then have "nat (fst q - uint ?x) = Suc (nat (fst q - (uint ?x + 1)))"
      by linarith
    with True s2(4) [rule_format, OF q] show ?thesis
      by simp
  next
    case False
    then have "pixel s2 q = (if q = (uint ?x, uint ?y) then palette ! unat c else pixel s q)"
      using s2(4) [rule_format, OF q] s1(6) [OF q] by (simp only: if_False)
    with False show ?thesis
      by (cases q) auto
  qed
  with s1(1) s2 show ?case
    by (intro exI [of _ s2]) (simp add: add.assoc)
qed

text \<open>C37. Setting the cursor through 0xFF00-0xFF03 and storing a run of colours to 0xFF05 draws
  them as a row from that position rightwards, advances the cursor past it, and changes no
  other pixel.\<close>

theorem cursor_row:
  assumes "fb_ok s" "\<forall>k < length cs. on_screen s (uint x + int k, uint y)" "\<forall>c \<in> set cs. unat c < 255"
  shows "\<exists>s'. fb_stores ([(0xFF00, lo8 x), (0xFF01, hi8 x), (0xFF02, lo8 y), (0xFF03, hi8 y)] @
         map (Pair 0xFF05) cs) s = Inr s' \<and>
       p_cursor_x s' = x + of_nat (length cs) \<and> p_cursor_y s' = y \<and>
       (\<forall>a b. on_screen s (a, b) \<longrightarrow> pixel s' (a, b) =
          (if b = uint y \<and> uint x \<le> a \<and> a < uint x + int (length cs)
           then palette ! unat (cs ! nat (a - uint x)) else pixel s (a, b)))"
proof -
  let ?t = "s\<lparr>p_cursor_base_x := x, p_cursor_x := x, p_cursor_base_y := y, p_cursor_y := y\<rparr>"
  have "fb_stores ([(0xFF00, lo8 x), (0xFF01, hi8 x), (0xFF02, lo8 y), (0xFF03, hi8 y)] @
         map (Pair 0xFF05) cs) s = fb_stores (map (Pair 0xFF05) cs) ?t"
    by (simp only: fb_stores_def plots_append) (simp only: fb_stores_def [symmetric] cursor_set bindR_Inr)
  then show ?thesis
    using cursor_stores_right [of ?t cs] assms by auto
qed

theorem cursor_row_witness:
  "\<exists>s'. fb_stores ([(0xFF00, lo8 3), (0xFF01, hi8 3), (0xFF02, lo8 5), (0xFF03, hi8 5)] @
         map (Pair 0xFF05) [7, 8]) small_screen = Inr s' \<and>
       p_cursor_x s' = 3 + of_nat (length [7 :: u8, 8]) \<and> p_cursor_y s' = 5 \<and>
       (\<forall>a b. on_screen small_screen (a, b) \<longrightarrow> pixel s' (a, b) =
          (if b = uint (5 :: u16) \<and> uint (3 :: u16) \<le> a \<and> a < uint (3 :: u16) + int (length [7 :: u8, 8])
           then palette ! unat ([7, 8 :: u8] ! nat (a - uint (3 :: u16))) else pixel small_screen (a, b)))"
  by (rule cursor_row) auto

section \<open>Opening and reopening the device\<close>

text \<open>
  A host with a usable screen: the device opens, both ioctls and the mapping succeed, and the
  mode is 16 bits per pixel with lines that hold a row and a mapping that fits 32 bits.
\<close>

definition fb_device :: "host \<Rightarrow> bool" where
  "fb_device H \<longleftrightarrow> (\<forall>tr. 0 \<le> os_ret (os_call H tr Open_fb) \<and>
     os_ret (os_call H tr Ioctl_vscreeninfo) = 0 \<and> os_ret (os_call H tr Ioctl_fscreeninfo) = 0 \<and>
     (\<forall>n. os_ret (os_call H tr (Mmap_fb n)) \<noteq> -1)) \<and>
   (\<forall>tr tr'. let v = os_vscreen H tr; len = unat (os_fscreen H tr') in
     bits_per_pixel v = 16 \<and> 2 * unat (xres v) \<le> len \<and> unat (yres v) \<le> unat (yres_virtual v) \<and>
     unat (yres_virtual v) * len < 2 ^ 32 \<and> unat (xres v) \<le> 32768 \<and> unat (yres v) \<le> 32768)"

lemma syscall_fb [simp]:
  "screen_info (snd (syscall H e s)) = screen_info s" "line_length (snd (syscall H e s)) = line_length s"
  "fbbuflen (snd (syscall H e s)) = fbbuflen s" "fbbuffer (snd (syscall H e s)) = fbbuffer s"
  "fbfd (snd (syscall H e s)) = fbfd s"
  by (simp_all add: syscall_def Let_def emit_def)

lemma map_fb_ok:
  assumes "fb_device H" "screen_info s = os_vscreen H tr" "line_length s = os_fscreen H tr'"
  shows "fb_ok (map_fb H s)"
  using assms unfolding fb_device_def Let_def map_fb_def split_beta
  by (simp add: fb_ok_def)

lemma fb_init_device:
  assumes dev: "fb_device H"
  shows "\<exists>s3. fb_init H s = (0, (map_fb H s3)\<lparr>io_write_top_handler :=
      (io_write_top_handler (map_fb H s3))(0 := Some Fb_mem_io_write, 1 := Some Fb_mem_io_write_1),
      io_read_top_handler := (io_read_top_handler (map_fb H s3))(0 := Some Fb_mem_io_read)\<rparr>) \<and>
    fb_ok (map_fb H s3)"
proof -
  define s1 where "s1 = (snd (syscall H Open_fb s))\<lparr>fbfd := os_ret (os_call H (trace s) Open_fb)\<rparr>"
  define s2 where "s2 = (snd (syscall H Ioctl_vscreeninfo s1))\<lparr>screen_info := os_vscreen H (trace s1)\<rparr>"
  define s3 where "s3 = (snd (syscall H Ioctl_fscreeninfo s2))\<lparr>line_length := os_fscreen H (trace s2)\<rparr>"
  have open_ok: "0 \<le> os_ret (os_call H (trace s) Open_fb)"
    using dev by (simp add: fb_device_def)
  then have fd: "0 \<le> fbfd s1"
    by (simp add: s1_def)
  have v: "get_vscreeninfo H s1 = (True, s2)"
    using dev by (simp add: get_vscreeninfo_def s2_def split_beta fb_device_def)
  have f: "get_fscreeninfo H s2 = (True, s3)"
    using dev by (simp add: get_fscreeninfo_def s3_def split_beta fb_device_def)
  have ok: "fb_ok (map_fb H s3)"
    using dev by (rule map_fb_ok) (simp_all add: s3_def s2_def)
  have "(case syscall H Open_fb s of (r, s0) \<Rightarrow> s0\<lparr>fbfd := os_ret r\<rparr>) = s1"
    by (simp add: s1_def split_beta)
  moreover have "fbbuffer (map_fb H s3) \<noteq> Map_failed"
    using ok by (simp add: fb_ok_def)
  ultimately show ?thesis
    using open_ok fd ok by (intro exI [of _ s3]) (simp add: fb_init_def split_beta Let_def v f)
qed

text \<open>On such a host \<^verbatim>\<open>fb_init\<close> returns 0, leaves a state in which drawing is safe, and
  installs the cursor registers in the top page.\<close>

theorem fb_init_succeeds:
  assumes "fb_device H"
  shows "\<exists>s'. fb_init H s = (0, s') \<and> fb_ok s' \<and> same_ram s s' \<and>
    io_write_top_handler s' 0 = Some Fb_mem_io_write \<and>
    io_write_top_handler s' 1 = Some Fb_mem_io_write_1 \<and>
    io_read_top_handler s' 0 = Some Fb_mem_io_read"
proof -
  obtain s3 where init: "fb_init H s = (0, (map_fb H s3)\<lparr>io_write_top_handler :=
      (io_write_top_handler (map_fb H s3))(0 := Some Fb_mem_io_write, 1 := Some Fb_mem_io_write_1),
      io_read_top_handler := (io_read_top_handler (map_fb H s3))(0 := Some Fb_mem_io_read)\<rparr>)"
    and ok: "fb_ok (map_fb H s3)"
    using fb_init_device [OF assms] by blast
  have "same_ram s (snd (fb_init H s))"
    by (rule fb_init_ram)
  then show ?thesis
    using ok by (simp add: init fb_ok_def same_ram_def)
qed

theorem fb_init_succeeds_witness:
  "\<exists>s'. fb_init null_host small_screen = (0, s') \<and> fb_ok s' \<and> same_ram small_screen s' \<and>
    io_write_top_handler s' 0 = Some Fb_mem_io_write \<and>
    io_write_top_handler s' 1 = Some Fb_mem_io_write_1 \<and>
    io_read_top_handler s' 0 = Some Fb_mem_io_read"
  by (rule fb_init_succeeds) (simp add: fb_device_def null_host_def)

text \<open>A second \<^verbatim>\<open>fb_init\<close> that cannot open the device removes the mapping of the first
  but keeps the pointer and the handlers: the next pixel is a store to unmapped memory.\<close>

theorem fb_reinit_dangles:
  assumes "fbbuffer s = Mapped" "\<forall>tr. os_ret (os_call H tr Open_fb) < 0" "unat col < 255"
  shows "\<exists>s'. fb_init H s = (1, s') \<and> io_write_top_handler s' = io_write_top_handler s \<and>
    prim_point x y col s' = Inl (Undefined BadPointer)"
proof -
  have fail: "\<not> 0 \<le> os_ret (os_call H (trace s) Open_fb)"
    using assms(2) by (simp add: not_le)
  have "fst (fb_init H s) = 1" "io_write_top_handler (snd (fb_init H s)) = io_write_top_handler s"
    "fbbuffer (snd (fb_init H s)) = Unmapped"
    using assms(1) fail by (simp_all add: fb_init_def fb_init_fail_def split_beta Let_def)
  moreover from this(3) have "prim_point x y col (snd (fb_init H s)) = Inl (Undefined BadPointer)"
    using assms(3) by (simp add: prim_point_def fb_store16_def fb_access_def)
  ultimately show ?thesis
    by (intro exI [of _ "snd (fb_init H s)"]) (simp add: prod_eq_iff)
qed

theorem fb_reinit_dangles_witness:
  "\<exists>s'. fb_init (null_host\<lparr>os_call := (\<lambda>tr e. \<lparr>os_ret = -1, os_errno = Some 2, os_data = []\<rparr>)\<rparr>) small_screen =
      (1, s') \<and> io_write_top_handler s' = io_write_top_handler small_screen \<and>
    prim_point 1 1 7 s' = Inl (Undefined BadPointer)"
  by (rule fb_reinit_dangles) (simp_all add: small_screen_def)

end
