(* ===== verification/Mailbox.thy ===== *)
theory Mailbox
  imports FbCalls
begin

text \<open>
  The mailboxes (\<^verbatim>\<open>src/src/mbox.c\<close>, \<^verbatim>\<open>src/include/mbox_calls.h\<close>): four address registers
  at 0xFFF0-0xFFF7, each with a host thread that a store to its high byte signals. The four
  copies \<^verbatim>\<open>mbox0_stopped\<close>, \dots, \<^verbatim>\<open>mbox3_addr\<close> of each variable are a function of the
  mailbox number. The threads run beside the processor loop: their interleavings with guest
  stores are the step relation \<open>mbox_step\<close>.
\<close>

definition PI_MBOX :: u16 where "PI_MBOX = 0x0200"
definition PI_MBOX_INIT :: u16 where "PI_MBOX_INIT = 0x0201"

section \<open>State\<close>

text \<open>
  Where the thread of a mailbox is: not created, about to set its flag, or in \<^verbatim>\<open>sigwait\<close>.
  \<open>sig_pending\<close> is the kernel's pending \<^verbatim>\<open>SIGUSR1\<close> of the thread; a standard signal that
  is already pending is not queued a second time.
\<close>

datatype thread_pc = Absent | Entry | Waiting

record mailbox = framebuffer +
  mbox_stopped :: "nat \<Rightarrow> u16"
  mbox_addr :: "nat \<Rightarrow> u16"
  thread_pc :: "nat \<Rightarrow> thread_pc"
  sig_pending :: "nat \<Rightarrow> bool"

section \<open>The registers\<close>

definition pthread_kill :: "host \<Rightarrow> nat \<Rightarrow> 'a mailbox_scheme \<Rightarrow> 'a mailbox_scheme" where
  "pthread_kill H n s =
     (let (r, s1) = syscall H (Pthread_kill n) s
      in if os_ret r = 0 then s1\<lparr>sig_pending := (sig_pending s1)(n := True)\<rparr> else s1)"

definition mbox_store_low :: "nat \<Rightarrow> u8 \<Rightarrow> 'a mailbox_scheme \<Rightarrow> 'a mailbox_scheme" where
  "mbox_store_low n data s =
     (if mbox_stopped s n \<noteq> 0
      then s\<lparr>mbox_addr := (mbox_addr s)(n := (mbox_addr s n AND 0xff00) OR ucast data)\<rparr>
      else s)"

definition mbox_store_high :: "host \<Rightarrow> nat \<Rightarrow> u8 \<Rightarrow> 'a mailbox_scheme \<Rightarrow> 'a mailbox_scheme" where
  "mbox_store_high H n data s =
     (if mbox_stopped s n \<noteq> 0
      then pthread_kill H n (s\<lparr>mbox_addr := (mbox_addr s)
             (n := (mbox_addr s n AND 0x00ff) OR push_bit 8 (ucast data))\<rparr>)
      else s)"

definition mbox_mem_io_write :: "host \<Rightarrow> u16 \<Rightarrow> u8 \<Rightarrow> 'a mailbox_scheme \<Rightarrow> 'a mailbox_scheme" where
  "mbox_mem_io_write H address data s =
     (let r = address AND 0xF in
      if r = 0x00 then mbox_store_low 0 data s
      else if r = 0x01 then mbox_store_high H 0 data s
      else if r = 0x02 then mbox_store_low 1 data s
      else if r = 0x03 then mbox_store_high H 1 data s
      else if r = 0x04 then mbox_store_low 2 data s
      else if r = 0x05 then mbox_store_high H 2 data s
      else if r = 0x06 then mbox_store_low 3 data s
      else if r = 0x07 then mbox_store_high H 3 data s
      else s)"

definition mbox_mem_io_read :: "'a mailbox_scheme \<Rightarrow> u16 \<Rightarrow> u8" where
  "mbox_mem_io_read s address =
     (let r = address AND 0xF in
      if r = 0x00 then lo8 (mbox_addr s 0) else if r = 0x01 then hi8 (mbox_addr s 0)
      else if r = 0x02 then lo8 (mbox_addr s 1) else if r = 0x03 then hi8 (mbox_addr s 1)
      else if r = 0x04 then lo8 (mbox_addr s 2) else if r = 0x05 then hi8 (mbox_addr s 2)
      else if r = 0x06 then lo8 (mbox_addr s 3) else if r = 0x07 then hi8 (mbox_addr s 3)
      else 255)"

text \<open>The dispatcher for asynchronous calls; nothing in the sources calls it.\<close>

definition async_call_dispatcher :: "host \<Rightarrow> u16 \<Rightarrow> 'a mailbox_scheme \<Rightarrow> 'a mailbox_scheme" where
  "async_call_dispatcher H addr s =
     (let data = ld16 s addr in
      if data AND 0xFF00 = PI_FB then async_fb_assist H addr s
      else if data AND 0xFF00 = PI_MMU then async_mmu_assist addr s
      else s)"

section \<open>The threads\<close>

text \<open>\<^verbatim>\<open>mbox_thread0\<close> \dots \<^verbatim>\<open>mbox_thread3\<close>: one turn of the endless loop in two steps.\<close>

definition mbox_thread_stop :: "nat \<Rightarrow> 'a mailbox_scheme \<Rightarrow> 'a mailbox_scheme" where
  "mbox_thread_stop n s =
     s\<lparr>mbox_stopped := (mbox_stopped s)(n := 1), thread_pc := (thread_pc s)(n := Waiting)\<rparr>"

definition woke_up :: "nat \<Rightarrow> event" where
  "woke_up n = Log ([''thread0 woke up.'', ''thread1 woke up.'', ''thread2 woke up.'', ''thread3 woke up.''] ! n)"

definition mbox_thread_wake :: "host \<Rightarrow> nat \<Rightarrow> 'a mailbox_scheme \<Rightarrow> 'a mailbox_scheme" where
  "mbox_thread_wake H n s =
     snd (syscall H (woke_up n) (s\<lparr>sig_pending := (sig_pending s)(n := False),
       thread_pc := (thread_pc s)(n := Entry)\<rparr>))"

section \<open>Starting the threads\<close>

definition pthread_create :: "host \<Rightarrow> nat \<Rightarrow> 'a mailbox_scheme \<Rightarrow> bool \<times> 'a mailbox_scheme" where
  "pthread_create H n s =
     (let (r, s1) = syscall H (Pthread_create n) s
      in if os_ret r = 0
         then (True, s1\<lparr>thread_pc := (thread_pc s1)(n := Entry), sig_pending := (sig_pending s1)(n := False)\<rparr>)
         else (False, s1))"

fun create_threads :: "host \<Rightarrow> nat list \<Rightarrow> 'a mailbox_scheme \<Rightarrow> bool \<times> 'a mailbox_scheme" where
  "create_threads H [] s = (True, s)"
| "create_threads H (n # ns) s =
     (let (ok, s1) = pthread_create H n s
      in if ok then create_threads H ns s1
         else (False, snd (syscall H (Log ([''thread 0 create failed'', ''thread 1 create failed'',
                 ''thread 2 create failed'', ''thread 3 create failed''] ! n)) s1)))"

text \<open>
  \<^verbatim>\<open>while(!mbox0_stopped);\<close>: a runnable thread gets to run, so the loop ends after the
  thread's first step; without one it spins for ever.
\<close>

definition await_stopped :: "nat \<Rightarrow> 'a mailbox_scheme \<Rightarrow> 'a mailbox_scheme run" where
  "await_stopped n s =
     (if mbox_stopped s n \<noteq> 0 then Inr s
      else if thread_pc s n = Entry then Inr (mbox_thread_stop n s)
      else Inl Diverges)"

definition mbox_init :: "host \<Rightarrow> 'a mailbox_scheme \<Rightarrow> (int \<times> 'a mailbox_scheme) run" where
  "mbox_init H s =
     (let s1 = snd (syscall H (Log ''mbox_init()'') s);
          s2 = s1\<lparr>io_write_top_handler := (io_write_top_handler s1)(0xF := Some Mbox_mem_io_write),
                  io_read_top_handler := (io_read_top_handler s1)(0xF := Some Mbox_mem_io_read)\<rparr>;
          (ok, s3) = create_threads H [0, 1, 2, 3] s2
      in if \<not> ok then Inr (-1, s3)
         else bindR (await_stopped 0 s3) (\<lambda>s.
              bindR (await_stopped 1 s) (\<lambda>s.
              bindR (await_stopped 2 s) (\<lambda>s.
              bindR (await_stopped 3 s) (\<lambda>s.
              Inr (0, snd (syscall H (Log ''mbox threads created'') s)))))))"

definition sync_mbox_assist :: "host \<Rightarrow> 'a mailbox_scheme \<Rightarrow> (u8 \<times> 'a mailbox_scheme) run" where
  "sync_mbox_assist H s =
     (let addr = ld16 s 0xFFF8; data = ld16 s addr
      in if data = PI_MBOX_INIT then bindR (mbox_init H s) (\<lambda>(r, s'). Inr (word_of_int r, s'))
         else Inr (255, s))"

section \<open>Interleaving\<close>

text \<open>What the four threads can do next, and what can happen to the mailboxes at all.\<close>

inductive thread_step :: "host \<Rightarrow> 'a mailbox_scheme \<Rightarrow> 'a mailbox_scheme \<Rightarrow> bool" for H where
  thread_stops: "n < 4 \<Longrightarrow> thread_pc s n = Entry \<Longrightarrow> thread_step H s (mbox_thread_stop n s)"
| thread_wakes: "n < 4 \<Longrightarrow> thread_pc s n = Waiting \<Longrightarrow> sig_pending s n \<Longrightarrow>
    thread_step H s (mbox_thread_wake H n s)"

inductive mbox_step :: "host \<Rightarrow> 'a mailbox_scheme \<Rightarrow> 'a mailbox_scheme \<Rightarrow> bool" for H where
  threads: "thread_step H s s' \<Longrightarrow> mbox_step H s s'"
| guest_stores: "mbox_step H s (mbox_mem_io_write H a v s)"

inductive_cases thread_stepE: "thread_step H s s'"
inductive_cases mbox_stepE: "mbox_step H s s'"

text \<open>A relation that every step respects is respected by every run.\<close>

lemma mbox_run_induct:
  assumes "(mbox_step H)\<^sup>*\<^sup>* s s'" "P s"
    and "\<And>s n. n < 4 \<Longrightarrow> thread_pc s n = Entry \<Longrightarrow> P s \<Longrightarrow> P (mbox_thread_stop n s)"
    and "\<And>s n. n < 4 \<Longrightarrow> thread_pc s n = Waiting \<Longrightarrow> sig_pending s n \<Longrightarrow> P s \<Longrightarrow> P (mbox_thread_wake H n s)"
    and "\<And>s n v. n < 4 \<Longrightarrow> mbox_stopped s n \<noteq> 0 \<Longrightarrow> P s \<Longrightarrow> P (s\<lparr>mbox_addr := (mbox_addr s)(n := v)\<rparr>)"
    and "\<And>s n. n < 4 \<Longrightarrow> mbox_stopped s n \<noteq> 0 \<Longrightarrow> P s \<Longrightarrow> P (pthread_kill H n s)"
  shows "P s'"
  using assms(1,2)
proof (induction rule: rtranclp_induct)
  case (step s1 s2)
  then have "P s1" by blast
  have low: "n < 4 \<Longrightarrow> P (mbox_store_low n v s1)" for n v
    using assms(5) \<open>P s1\<close> by (simp add: mbox_store_low_def)
  have high: "n < 4 \<Longrightarrow> P (mbox_store_high H n v s1)" for n v
    using assms(5,6) \<open>P s1\<close> by (simp add: mbox_store_high_def)
  from step(2) show ?case
  proof (rule mbox_stepE)
    assume "thread_step H s1 s2"
    then show "P s2"
      using assms(3,4) \<open>P s1\<close> by (auto elim!: thread_stepE)
  next
    fix a v assume "s2 = mbox_mem_io_write H a v s1"
    then show "P s2"
      using low high \<open>P s1\<close> by (simp add: mbox_mem_io_write_def Let_def)
  qed
qed simp

section \<open>What the threads and registers do\<close>

lemma pthread_kill_simps [simp]:
  "mbox_stopped (pthread_kill H n s) = mbox_stopped s"
  "mbox_addr (pthread_kill H n s) = mbox_addr s"
  "thread_pc (pthread_kill H n s) = thread_pc s"
  "fbmem (pthread_kill H n s) = fbmem s"
  by (simp_all add: pthread_kill_def split_beta Let_def syscall_def emit_def)

lemma pthread_kill_memory: "same_memory s (pthread_kill H n s)"
  by (simp add: pthread_kill_def split_beta Let_def same_memory_def)

lemma mbox_thread_wake_simps [simp]:
  "mbox_stopped (mbox_thread_wake H n s) = mbox_stopped s"
  "mbox_addr (mbox_thread_wake H n s) = mbox_addr s"
  "thread_pc (mbox_thread_wake H n s) = (thread_pc s)(n := Entry)"
  "sig_pending (mbox_thread_wake H n s) = (sig_pending s)(n := False)"
  "fbmem (mbox_thread_wake H n s) = fbmem s"
  by (simp_all add: mbox_thread_wake_def Let_def syscall_def emit_def)

lemma mbox_thread_wake_memory: "same_memory s (mbox_thread_wake H n s)"
  by (simp add: mbox_thread_wake_def same_memory_def)

lemma mbox_thread_stop_simps [simp]:
  "mbox_stopped (mbox_thread_stop n s) = (mbox_stopped s)(n := 1)"
  "mbox_addr (mbox_thread_stop n s) = mbox_addr s"
  "sig_pending (mbox_thread_stop n s) = sig_pending s"
  "fbmem (mbox_thread_stop n s) = fbmem s"
  "trace (mbox_thread_stop n s) = trace s"
  by (simp_all add: mbox_thread_stop_def)

lemma mbox_thread_stop_memory: "same_memory s (mbox_thread_stop n s)"
  by (simp add: mbox_thread_stop_def same_memory_def)

lemma same_memory_mbox [simp]:
  "same_memory s (mbox_thread_stop n t) = same_memory s t"
  "same_memory s (mbox_thread_wake H n t) = same_memory s t"
  "same_memory s (pthread_kill H n t) = same_memory s t"
  "same_memory s (t\<lparr>mbox_addr := v\<rparr>) = same_memory s t"
  using mbox_thread_stop_memory [of t n] mbox_thread_wake_memory [of t H n]
    pthread_kill_memory [of t H n] by (simp_all add: same_memory_def)

text \<open>The mailboxes accept stores: every thread has set its flag once.\<close>

definition mbox_ready :: "'a mailbox_scheme \<Rightarrow> bool" where
  "mbox_ready s \<longleftrightarrow> (\<forall>n < 4. mbox_stopped s n \<noteq> 0)"

lemma mbox_ready_run: "(mbox_step H)\<^sup>*\<^sup>* s s' \<Longrightarrow> mbox_ready s \<Longrightarrow> mbox_ready s'"
  by (erule mbox_run_induct) (auto simp: mbox_ready_def)

text \<open>Once a mailbox thread has announced that it sleeps, its flag is set for good: no
  interleaving of threads and guest stores ever makes a mailbox refuse a store again, and
  none of them touches the guest's memory or the screen. A signalled thread only prints.\<close>

theorem mailboxes_inert:
  assumes run: "(mbox_step H)\<^sup>*\<^sup>* s s'" and n: "n < 4" and stopped: "mbox_stopped s n \<noteq> 0"
  shows "mbox_stopped s' n \<noteq> 0 \<and> same_memory s s' \<and> fbmem s' = fbmem s"
proof (rule mbox_run_induct [OF run, of "\<lambda>t. mbox_stopped t n \<noteq> 0 \<and> same_memory s t \<and> fbmem t = fbmem s"])
  show "mbox_stopped s n \<noteq> 0 \<and> same_memory s s \<and> fbmem s = fbmem s"
    using stopped by simp
qed auto

definition kills :: "nat \<Rightarrow> 'a mailbox_scheme \<Rightarrow> nat" where
  "kills n s = count_list (trace s) (Pthread_kill n)"

definition wakes :: "nat \<Rightarrow> 'a mailbox_scheme \<Rightarrow> nat" where
  "wakes n s = count_list (trace s) (woke_up n)"

lemma woke_up_apart [simp]: "m < 4 \<Longrightarrow> n < 4 \<Longrightarrow> woke_up m = woke_up n \<longleftrightarrow> m = n"
proof -
  have four: "k < 4 \<longleftrightarrow> k = 0 \<or> k = 1 \<or> k = 2 \<or> k = 3" for k :: nat
    by auto
  show "m < 4 \<Longrightarrow> n < 4 \<Longrightarrow> woke_up m = woke_up n \<longleftrightarrow> m = n"
    unfolding four woke_up_def by auto
qed

lemma woke_up_not_kill [simp]: "woke_up m \<noteq> Pthread_kill n" "Pthread_kill n \<noteq> woke_up m"
  by (simp_all add: woke_up_def)

lemma trace_pthread_kill [simp]: "trace (pthread_kill H n s) = Pthread_kill n # trace s"
  by (simp add: pthread_kill_def split_beta Let_def)

lemma sig_pending_pthread_kill:
  "sig_pending (pthread_kill H n s) m \<longrightarrow> m = n \<or> sig_pending s m"
  by (simp add: pthread_kill_def split_beta Let_def syscall_def emit_def)

lemma trace_mbox_thread_wake [simp]: "trace (mbox_thread_wake H n s) = woke_up n # trace s"
  by (simp add: mbox_thread_wake_def)

text \<open>No spurious wake-ups: in every run a thread wakes at most once per signal sent to it;
  signals sent before it runs are merged, so it may wake less often.\<close>

theorem wakes_bounded:
  assumes run: "(mbox_step H)\<^sup>*\<^sup>* s s'" and n: "n < 4"
  shows "wakes n s' + kills n s + of_bool (sig_pending s' n) \<le>
         kills n s' + wakes n s + of_bool (sig_pending s n)"
proof (rule mbox_run_induct [OF run, of "\<lambda>t. wakes n t + kills n s + of_bool (sig_pending t n) \<le>
         kills n t + wakes n s + of_bool (sig_pending s n)"])
  fix t m
  assume "wakes n t + kills n s + of_bool (sig_pending t n) \<le> kills n t + wakes n s + of_bool (sig_pending s n)"
  then show "wakes n (pthread_kill H m t) + kills n s + of_bool (sig_pending (pthread_kill H m t) n) \<le>
      kills n (pthread_kill H m t) + wakes n s + of_bool (sig_pending s n)"
    using sig_pending_pthread_kill [of H m t n] by (auto simp: wakes_def kills_def)
qed (use n in \<open>auto simp: wakes_def kills_def\<close>)

section \<open>Delivery\<close>

definition mbox_reg :: "nat \<Rightarrow> u16" where
  "mbox_reg k = 0xFFF0 + of_nat k"

lemma thread_steps_addr:
  "(thread_step H)\<^sup>*\<^sup>* s s' \<Longrightarrow> mbox_ready s \<Longrightarrow> mbox_addr s' = mbox_addr s \<and> mbox_ready s'"
  by (induction rule: rtranclp_induct) (auto simp: mbox_ready_def elim!: thread_stepE split: if_splits)

lemma mbox_write_reg:
  "n < 4 \<Longrightarrow> mbox_mem_io_write H (mbox_reg (2 * n)) v s = mbox_store_low n v s"
  "n < 4 \<Longrightarrow> mbox_mem_io_write H (mbox_reg (Suc (2 * n))) v s = mbox_store_high H n v s"
  "n < 4 \<Longrightarrow> mbox_mem_io_read s (mbox_reg (2 * n)) = lo8 (mbox_addr s n)"
  "n < 4 \<Longrightarrow> mbox_mem_io_read s (mbox_reg (Suc (2 * n))) = hi8 (mbox_addr s n)"
proof -
  have four: "k < 4 \<longleftrightarrow> k = 0 \<or> k = 1 \<or> k = 2 \<or> k = 3" for k :: nat
    by auto
  show "n < 4 \<Longrightarrow> mbox_mem_io_write H (mbox_reg (2 * n)) v s = mbox_store_low n v s"
    "n < 4 \<Longrightarrow> mbox_mem_io_write H (mbox_reg (Suc (2 * n))) v s = mbox_store_high H n v s"
    "n < 4 \<Longrightarrow> mbox_mem_io_read s (mbox_reg (2 * n)) = lo8 (mbox_addr s n)"
    "n < 4 \<Longrightarrow> mbox_mem_io_read s (mbox_reg (Suc (2 * n))) = hi8 (mbox_addr s n)"
    unfolding four by (auto simp: mbox_reg_def mbox_mem_io_write_def mbox_mem_io_read_def Let_def)
qed

text \<open>C8. An address stored to a mailbox, low byte then high byte, reads back from its
  registers whatever the threads do in between and afterwards, leaves the other mailboxes
  alone, and signals exactly that mailbox's thread.\<close>

theorem mailbox_delivery:
  assumes ready: "mbox_ready s" and n: "n < 4"
    and t1: "(thread_step H)\<^sup>*\<^sup>* (mbox_mem_io_write H (mbox_reg (2 * n)) (lo8 a) s) s1"
    and t2: "(thread_step H)\<^sup>*\<^sup>* (mbox_mem_io_write H (mbox_reg (2 * n + 1)) (hi8 a) s1) s2"
  shows "u16_of (mbox_mem_io_read s2 (mbox_reg (2 * n))) (mbox_mem_io_read s2 (mbox_reg (2 * n + 1))) = a \<and>
    (\<forall>m < 4. m \<noteq> n \<longrightarrow> mbox_addr s2 m = mbox_addr s m) \<and>
    Pthread_kill n \<in> set (trace (mbox_mem_io_write H (mbox_reg (2 * n + 1)) (hi8 a) s1))"
proof -
  have on: "mbox_stopped s n \<noteq> 0"
    using ready n by (simp add: mbox_ready_def)
  have "mbox_ready (mbox_mem_io_write H (mbox_reg (2 * n)) (lo8 a) s)"
    using mbox_ready_run [OF r_into_rtranclp, OF guest_stores ready] .
  from thread_steps_addr [OF t1 this] have s1: "mbox_ready s1"
    "mbox_addr s1 = (mbox_addr s)(n := (mbox_addr s n AND 0xff00) OR ucast (lo8 a))"
    using on by (simp_all add: mbox_write_reg [OF n] mbox_store_low_def)
  have on1: "mbox_stopped s1 n \<noteq> 0"
    using s1(1) n by (simp add: mbox_ready_def)
  have "mbox_ready (mbox_mem_io_write H (mbox_reg (2 * n + 1)) (hi8 a) s1)"
    using mbox_ready_run [OF r_into_rtranclp, OF guest_stores s1(1)] .
  from thread_steps_addr [OF t2 this] have "mbox_addr s2 = (mbox_addr s)(n := a)"
    using on1 by (simp add: mbox_write_reg [OF n] mbox_store_high_def s1(2) u16_two_halves)
  then show ?thesis
    using on1 by (simp add: mbox_write_reg [OF n] mbox_store_high_def)
qed

section \<open>Initialisation\<close>

lemma syscall_mbox [simp]:
  "mbox_stopped (snd (syscall H e s)) = mbox_stopped s" "thread_pc (snd (syscall H e s)) = thread_pc s"
  "mbox_addr (snd (syscall H e s)) = mbox_addr s" "sig_pending (snd (syscall H e s)) = sig_pending s"
  by (simp_all add: syscall_def Let_def emit_def)

text \<open>A host on which threads can be created.\<close>

definition threads_available :: "host \<Rightarrow> bool" where
  "threads_available H \<longleftrightarrow> (\<forall>tr n. os_ret (os_call H tr (Pthread_create n)) = 0)"

lemma create_threads_ok:
  "threads_available H \<Longrightarrow> fst (create_threads H ns s) \<and>
     (let t = snd (create_threads H ns s) in
      (\<forall>n \<in> set ns. thread_pc t n = Entry) \<and> (\<forall>n. thread_pc s n = Entry \<longrightarrow> thread_pc t n = Entry) \<and>
      mbox_stopped t = mbox_stopped s \<and> same_memory s t)"
proof (induction ns arbitrary: s)
  case (Cons n ns)
  let ?t = "snd (pthread_create H n s)"
  have "os_ret (os_call H (trace s) (Pthread_create n)) = 0"
    using Cons.prems by (simp add: threads_available_def)
  then have "fst (pthread_create H n s)" "thread_pc ?t = (thread_pc s)(n := Entry)"
    "mbox_stopped ?t = mbox_stopped s" "same_memory s ?t"
    by (simp_all add: pthread_create_def split_beta Let_def same_memory_def)
  with Cons.IH [OF Cons.prems, of ?t] show ?case
    by (auto simp: split_beta Let_def intro: same_memory_trans)
qed simp

lemma await_stopped_ok:
  assumes "thread_pc s n = Entry"
  obtains t where "await_stopped n s = Inr t" "mbox_stopped t n \<noteq> 0"
    "\<And>m. m \<noteq> n \<Longrightarrow> thread_pc t m = thread_pc s m" "\<And>m. mbox_stopped s m \<noteq> 0 \<Longrightarrow> mbox_stopped t m \<noteq> 0"
    "same_memory s t"
proof (cases "mbox_stopped s n \<noteq> 0")
  case True
  then show thesis
    using that [of s] by (simp add: await_stopped_def)
next
  case False
  then show thesis
    using assms that [of "mbox_thread_stop n s"]
    by (simp add: await_stopped_def mbox_thread_stop_def same_memory_def)
qed

text \<open>Where threads can be created, \<^verbatim>\<open>mbox_init\<close> ends: its busy-waits find every thread
  asleep, all four mailboxes are ready, and the registers are installed at 0xFFF0.\<close>

theorem mbox_init_returns:
  assumes "threads_available H"
  shows "\<exists>s'. mbox_init H s = Inr (0, s') \<and> mbox_ready s' \<and> same_ram s s' \<and>
    io_write_top_handler s' 0xF = Some Mbox_mem_io_write \<and>
    io_read_top_handler s' 0xF = Some Mbox_mem_io_read"
proof -
  define s1 where "s1 = snd (syscall H (Log ''mbox_init()'') s)"
  define s2 where "s2 = s1\<lparr>io_write_top_handler := (io_write_top_handler s1)(0xF := Some Mbox_mem_io_write),
      io_read_top_handler := (io_read_top_handler s1)(0xF := Some Mbox_mem_io_read)\<rparr>"
  define t where "t = snd (create_threads H [0, 1, 2, 3] s2)"
  have created: "create_threads H [0, 1, 2, 3] s2 = (True, t)"
    and pc: "thread_pc t 0 = Entry" "thread_pc t 1 = Entry" "thread_pc t 2 = Entry" "thread_pc t 3 = Entry"
    and m0: "same_memory s2 t"
    using create_threads_ok [OF assms, of "[0, 1, 2, 3]" s2] by (simp_all add: t_def prod_eq_iff Let_def)
  obtain t0 where t0: "await_stopped 0 t = Inr t0" "mbox_stopped t0 0 \<noteq> 0"
    "\<And>m. m \<noteq> 0 \<Longrightarrow> thread_pc t0 m = thread_pc t m" "same_memory t t0"
    using await_stopped_ok [OF pc(1)] by metis
  have "thread_pc t0 1 = Entry"
    using t0(3) pc(2) by simp
  then obtain t1 where t1: "await_stopped 1 t0 = Inr t1" "mbox_stopped t1 1 \<noteq> 0"
    "\<And>m. m \<noteq> 1 \<Longrightarrow> thread_pc t1 m = thread_pc t0 m" "\<And>m. mbox_stopped t0 m \<noteq> 0 \<Longrightarrow> mbox_stopped t1 m \<noteq> 0"
    "same_memory t0 t1"
    using await_stopped_ok [of t0 1] by metis
  have "thread_pc t1 2 = Entry"
    using t1(3) t0(3) pc(3) by simp
  then obtain t2 where t2: "await_stopped 2 t1 = Inr t2" "mbox_stopped t2 2 \<noteq> 0"
    "\<And>m. m \<noteq> 2 \<Longrightarrow> thread_pc t2 m = thread_pc t1 m" "\<And>m. mbox_stopped t1 m \<noteq> 0 \<Longrightarrow> mbox_stopped t2 m \<noteq> 0"
    "same_memory t1 t2"
    using await_stopped_ok [of t1 2] by metis
  have "thread_pc t2 3 = Entry"
    using t2(3) t1(3) t0(3) pc(4) by simp
  then obtain t3 where t3: "await_stopped 3 t2 = Inr t3" "mbox_stopped t3 3 \<noteq> 0"
    "\<And>m. mbox_stopped t2 m \<noteq> 0 \<Longrightarrow> mbox_stopped t3 m \<noteq> 0" "same_memory t2 t3"
    using await_stopped_ok [of t2 3] by metis
  define u where "u = snd (syscall H (Log ''mbox threads created'') t3)"
  have init: "mbox_init H s = Inr (0, u)"
    unfolding mbox_init_def Let_def s1_def [symmetric] s2_def [symmetric] created
    by (simp add: t0(1) t1(1) t2(1) t3(1) u_def del: One_nat_def)
  have "mbox_stopped u 0 \<noteq> 0 \<and> mbox_stopped u 1 \<noteq> 0 \<and> mbox_stopped u 2 \<noteq> 0 \<and> mbox_stopped u 3 \<noteq> 0"
    using t0(2) t1(2,4) t2(2,4) t3(2,3) by (simp add: u_def)
  moreover have "k < 4 \<longleftrightarrow> k = 0 \<or> k = 1 \<or> k = 2 \<or> k = 3" for k :: nat
    by auto
  ultimately have "mbox_ready u"
    unfolding mbox_ready_def by auto
  moreover have mem: "same_memory s2 u"
    using m0 t0(4) t1(5) t2(5) t3(4) by (simp add: u_def same_memory_def)
  then have "same_ram s u"
    by (simp add: same_memory_def same_ram_def s2_def s1_def)
  ultimately show ?thesis
    using init mem by (simp add: same_memory_def s2_def)
qed

section \<open>A small machine\<close>

text \<open>A state for the witnesses: the small screen, with the mailbox threads not yet created.\<close>

definition small_machine :: mailbox where
  "small_machine = framebuffer.extend small_screen
     (mailbox.fields (\<lambda>n. 0) (\<lambda>n. 0) (\<lambda>n. Absent) (\<lambda>n. False))"

lemma small_machine_simps [simp]:
  "trace small_machine = []" "errno small_machine = 0" "mem small_machine = (\<lambda>k. 0)"
  "himem1_page small_machine = 0" "himem2_page small_machine = 0"
  "io_write_top_handler small_machine = (\<lambda>k. None)" "io_read_top_handler small_machine = (\<lambda>k. None)"
  "mbox_stopped small_machine = (\<lambda>n. 0)" "mbox_addr small_machine = (\<lambda>n. 0)"
  "thread_pc small_machine = (\<lambda>n. Absent)" "sig_pending small_machine = (\<lambda>n. False)"
  by (simp_all add: small_machine_def small_screen_def framebuffer.defs mailbox.defs)

lemma small_machine_ok [simp]: "indexed small_machine" "fb_ok small_machine"
  using small_screen_indexed small_screen_ok
  by (simp_all add: small_machine_def indexed_def fb_ok_def framebuffer.defs mailbox.defs)

lemma small_machine_on [simp]:
  "on_screen small_machine (x, y) \<longleftrightarrow> 0 \<le> x \<and> x < 64 \<and> 0 \<le> y \<and> y < 48"
  using small_screen_on [of x y]
  by (simp add: small_machine_def on_screen_def framebuffer.defs mailbox.defs)

theorem mbox_init_returns_witness:
  "\<exists>s'. mbox_init null_host small_machine = Inr (0, s') \<and> mbox_ready s' \<and>
    same_ram small_machine s' \<and> io_write_top_handler s' 0xF = Some Mbox_mem_io_write \<and>
    io_read_top_handler s' 0xF = Some Mbox_mem_io_read"
  by (rule mbox_init_returns) (simp add: threads_available_def null_host_def)

text \<open>All four threads asleep, and a signal on its way to the first.\<close>

definition ready_machine :: mailbox where
  "ready_machine = small_machine\<lparr>mbox_stopped := (\<lambda>n. 1), thread_pc := (\<lambda>n. Waiting),
     sig_pending := (\<lambda>n. n = 0)\<rparr>"

lemma ready_machine_wakes: "thread_step null_host ready_machine (mbox_thread_wake null_host 0 ready_machine)"
  by (rule thread_wakes) (simp_all add: ready_machine_def)

theorem mailboxes_inert_witness:
  "mbox_stopped (mbox_thread_wake null_host 0 ready_machine) 1 \<noteq> 0 \<and>
    same_memory ready_machine (mbox_thread_wake null_host 0 ready_machine) \<and>
    fbmem (mbox_thread_wake null_host 0 ready_machine) = fbmem ready_machine"
  by (rule mailboxes_inert [OF r_into_rtranclp [where r = "mbox_step null_host", OF threads [OF ready_machine_wakes]]])
    (simp_all add: ready_machine_def)

theorem wakes_bounded_witness:
  "wakes 0 (mbox_thread_wake null_host 0 ready_machine) + kills 0 ready_machine +
     of_bool (sig_pending (mbox_thread_wake null_host 0 ready_machine) 0) \<le>
   kills 0 (mbox_thread_wake null_host 0 ready_machine) + wakes 0 ready_machine +
     of_bool (sig_pending ready_machine 0)"
  by (rule wakes_bounded [OF r_into_rtranclp [where r = "mbox_step null_host", OF threads [OF ready_machine_wakes]]]) simp

theorem mailbox_delivery_witness:
  "let s1 = mbox_mem_io_write null_host (mbox_reg (2 * 2)) (lo8 0x1234) ready_machine;
       s2 = mbox_mem_io_write null_host (mbox_reg (2 * 2 + 1)) (hi8 0x1234) s1
   in u16_of (mbox_mem_io_read s2 (mbox_reg (2 * 2))) (mbox_mem_io_read s2 (mbox_reg (2 * 2 + 1))) = 0x1234 \<and>
      (\<forall>m < 4. m \<noteq> 2 \<longrightarrow> mbox_addr s2 m = mbox_addr ready_machine m) \<and>
      Pthread_kill 2 \<in> set (trace s2)"
  unfolding Let_def
  by (rule mailbox_delivery [of ready_machine 2 null_host, OF _ _ rtranclp.rtrancl_refl rtranclp.rtrancl_refl])
    (simp_all add: mbox_ready_def ready_machine_def)

end
