(* ===== verification/LibC.thy ===== *)
theory LibC
  imports Mailbox
begin

text \<open>
  The C library calls of the guest (\<^verbatim>\<open>src/src/libC_assist.c\<close>,
  \<^verbatim>\<open>src/include/libC_calls.h\<close>). The guest leaves the address of a call block at 0xFFF8;
  the block holds an opcode and a pointer to the arguments. Strings are read up to their NUL,
  a string that runs off the end of the block is \<open>Undefined OutOfBounds\<close>.
\<close>

definition PI_LIBC_PUTS :: u16 where "PI_LIBC_PUTS = 0x0101"
definition PI_LIBC_OPEN :: u16 where "PI_LIBC_OPEN = 0x0102"
definition PI_LIBC_CLOSE :: u16 where "PI_LIBC_CLOSE = 0x0103"
definition PI_LIBC_WRITE :: u16 where "PI_LIBC_WRITE = 0x0104"
definition PI_LIBC_READ :: u16 where "PI_LIBC_READ = 0x0105"
definition PI_LIBC_CHDIR :: u16 where "PI_LIBC_CHDIR = 0x0106"
definition PI_LIBC_GETCWD :: u16 where "PI_LIBC_GETCWD = 0x0107"
definition PI_LIBC_SYSTEM :: u16 where "PI_LIBC_SYSTEM = 0x0108"
definition PI_LIBC_LSEEK :: u16 where "PI_LIBC_LSEEK = 0x0109"
definition PI_LIBC_UNLINK :: u16 where "PI_LIBC_UNLINK = 0x010A"
definition PI_LIBC_SYSEXIT :: u16 where "PI_LIBC_SYSEXIT = 0x010B"
definition PI_LIBC_FSYNC :: u16 where "PI_LIBC_FSYNC = 0x010C"

lemmas libc_opcodes = PI_LIBC_PUTS_def PI_LIBC_OPEN_def PI_LIBC_CLOSE_def PI_LIBC_WRITE_def
  PI_LIBC_READ_def PI_LIBC_CHDIR_def PI_LIBC_GETCWD_def PI_LIBC_SYSTEM_def PI_LIBC_LSEEK_def
  PI_LIBC_UNLINK_def PI_LIBC_SYSEXIT_def PI_LIBC_FSYNC_def
lemmas unit_opcodes = PI_FB_def PI_TIME_def PI_MMU_def PI_MBOX_def

section \<open>Buffers and strings in the block\<close>

text \<open>The string a \<^verbatim>\<open>char*\<close> into the block points to.\<close>

function c_string :: "'a memory_scheme \<Rightarrow> int \<Rightarrow> u8 list run" where
  "c_string s p =
     (if p < 0 \<or> MEM_SIZE \<le> p then Inl (Undefined OutOfBounds)
      else if mem s p = 0 then Inr []
      else bindR (c_string s (p + 1)) (\<lambda>bs. Inr (mem s p # bs)))"
  by pat_completeness auto
termination
  by (relation "measure (\<lambda>(s, p). nat (MEM_SIZE - p))") auto

declare c_string.simps [simp del]

text \<open>The bytes of a buffer the kernel reads, and storing those it wrote.\<close>

definition host_bytes :: "'a memory_scheme \<Rightarrow> int \<Rightarrow> nat \<Rightarrow> u8 list run" where
  "host_bytes s p n =
     (if 0 \<le> p \<and> p + int n \<le> MEM_SIZE then Inr (map (\<lambda>k. mem s (p + int k)) [0..<n])
      else Inl (Undefined OutOfBounds))"

definition host_store :: "int \<Rightarrow> u8 list \<Rightarrow> 'a memory_scheme \<Rightarrow> 'a memory_scheme run" where
  "host_store p bs s =
     (if 0 \<le> p \<and> p + int (length bs) \<le> MEM_SIZE then Inr (put_list (\<lambda>s k v. poke k v s) s p bs)
      else Inl (Undefined OutOfBounds))"

section \<open>The calls\<close>

definition cb_puts :: "host \<Rightarrow> u16 \<Rightarrow> 'a mailbox_scheme \<Rightarrow> (int \<times> 'a mailbox_scheme) run" where
  "cb_puts H addr s =
     (let text = ld16 s (addr + 2)
      in bindR (c_string s (mem_base s text)) (\<lambda>bs. Inr (0, snd (syscall H (Print bs) s))))"

definition cb_open :: "host \<Rightarrow> u16 \<Rightarrow> 'a mailbox_scheme \<Rightarrow> (int \<times> 'a mailbox_scheme) run" where
  "cb_open H addr s =
     (let sys = ld16 s (addr + 2); pathname = ld16 s sys; flags = ld16 s (sys + 2)
      in bindR (c_string s (mem_base s pathname))
           (\<lambda>bs. let (r, s1) = syscall H (Open bs flags) s in Inr (os_ret r, s1)))"

definition cb_close :: "host \<Rightarrow> u16 \<Rightarrow> 'a mailbox_scheme \<Rightarrow> (int \<times> 'a mailbox_scheme) run" where
  "cb_close H addr s =
     (let sys = ld16 s (addr + 2); fd = ld16 s sys; (r, s1) = syscall H (Close fd) s
      in Inr (os_ret r, s1))"

definition cb_write :: "host \<Rightarrow> u16 \<Rightarrow> 'a mailbox_scheme \<Rightarrow> (int \<times> 'a mailbox_scheme) run" where
  "cb_write H addr s =
     (let sys = ld16 s (addr + 2); fd = ld16 s sys; buff = ld16 s (sys + 2); size = ld16 s (sys + 4)
      in bindR (host_bytes s (mem_base s buff) (unat size))
           (\<lambda>bs. let (r, s1) = syscall H (Write fd bs) s in Inr (os_ret r, s1)))"

definition cb_read :: "host \<Rightarrow> u16 \<Rightarrow> 'a mailbox_scheme \<Rightarrow> (int \<times> 'a mailbox_scheme) run" where
  "cb_read H addr s =
     (let sys = ld16 s (addr + 2); fd = ld16 s sys; buff = ld16 s (sys + 2); size = ld16 s (sys + 4);
          (r, s1) = syscall H (Read fd size) s
      in bindR (host_store (mem_base s buff) (os_data r) s1) (\<lambda>s2. Inr (os_ret r, s2)))"

definition cb_chdir :: "host \<Rightarrow> u16 \<Rightarrow> 'a mailbox_scheme \<Rightarrow> (int \<times> 'a mailbox_scheme) run" where
  "cb_chdir H addr s =
     (let sys = ld16 s (addr + 2); dirname_ptr = ld16 s sys
      in bindR (c_string s (mem_base s dirname_ptr))
           (\<lambda>bs. let (r, s1) = syscall H (Chdir bs) s in Inr (os_ret r, s1)))"

definition cb_getcwd :: "host \<Rightarrow> u16 \<Rightarrow> 'a mailbox_scheme \<Rightarrow> (int \<times> 'a mailbox_scheme) run" where
  "cb_getcwd H addr s =
     (let sys = ld16 s (addr + 2); dirname_ptr = ld16 s sys; size = ld16 s (sys + 2);
          (r, s1) = syscall H (Getcwd size) s
      in bindR (host_store (mem_base s dirname_ptr) (os_data r) s1)
           (\<lambda>s2. Inr (if os_ret r \<noteq> 0 then 0 else 255, s2)))"

definition cb_system :: "host \<Rightarrow> u16 \<Rightarrow> 'a mailbox_scheme \<Rightarrow> (int \<times> 'a mailbox_scheme) run" where
  "cb_system H addr s =
     (let sys = ld16 s (addr + 2); command_ptr = ld16 s sys
      in bindR (c_string s (mem_base s command_ptr))
           (\<lambda>bs. let (r, s1) = syscall H (System bs) s in Inr (os_ret r, s1)))"

definition cb_lseek :: "host \<Rightarrow> u16 \<Rightarrow> 'a mailbox_scheme \<Rightarrow> (int \<times> 'a mailbox_scheme) run" where
  "cb_lseek H addr s =
     (let sys = ld16 s (addr + 2); fd = ld16 s sys; off = ld16 s (sys + 2); whence = ld16 s (sys + 4);
          (r, s1) = syscall H (Lseek fd off whence) s
      in Inr (os_ret r, s1))"

definition cb_unlink :: "host \<Rightarrow> u16 \<Rightarrow> 'a mailbox_scheme \<Rightarrow> (int \<times> 'a mailbox_scheme) run" where
  "cb_unlink H addr s =
     (let sys = ld16 s (addr + 2); filename_ptr = ld16 s sys
      in bindR (c_string s (mem_base s filename_ptr))
           (\<lambda>bs. let (r, s1) = syscall H (Unlink bs) s in Inr (os_ret r, s1)))"

definition cb_sysexit :: "u16 \<Rightarrow> 'a mailbox_scheme \<Rightarrow> (int \<times> 'a mailbox_scheme) run" where
  "cb_sysexit addr s =
     (let sys = ld16 s (addr + 2); rc = ld16 s sys in Inl (Exited (uint rc)))"

definition cb_fsync :: "host \<Rightarrow> u16 \<Rightarrow> 'a mailbox_scheme \<Rightarrow> (int \<times> 'a mailbox_scheme) run" where
  "cb_fsync H addr s =
     (let sys = ld16 s (addr + 2); fd = ld16 s sys;
          (r, s1) = syscall H (if fd = 1 \<or> fd = 2 then Fflush fd else Fsync fd) s
      in Inr (os_ret r, s1))"

section \<open>Dispatch\<close>

text \<open>The switch on the opcode; the result is truncated to the \<^verbatim>\<open>uint8_t\<close> returned.\<close>

definition libc_call :: "host \<Rightarrow> u16 \<Rightarrow> u16 \<Rightarrow> 'a mailbox_scheme \<Rightarrow> (int \<times> 'a mailbox_scheme) run" where
  "libc_call H data addr s =
     (if data = PI_LIBC_PUTS then cb_puts H addr s
      else if data = PI_LIBC_OPEN then cb_open H addr s
      else if data = PI_LIBC_CLOSE then cb_close H addr s
      else if data = PI_LIBC_WRITE then cb_write H addr s
      else if data = PI_LIBC_READ then cb_read H addr s
      else if data = PI_LIBC_CHDIR then cb_chdir H addr s
      else if data = PI_LIBC_GETCWD then cb_getcwd H addr s
      else if data = PI_LIBC_SYSTEM then cb_system H addr s
      else if data = PI_LIBC_LSEEK then cb_lseek H addr s
      else if data = PI_LIBC_UNLINK then cb_unlink H addr s
      else if data = PI_LIBC_SYSEXIT then cb_sysexit addr s
      else if data = PI_LIBC_FSYNC then cb_fsync H addr s
      else Inr (255, s))"

definition sync_libC_assist :: "host \<Rightarrow> 'a mailbox_scheme \<Rightarrow> (u8 \<times> 'a mailbox_scheme) run" where
  "sync_libC_assist H s =
     (let addr = ld16 s 0xFFF8; data = ld16 s addr; unit = data AND 0xFF00 in
      if unit = PI_FB then sync_fb_assist H s
      else if unit = PI_TIME then Inr (sync_time_assist H s)
      else if unit = PI_MMU then Inr (sync_mmu_assist s)
      else if unit = PI_MBOX then sync_mbox_assist H s
      else bindR (libc_call H data addr s) (\<lambda>(r, s'). Inr (word_of_int r, s')))"

section \<open>Frame\<close>

text \<open>No call moves the index tables or the page registers.\<close>

definition same_banks :: "'a memory_scheme \<Rightarrow> 'b memory_scheme \<Rightarrow> bool" where
  "same_banks s s' \<longleftrightarrow> himem1_index s' = himem1_index s \<and> himem2_index s' = himem2_index s \<and>
     himem1_page s' = himem1_page s \<and> himem2_page s' = himem2_page s"

lemma same_banks_refl [simp]: "same_banks s s"
  by (simp add: same_banks_def)

lemma same_ram_banks: "same_ram s s' \<Longrightarrow> same_banks s s'"
  by (simp add: same_banks_def same_ram_def)

lemma same_banks_trans: "same_banks s t \<Longrightarrow> same_banks t u \<Longrightarrow> same_banks s u"
  by (simp add: same_banks_def)

lemma same_banks_indexed: "same_banks s s' \<Longrightarrow> indexed s' = indexed s"
  by (simp add: same_banks_def indexed_def)

lemma same_banks_poke [simp]: "same_banks s (poke k v t) = same_banks s t"
  by (simp add: same_banks_def)

lemma same_banks_put_list [simp]: "same_banks s (put_list (\<lambda>s k v. poke k v s) t p bs) = same_banks s t"
  by (induction bs arbitrary: t p) simp_all

lemma same_banks_syscall [simp]: "same_banks s (snd (syscall H e t)) = same_banks s t"
  by (simp add: same_banks_def)

lemma keeps_banks_bind: "(\<And>v. keeps P (f v)) \<Longrightarrow> keeps P (bindR r f)"
  by (cases r) simp_all

lemma host_store_banks: "same_banks s t \<Longrightarrow> keeps (same_banks s) (host_store p bs t)"
  by (simp add: host_store_def)

lemma keeps_bind2: "keeps Q r \<Longrightarrow> (\<And>x. Q x \<Longrightarrow> keeps P (f x)) \<Longrightarrow> keeps P (bindR r f)"
  by (rule keeps_bindR)

lemma keeps_string_call:
  "(\<And>bs. same_banks s (g bs)) \<Longrightarrow> keeps (\<lambda>(r, s'). same_banks s s') (bindR r (\<lambda>bs. Inr (v bs, g bs)))"
  by (rule keeps_banks_bind) simp

lemma keeps_store_call:
  "same_banks s t \<Longrightarrow> keeps (\<lambda>(r, s'). same_banks s s') (bindR (host_store p bs t) (\<lambda>s2. Inr (v, s2)))"
  by (rule keeps_bind2 [OF host_store_banks]) simp_all

lemma cb_banks:
  "keeps (\<lambda>(r, s'). same_banks s s') (cb_puts H addr s)"
  "keeps (\<lambda>(r, s'). same_banks s s') (cb_open H addr s)"
  "keeps (\<lambda>(r, s'). same_banks s s') (cb_close H addr s)"
  "keeps (\<lambda>(r, s'). same_banks s s') (cb_write H addr s)"
  "keeps (\<lambda>(r, s'). same_banks s s') (cb_read H addr s)"
  "keeps (\<lambda>(r, s'). same_banks s s') (cb_chdir H addr s)"
  "keeps (\<lambda>(r, s'). same_banks s s') (cb_getcwd H addr s)"
  "keeps (\<lambda>(r, s'). same_banks s s') (cb_system H addr s)"
  "keeps (\<lambda>(r, s'). same_banks s s') (cb_lseek H addr s)"
  "keeps (\<lambda>(r, s'). same_banks s s') (cb_unlink H addr s)"
  "keeps (\<lambda>(r, s'). same_banks s s') (cb_sysexit addr s)"
  "keeps (\<lambda>(r, s'). same_banks s s') (cb_fsync H addr s)"
  unfolding cb_puts_def cb_open_def cb_close_def cb_write_def cb_read_def cb_chdir_def
    cb_getcwd_def cb_system_def cb_lseek_def cb_unlink_def cb_sysexit_def cb_fsync_def Let_def split_beta
  by (intro keeps_string_call [unfolded split_beta] keeps_store_call [unfolded split_beta] | simp)+

lemma libc_call_banks: "keeps (\<lambda>(r, s'). same_banks s s') (libc_call H data addr s)"
  unfolding libc_call_def by (simp add: cb_banks)

lemma sync_time_banks: "same_banks s (snd (sync_time_assist H s))"
  by (simp add: sync_time_assist_def time_init_def Let_def gettimeofday_def same_banks_def)

lemma sync_mmu_banks: "same_banks s (snd (sync_mmu_assist s))"
  by (simp add: sync_mmu_assist_def mmu_init_def Let_def same_banks_def)

lemma pthread_create_banks: "same_banks s (snd (pthread_create H n s))"
  by (simp add: pthread_create_def split_beta Let_def same_banks_def)

lemma create_threads_banks: "same_banks s (snd (create_threads H ns s))"
proof (induction ns arbitrary: s)
  case (Cons n ns)
  show ?case
    using same_banks_trans [OF pthread_create_banks Cons.IH] pthread_create_banks [of s H n]
    by (simp add: split_beta Let_def)
qed simp

lemma await_stopped_banks: "same_banks s t \<Longrightarrow> keeps (same_banks s) (await_stopped n t)"
  by (simp add: await_stopped_def mbox_thread_stop_def same_banks_def)

lemma mbox_init_banks: "keeps (\<lambda>(r, s'). same_banks s s') (mbox_init H s)"
proof -
  have await: "keeps P (bindR (await_stopped n t) f)"
    if "same_banks s t" "\<And>u. same_banks s u \<Longrightarrow> keeps P (f u)" for P n t f
    by (rule keeps_bind2 [OF await_stopped_banks [OF that(1)] that(2)])
  have start: "same_banks s (snd (create_threads H ns (t\<lparr>io_write_top_handler := w, io_read_top_handler := r\<rparr>)))"
    if "same_banks s t" for ns t w r
    by (rule same_banks_trans [OF _ create_threads_banks]) (use that in \<open>simp add: same_banks_def\<close>)
  show ?thesis
    unfolding mbox_init_def Let_def split_beta
    by (simp add: start del: create_threads.simps) (intro impI await start, simp_all)
qed

lemma sync_libC_banks: "keeps (\<lambda>(r, s'). same_banks s s') (sync_libC_assist H s)"
proof -
  have fb: "keeps (\<lambda>(r, s'). same_banks s s') (sync_fb_assist H s)"
    using sync_fb_ram by (rule keeps_weaken) (auto intro: same_ram_banks)
  have mbox: "keeps (\<lambda>(r, s'). same_banks s s') (sync_mbox_assist H s)"
    unfolding sync_mbox_assist_def Let_def
    by (simp, intro impI keeps_bind2 [OF mbox_init_banks]) auto
  have libc: "keeps (\<lambda>(r, s'). same_banks s s')
      (bindR (libc_call H data addr s) (\<lambda>(r, s'). Inr (word_of_int r :: u8, s')))" for data addr
    by (rule keeps_bind2 [OF libc_call_banks]) auto
  show ?thesis
    unfolding sync_libC_assist_def Let_def
    using fb mbox sync_time_banks [of s H] sync_mmu_banks [of s]
      libc [of "ld16 s (ld16 s 0xFFF8)" "ld16 s 0xFFF8"]
    by (simp add: split_beta)
qed

section \<open>What the calls read and write\<close>

lemma c_string_iff:
  "c_string s p = Inr bs \<longleftrightarrow> 0 \<le> p \<and> p + int (length bs) < MEM_SIZE \<and>
     (\<forall>i < length bs. mem s (p + int i) = bs ! i \<and> bs ! i \<noteq> 0) \<and> mem s (p + int (length bs)) = 0"
proof (induction bs arbitrary: p)
  case Nil
  show ?case
    by (subst c_string.simps) (auto simp: bindR_eq_Inr)
next
  case (Cons b bs)
  have shift: "(\<forall>i < length (b # bs). mem s (p + int i) = (b # bs) ! i \<and> (b # bs) ! i \<noteq> 0) \<longleftrightarrow>
      mem s p = b \<and> b \<noteq> 0 \<and> (\<forall>i < length bs. mem s (p + 1 + int i) = bs ! i \<and> bs ! i \<noteq> 0)"
    by (auto simp: All_less_Suc2 add.assoc)
  have "c_string s p = Inr (b # bs) \<longleftrightarrow>
      0 \<le> p \<and> p < MEM_SIZE \<and> mem s p \<noteq> 0 \<and> mem s p = b \<and> c_string s (p + 1) = Inr bs"
    by (subst c_string.simps) (auto simp: bindR_eq_Inr)
  then show ?case
    unfolding Cons.IH shift by (auto simp: add.assoc)
qed

lemma host_bytes_ok:
  assumes "indexed s"
  shows "host_bytes s (mem_base s a) (unat (n :: u16)) =
    Inr (map (\<lambda>k. mem s (mem_base s a + int k)) [0..<unat n])"
proof -
  have "int (unat n) \<le> 0xFFFF"
    using unat_u16_bound [of n] by linarith
  then show ?thesis
    using mem_base_bounds [OF assms, of a] by (simp add: host_bytes_def)
qed

lemma host_store_ok:
  assumes "indexed s" "length bs \<le> unat (n :: u16)"
  shows "host_store (mem_base s a) bs t = Inr (put_list (\<lambda>s k v. poke k v s) t (mem_base s a) bs)"
proof -
  have "int (length bs) \<le> 0xFFFF"
    using unat_u16_bound [of n] assms(2) by linarith
  then show ?thesis
    using mem_base_bounds [OF assms(1), of a] by (simp add: host_store_def)
qed



end
