(* ===== verification/Bus.thy ===== *)
theory Bus
  imports LibC
begin

text \<open>
  The bus (\<^verbatim>\<open>src/src/mem.c\<close>): \<^verbatim>\<open>mem_write\<close> and \<^verbatim>\<open>mem_read\<close> with the handlers for
  0xF000-0xFFFF, through which every other component is reached: assist calls at
  0xFFF8/0xFFF9, page registers, vectors, and the pluggable handler of the block the address
  lies in.
\<close>

section \<open>Pluggable handlers\<close>

fun run_writer ::
  "host \<Rightarrow> io_writer \<Rightarrow> u16 \<Rightarrow> u8 \<Rightarrow> 'a mailbox_scheme \<Rightarrow> 'a mailbox_scheme run" where
  "run_writer H Fb_mem_io_write address val s = fb_mem_io_write address val s"
| "run_writer H Fb_mem_io_write_1 address val s = Inr (fb_mem_io_write_1 address val s)"
| "run_writer H Time_mem_io_write address val s = Inr (time_mem_io_write H address val s)"
| "run_writer H Mmu_mem_io_write address val s = Inr (mmu_mem_io_write address val s)"
| "run_writer H Mbox_mem_io_write address val s = Inr (mbox_mem_io_write H address val s)"

fun run_reader :: "host \<Rightarrow> io_reader \<Rightarrow> u16 \<Rightarrow> 'a mailbox_scheme \<Rightarrow> u8 \<times> 'a mailbox_scheme" where
  "run_reader H Fb_mem_io_read address s = (fb_mem_io_read s address, s)"
| "run_reader H Time_mem_io_read address s = time_mem_io_read H address s"
| "run_reader H Mmu_mem_io_read address s = (mmu_mem_io_read s address, s)"
| "run_reader H Mbox_mem_io_read address s = (mbox_mem_io_read s address, s)"

section \<open>The top page\<close>

text \<open>
  A store to 0xFFF9 starts an assist call: the state it is made in, and where its result and
  \<^verbatim>\<open>errno\<close> go.
\<close>

definition assist_entry :: "u8 \<Rightarrow> 'a mailbox_scheme \<Rightarrow> 'a mailbox_scheme" where
  "assist_entry val s = poke (himem2_at s 0 0xFFF9) val (s\<lparr>errno := 0\<rparr>)"

definition deposit_result :: "u8 \<Rightarrow> 'a mailbox_scheme \<Rightarrow> 'a mailbox_scheme" where
  "deposit_result ret s =
     poke (himem2_at s 0 0xFFF9) (word_of_int (errno s)) (poke (himem2_at s 0 0xFFF8) ret s)"

definition write_himem2_top ::
  "host \<Rightarrow> u16 \<Rightarrow> u8 \<Rightarrow> 'a mailbox_scheme \<Rightarrow> 'a mailbox_scheme run" where
  "write_himem2_top H address val s =
     (if address = 0xFFF8 then Inr (poke (himem2_at s 0 address) val s)
      else if address = 0xFFF9 then
        bindR (sync_libC_assist H (assist_entry val s)) (\<lambda>(ret, s1). Inr (deposit_result ret s1))
      else if address = 0xFFE0 then Inr ((poke (himem2_at s 0 address) val s)\<lparr>himem1_page := val\<rparr>)
      else if address = 0xFFE1 then Inr ((poke (himem2_at s 0 address) val s)\<lparr>himem2_page := val\<rparr>)
      else if address = 0xFFFA then Inr (poke (himem2_at s 0 address) val s)
      else if address = 0xFFFB then Inr (poke (himem2_at s 0 address) val s)
      else if address = 0xFFFE then Inr (poke (himem2_at s 0 address) val s)
      else if address = 0xFFFF then Inr (poke (himem2_at s 0 address) val s)
      else case io_write_top_handler s (ucast (drop_bit 4 address) AND 0xf) of
             Some w \<Rightarrow> run_writer H w address val s
           | None \<Rightarrow> Inr (poke (himem2_at s (himem2_page s) address) val s))"

definition read_himem2_top :: "host \<Rightarrow> u16 \<Rightarrow> 'a mailbox_scheme \<Rightarrow> u8 \<times> 'a mailbox_scheme" where
  "read_himem2_top H address s =
     (case io_read_top_handler s (ucast (drop_bit 4 address) AND 0xf) of
        Some r \<Rightarrow> run_reader H r address s
      | None \<Rightarrow> (mem s (himem2_at s 0 address), s))"

section \<open>The bus\<close>

definition mem_write :: "host \<Rightarrow> u16 \<Rightarrow> u8 \<Rightarrow> 'a mailbox_scheme \<Rightarrow> 'a mailbox_scheme run" where
  "mem_write H address val s =
     (case mem_write_handler ! unat (drop_bit 12 address) of
        Lomem_zeropage \<Rightarrow> Inr (write_lomem_zeropage address val s)
      | Lomem_noio \<Rightarrow> Inr (write_lomem_noio address val s)
      | Himem1 \<Rightarrow> Inr (write_himem1 address val s)
      | Himem2 \<Rightarrow> Inr (write_himem2 address val s)
      | Himem2_top \<Rightarrow> write_himem2_top H address val s)"

definition mem_read :: "host \<Rightarrow> u16 \<Rightarrow> 'a mailbox_scheme \<Rightarrow> u8 \<times> 'a mailbox_scheme" where
  "mem_read H address s =
     (case mem_read_handler ! unat (drop_bit 12 address) of
        Lomem_zeropage \<Rightarrow> (read_lomem_zeropage s address, s)
      | Lomem_noio \<Rightarrow> (read_lomem_noio s address, s)
      | Himem1 \<Rightarrow> (read_himem1 s address, s)
      | Himem2 \<Rightarrow> (read_himem2 s address, s)
      | Himem2_top \<Rightarrow> read_himem2_top H address s)"

section \<open>Below the top page\<close>

lemma himem2_never_exram [simp]: "\<not> page < EXRAM_START"
  by (simp add: EXRAM_START_def)

lemma mem_write_ram:
  "indexed s \<Longrightarrow> uint a < 0xF000 \<Longrightarrow> mem_write H a v s = Inr (guest_put s a v)"
  unfolding mem_write_def mem_write_handler_at guest_put_def
  by (simp add: mem_base_def mem_base_handler_at write_lomem_zeropage_def write_lomem_noio_def
      write_himem1_def write_himem2_def)

lemma mem_read_ram:
  "indexed s \<Longrightarrow> uint a < 0xF000 \<Longrightarrow> mem_read H a s = (guest_get s a, s)"
  unfolding mem_read_def mem_read_handler_eq mem_write_handler_at guest_get_def
  by (simp add: mem_base_def mem_base_handler_at read_lomem_zeropage_def read_lomem_noio_def
      read_himem1_def read_himem2_def)

lemma mem_write_top: "0xF000 \<le> uint a \<Longrightarrow> mem_write H a v s = write_himem2_top H a v s"
  unfolding mem_write_def mem_write_handler_at by simp

lemma mem_read_top: "0xF000 \<le> uint a \<Longrightarrow> mem_read H a s = read_himem2_top H a s"
  unfolding mem_read_def mem_read_handler_eq mem_write_handler_at by simp

text \<open>C3. Below 0xF000 the bus implements the banked memory: a read returns the cell that the
  page registers select, a write changes that cell of the abstract memory and no other, in any
  bank, and nothing else of the banking.\<close>

theorem bus_refines_banks:
  assumes "indexed s" "uint a < 0xF000"
  shows "mem_read H a s = (cells s (cell_of (himem1_page s) (himem2_page s) a), s) \<and>
    (\<exists>s'. mem_write H a v s = Inr s' \<and> same_banks s s' \<and>
      (\<forall>d. valid_cell d \<longrightarrow>
         cells s' d = (if d = cell_of (himem1_page s) (himem2_page s) a then v else cells s d)))"
  using assms
  by (simp add: mem_read_ram mem_write_ram guest_get_def guest_put_def mem_base_phys cells_poke cells_def [of s])

section \<open>The invariant of the bus\<close>

lemma indexed_run_writer: "indexed s \<Longrightarrow> keeps indexed (run_writer H w a v s)"
  using fb_write_memory [of s a v]
  by (cases w) (auto simp: fb_mem_io_write_1_def same_memory_indexed mbox_mem_io_write_def Let_def
      mbox_store_low_def mbox_store_high_def same_memory_indexed [OF pthread_kill_memory]
      elim!: keeps_weaken, simp_all add: indexed_def)

lemma indexed_run_reader: "indexed s \<Longrightarrow> indexed (snd (run_reader H r a s))"
  by (cases r) simp_all

lemma indexed_sync_libC: "indexed s \<Longrightarrow> keeps (\<lambda>(r, s'). indexed s') (sync_libC_assist H s)"
  using sync_libC_banks by (rule keeps_weaken) (auto simp: same_banks_indexed)

lemma indexed_errno [simp]: "indexed (s\<lparr>errno := x\<rparr>) = indexed s"
  by (simp add: indexed_def)

lemma indexed_pages [simp]:
  "indexed (s\<lparr>himem1_page := x\<rparr>) = indexed s" "indexed (s\<lparr>himem2_page := x\<rparr>) = indexed s"
  by (simp_all add: indexed_def)

lemma indexed_assist [simp]:
  "indexed (assist_entry v s) = indexed s" "indexed (deposit_result r s) = indexed s"
  by (simp_all add: assist_entry_def deposit_result_def)

lemma indexed_write_top: "indexed s \<Longrightarrow> keeps indexed (write_himem2_top H a v s)"
proof -
  assume s: "indexed s"
  have "keeps indexed (bindR (sync_libC_assist H (assist_entry v s)) (\<lambda>(ret, s1). Inr (deposit_result ret s1)))"
    by (rule keeps_bind2 [OF indexed_sync_libC]) (use s in auto)
  with s show ?thesis
    by (simp add: write_himem2_top_def indexed_run_writer split: option.split)
qed


section \<open>Bank switching\<close>

text \<open>A guest program's stores, in order.\<close>

definition bus_stores :: "host \<Rightarrow> (u16 \<times> u8) list \<Rightarrow> 'a mailbox_scheme \<Rightarrow> 'a mailbox_scheme run" where
  "bus_stores H = plots (\<lambda>(a, v). mem_write H a v)"

lemma bus_stores_simps [simp]:
  "bus_stores H [] s = Inr s"
  "bus_stores H ((a, v) # ws) s = bindR (mem_write H a v s) (bus_stores H ws)"
  by (simp_all add: bus_stores_def)

definition page_register :: "u16 \<Rightarrow> u16" where
  "page_register a = (if uint a < 0xC000 then 0xFFE0 else 0xFFE1)"

definition page_of :: "'a memory_scheme \<Rightarrow> u16 \<Rightarrow> u8" where
  "page_of s a = (if uint a < 0xC000 then himem1_page s else himem2_page s)"

definition window_cell :: "u8 \<Rightarrow> u16 \<Rightarrow> cell" where
  "window_cell p a = (if uint a < 0xC000 then Bank1 p a else Bank2 p a)"

lemma cells_pages [simp]:
  "cells (s\<lparr>himem1_page := p\<rparr>) = cells s" "cells (s\<lparr>himem2_page := p\<rparr>) = cells s"
  by (simp_all add: cells_def fun_eq_iff)

lemma write_page:
  assumes "indexed s"
  obtains s' where "mem_write H (page_register a) p s = Inr s'" "indexed s'" "page_of s' a = p"
    "\<And>d. valid_cell d \<Longrightarrow> d \<noteq> Bank2 0 (page_register a) \<Longrightarrow> cells s' d = cells s d"
proof (cases "uint a < 0xC000")
  case True
  have "mem_write H 0xFFE0 p s = Inr ((poke (phys (Bank2 0 0xFFE0)) p s)\<lparr>himem1_page := p\<rparr>)"
    using assms by (simp add: mem_write_top write_himem2_top_def himem2_at_phys)
  with True assms show thesis
    by (intro that [of "(poke (phys (Bank2 0 0xFFE0)) p s)\<lparr>himem1_page := p\<rparr>"])
      (simp_all add: page_register_def page_of_def cells_poke del: phys.simps)
next
  case False
  have "mem_write H 0xFFE1 p s = Inr ((poke (phys (Bank2 0 0xFFE1)) p s)\<lparr>himem2_page := p\<rparr>)"
    using assms by (simp add: mem_write_top write_himem2_top_def himem2_at_phys)
  with False assms show thesis
    by (intro that [of "(poke (phys (Bank2 0 0xFFE1)) p s)\<lparr>himem2_page := p\<rparr>"])
      (simp_all add: page_register_def page_of_def cells_poke del: phys.simps)
qed

lemma write_window:
  assumes "indexed s" "0xA000 \<le> uint a" "uint a < 0xF000"
  obtains s' where "mem_write H a v s = Inr s'" "indexed s'" "page_of s' a = page_of s a"
    "\<And>d. valid_cell d \<Longrightarrow> cells s' d = (if d = window_cell (page_of s a) a then v else cells s d)"
  using assms by (intro that [of "guest_put s a v"])
    (simp_all add: mem_write_ram guest_put_def page_of_def window_cell_def mem_base_phys cell_of_def cells_poke)

lemma read_window:
  "indexed s \<Longrightarrow> 0xA000 \<le> uint a \<Longrightarrow> uint a < 0xF000 \<Longrightarrow>
     mem_read H a s = (cells s (window_cell (page_of s a) a), s)"
  by (simp add: mem_read_ram guest_get_def mem_base_phys cell_of_def window_cell_def page_of_def cells_def)

lemma window_cell_valid [simp]: "0xA000 \<le> uint a \<Longrightarrow> valid_cell (window_cell p a)"
  by (simp add: window_cell_def)

lemma window_cell_apart:
  "window_cell p a = window_cell q a \<longleftrightarrow> p = q"
  "uint a < 0xF000 \<Longrightarrow> window_cell p a \<noteq> Bank2 0 (page_register b)"
  by (auto simp: window_cell_def page_register_def)

text \<open>C5. Banks are isolated: a byte stored in one bank of a window is untouched by stores to the
  same address in another bank, and is read back once its bank is selected again.\<close>

theorem bank_switch:
  assumes s: "indexed s" and a: "0xA000 \<le> uint a" "uint a < 0xF000" and pq: "p \<noteq> q"
  shows "\<exists>s'. bus_stores H [(page_register a, p), (a, v), (page_register a, q), (a, w), (page_register a, p)] s = Inr s' \<and>
    mem_read H a s' = (v, s') \<and> cells s' (window_cell q a) = w"
proof -
  obtain s1 where s1: "mem_write H (page_register a) p s = Inr s1" "indexed s1" "page_of s1 a = p"
    using write_page [OF s] by metis
  obtain s2 where s2: "mem_write H a v s1 = Inr s2" "indexed s2"
    "\<And>d. valid_cell d \<Longrightarrow> cells s2 d = (if d = window_cell p a then v else cells s1 d)"
    using write_window [OF s1(2) a] s1(3) by metis
  obtain s3 where s3: "mem_write H (page_register a) q s2 = Inr s3" "indexed s3" "page_of s3 a = q"
    "\<And>d. valid_cell d \<Longrightarrow> d \<noteq> Bank2 0 (page_register a) \<Longrightarrow> cells s3 d = cells s2 d"
    using write_page [OF s2(2)] by metis
  obtain s4 where s4: "mem_write H a w s3 = Inr s4" "indexed s4"
    "\<And>d. valid_cell d \<Longrightarrow> cells s4 d = (if d = window_cell q a then w else cells s3 d)"
    using write_window [OF s3(2) a] s3(3) by metis
  obtain s5 where s5: "mem_write H (page_register a) p s4 = Inr s5" "indexed s5" "page_of s5 a = p"
    "\<And>d. valid_cell d \<Longrightarrow> d \<noteq> Bank2 0 (page_register a) \<Longrightarrow> cells s5 d = cells s4 d"
    using write_page [OF s4(2)] by metis
  have "cells s5 (window_cell p a) = v" "cells s5 (window_cell q a) = w"
    using pq a by (simp_all add: s5(4) s4(3) s3(4) s2(3) window_cell_apart)
  then show ?thesis
    using s1(1) s2(1) s3(1) s4(1) s5(1) read_window [OF s5(2) a] s5(3) by simp
qed

theorem bus_refines_banks_witness:
  "mem_read null_host 0xA123 small_machine =
      (cells small_machine (cell_of (himem1_page small_machine) (himem2_page small_machine) 0xA123), small_machine) \<and>
    (\<exists>s'. mem_write null_host 0xA123 7 small_machine = Inr s' \<and> same_banks small_machine s' \<and>
      (\<forall>d. valid_cell d \<longrightarrow> cells s' d =
         (if d = cell_of (himem1_page small_machine) (himem2_page small_machine) 0xA123 then 7
          else cells small_machine d)))"
  by (rule bus_refines_banks) simp_all


theorem bank_switch_witness:
  "\<exists>s'. bus_stores null_host [(page_register 0xC000, 1), (0xC000, 7), (page_register 0xC000, 2), (0xC000, 8),
      (page_register 0xC000, 1)] small_machine = Inr s' \<and>
    mem_read null_host 0xC000 s' = (7, s') \<and> cells s' (window_cell 2 0xC000) = 8"
  by (rule bank_switch) simp_all

section \<open>The top page\<close>

definition handler_slot :: "u16 \<Rightarrow> u8" where
  "handler_slot a = ucast (drop_bit 4 a) AND 0xf"

text \<open>The top page is split: with another bank than 0 in the upper window, a store to an
  address of 0xF000-0xFFFF that no handler claims goes to the selected bank, while reads of it
  come from bank 0, so the stored byte is not read back.\<close>

theorem top_page_splits:
  assumes s: "indexed s" and a: "0xF000 \<le> uint a"
    and special: "a \<notin> {0xFFE0, 0xFFE1, 0xFFF8, 0xFFF9, 0xFFFA, 0xFFFB, 0xFFFE, 0xFFFF}"
    and free: "io_write_top_handler s (handler_slot a) = None" "io_read_top_handler s (handler_slot a) = None"
    and page: "himem2_page s \<noteq> 0"
  shows "\<exists>s'. mem_write H a v s = Inr s' \<and> mem_read H a s' = (cells s (Bank2 0 a), s') \<and>
    cells s' (Bank2 (himem2_page s) a) = v"
proof -
  let ?s' = "poke (himem2_at s (himem2_page s) a) v s"
  have at: "himem2_at s p a = phys (Bank2 p a)" for p
    using s a by (simp add: himem2_at_phys)
  have w: "mem_write H a v s = Inr ?s'"
    using special free a by (simp add: mem_write_top write_himem2_top_def handler_slot_def)
  have r: "mem_read H a ?s' = (mem ?s' (himem2_at ?s' 0 a), ?s')"
    using free a by (simp add: mem_read_top read_himem2_top_def handler_slot_def)
  have "himem2_at ?s' 0 a = phys (Bank2 0 a)"
    using at [of 0] by (simp add: himem2_at_def)
  moreover have "phys (Bank2 0 a) \<noteq> phys (Bank2 (himem2_page s) a)"
    using phys_inj [of "Bank2 0 a" "Bank2 (himem2_page s) a"] page a by auto
  ultimately show ?thesis
    using w r at [of "himem2_page s"] by (simp add: cells_def del: phys.simps)
qed

theorem top_page_splits_witness:
  "\<exists>s'. mem_write null_host 0xF800 7 (small_machine\<lparr>himem2_page := 1\<rparr>) = Inr s' \<and>
    mem_read null_host 0xF800 s' = (cells (small_machine\<lparr>himem2_page := 1\<rparr>) (Bank2 0 0xF800), s') \<and>
    cells s' (Bank2 (himem2_page (small_machine\<lparr>himem2_page := 1\<rparr>)) 0xF800) = 7"
  by (rule top_page_splits) (simp_all add: word_uint_eq_iff)

section \<open>Assist calls\<close>

lemma himem2_at_poke [simp]: "himem2_at (poke k v s) p a = himem2_at s p a"
  by (simp add: himem2_at_def)

lemma top_cells:
  "indexed s \<Longrightarrow> mem_base s 0xFFF8 = phys (Bank2 (himem2_page s) 0xFFF8)"
  "indexed s \<Longrightarrow> himem2_at s 0 0xFFF8 = phys (Bank2 0 0xFFF8)"
  "indexed s \<Longrightarrow> himem2_at s 0 0xFFF9 = phys (Bank2 0 0xFFF9)"
  "phys (Bank2 p 0xFFF8) + 1 = phys (Bank2 p 0xFFF9)"
  by (simp_all add: mem_base_phys cell_of_def himem2_at_phys)

lemma ld16_pointer:
  "indexed s \<Longrightarrow> ld16 s 0xFFF8 =
     u16_of (cells s (Bank2 (himem2_page s) 0xFFF8)) (cells s (Bank2 (himem2_page s) 0xFFF9))"
  by (simp add: ld16_def get16_def top_cells cells_def del: phys.simps)

lemma assist_entry_cells:
  "indexed s \<Longrightarrow> valid_cell d \<Longrightarrow> cells (assist_entry v s) d = (if d = Bank2 0 0xFFF9 then v else cells s d)"
  using cells_poke [of "Bank2 0 0xFFF9" d v "s\<lparr>errno := 0\<rparr>"] top_cells(3) [of s]
  by (simp add: assist_entry_def cells_def himem2_at_def del: phys.simps)

text \<open>The two stores that start an assist call put its pointer into bank 0 of the upper
  window, but the call fetches it from the selected bank: only with page 0 selected is it the
  pointer just stored.\<close>

theorem assist_pointer:
  assumes s: "indexed s"
  shows "\<exists>s1. mem_write H 0xFFF8 (lo8 w) s = Inr s1 \<and>
    mem_write H 0xFFF9 (hi8 w) s1 =
      bindR (sync_libC_assist H (assist_entry (hi8 w) s1)) (\<lambda>(r, t). Inr (deposit_result r t)) \<and>
    errno (assist_entry (hi8 w) s1) = 0 \<and>
    ld16 (assist_entry (hi8 w) s1) 0xFFF8 = (if himem2_page s = 0 then w else ld16 s 0xFFF8)"
proof -
  let ?s1 = "poke (phys (Bank2 0 0xFFF8)) (lo8 w) s"
  have w1: "mem_write H 0xFFF8 (lo8 w) s = Inr ?s1"
    using s by (simp add: mem_write_top write_himem2_top_def top_cells del: phys.simps)
  have w2: "mem_write H 0xFFF9 (hi8 w) ?s1 =
      bindR (sync_libC_assist H (assist_entry (hi8 w) ?s1)) (\<lambda>(r, t). Inr (deposit_result r t))"
    by (simp add: mem_write_top write_himem2_top_def)
  have i: "indexed (assist_entry (hi8 w) ?s1)" "indexed ?s1" and
    page: "himem2_page (assist_entry (hi8 w) ?s1) = himem2_page s"
    using s by (simp_all add: assist_entry_def)
  have "cells (assist_entry (hi8 w) ?s1) d =
      (if d = Bank2 0 0xFFF9 then hi8 w else if d = Bank2 0 0xFFF8 then lo8 w else cells s d)"
    if "valid_cell d" for d
    using that by (simp add: assist_entry_cells [OF i(2)] cells_poke del: phys.simps)
  then have "ld16 (assist_entry (hi8 w) ?s1) 0xFFF8 = (if himem2_page s = 0 then w else ld16 s 0xFFF8)"
    by (simp add: ld16_pointer [OF i(1)] ld16_pointer [OF s] page del: phys.simps)
  moreover have "errno (assist_entry (hi8 w) ?s1) = 0"
    by (simp add: assist_entry_def)
  ultimately show ?thesis
    using w1 w2 by blast
qed

theorem assist_pointer_witness:
  "\<exists>s1. mem_write null_host 0xFFF8 (lo8 0x0400) small_machine = Inr s1 \<and>
    mem_write null_host 0xFFF9 (hi8 0x0400) s1 =
      bindR (sync_libC_assist null_host (assist_entry (hi8 0x0400) s1)) (\<lambda>(r, t). Inr (deposit_result r t)) \<and>
    errno (assist_entry (hi8 0x0400) s1) = 0 \<and>
    ld16 (assist_entry (hi8 0x0400) s1) 0xFFF8 =
      (if himem2_page small_machine = 0 then 0x0400 else ld16 small_machine 0xFFF8)"
  by (rule assist_pointer) simp

text \<open>After a call its result and \<^verbatim>\<open>errno\<close>'s low byte are read at 0xFFF8 and 0xFFF9, as
  long as no handler claims the block; with the mailbox registers installed, both, and the
  three vectors behind them, read 255.\<close>

theorem assist_result:
  assumes s: "indexed s"
  shows "(io_read_top_handler s 0xF = None \<longrightarrow>
      fst (mem_read H 0xFFF8 (deposit_result r s)) = r \<and>
      fst (mem_read H 0xFFF9 (deposit_result r s)) = word_of_int (errno s)) \<and>
    (io_read_top_handler s 0xF = Some Mbox_mem_io_read \<longrightarrow>
      (\<forall>a \<in> {0xFFF8, 0xFFF9, 0xFFFA, 0xFFFB, 0xFFFC, 0xFFFD, 0xFFFE, 0xFFFF}.
         fst (mem_read H a (deposit_result r s)) = 255))"
proof -
  have at: "himem2_at s 0 0xFFF8 = phys (Bank2 0 0xFFF8)" "himem2_at s 0 0xFFF9 = phys (Bank2 0 0xFFF9)"
    using s by (simp_all only: top_cells)
  have at': "himem2_at (deposit_result r s) p a = himem2_at s p a" for p a
    by (simp add: deposit_result_def)
  have handlers: "io_read_top_handler (deposit_result r s) = io_read_top_handler s"
    by (simp add: deposit_result_def)
  have "phys (Bank2 0 0xFFF8) \<noteq> phys (Bank2 0 0xFFF9)"
    by simp
  then have "mem (deposit_result r s) (phys (Bank2 0 0xFFF8)) = r"
    "mem (deposit_result r s) (phys (Bank2 0 0xFFF9)) = word_of_int (errno s)"
    by (simp_all add: deposit_result_def at del: phys.simps)
  then show ?thesis
    by (simp add: mem_read_top read_himem2_top_def at at' handlers mbox_mem_io_read_def del: phys.simps)
qed

definition mbox_machine :: mailbox where
  "mbox_machine = small_machine\<lparr>io_read_top_handler := (\<lambda>k. Some Mbox_mem_io_read)\<rparr>"

theorem assist_result_witness:
  "fst (mem_read null_host 0xFFF8 (deposit_result 3 small_machine)) = 3 \<and>
   fst (mem_read null_host 0xFFF9 (deposit_result 3 small_machine)) = word_of_int (errno small_machine) \<and>
   fst (mem_read null_host 0xFFF8 (deposit_result 3 mbox_machine)) = 255 \<and>
   fst (mem_read null_host 0xFFFC (deposit_result 3 mbox_machine)) = 255"
proof -
  have "indexed mbox_machine" "io_read_top_handler mbox_machine 0xF = Some Mbox_mem_io_read"
    using small_machine_ok(1) by (simp_all add: indexed_def mbox_machine_def)
  with assist_result [OF this(1), of null_host 3] assist_result [OF small_machine_ok(1), of null_host 3]
  show ?thesis
    by simp
qed

end
