(* ===== verification/Client.thy ===== *)
theory Client
  imports Bus
begin

text \<open>
  The guest's side: the headers \<^verbatim>\<open>src/native/C/pi_libc.h\<close>, \<^verbatim>\<open>pi_fb.h\<close>, \<^verbatim>\<open>pi_time.h\<close>,
  \<^verbatim>\<open>pi_mbox.h\<close> that programs for the 6502 include. Each function fills a struct in
  \<^verbatim>\<open>call_buff\<close> and calls \<^verbatim>\<open>send_for_pi\<close>. The addresses the linker gives \<^verbatim>\<open>call_buff\<close>
  (here \<open>cb\<close>) and the block \<^verbatim>\<open>cbk\<close> are parameters. \<^verbatim>\<open>unsigned int\<close> is 16 bits, stored low
  byte first; structs have no padding.
\<close>

section \<open>Stores of the compiled code\<close>

definition store16 :: "host \<Rightarrow> u16 \<Rightarrow> u16 \<Rightarrow> 'a mailbox_scheme \<Rightarrow> 'a mailbox_scheme run" where
  "store16 H a w s = bus_stores H [(a, lo8 w), (a + 1, hi8 w)] s"

text \<open>Filling consecutive \<^verbatim>\<open>unsigned int\<close> ws of a struct, in the order of the source.\<close>

fun store_fields :: "host \<Rightarrow> u16 \<Rightarrow> u16 list \<Rightarrow> 'a mailbox_scheme \<Rightarrow> 'a mailbox_scheme run" where
  "store_fields H a [] s = Inr s"
| "store_fields H a (w # ws) s = bindR (store16 H a w s) (store_fields H (a + 2) ws)"

section \<open>The call protocol\<close>

type_synonym 'a call = "'a mailbox_scheme \<Rightarrow> (u16 \<times> 'a mailbox_scheme) run"

definition send_for_pi ::
  "host \<Rightarrow> u16 \<Rightarrow> u16 \<Rightarrow> u16 \<Rightarrow> 'a mailbox_scheme \<Rightarrow> (u16 \<times> 'a mailbox_scheme) run" where
  "send_for_pi H cbk callid data s =
     bindR (store_fields H cbk [callid, data] s) (\<lambda>s.
     bindR (store16 H 0xFFF8 cbk s) (\<lambda>s.
     let (ret, s) = mem_read H 0xFFF8 s in Inr (ucast ret, s)))"

definition call_with ::
  "host \<Rightarrow> u16 \<Rightarrow> u16 \<Rightarrow> u16 \<Rightarrow> u16 list \<Rightarrow> 'a mailbox_scheme \<Rightarrow> (u16 \<times> 'a mailbox_scheme) run" where
  "call_with H cb cbk callid ws s =
     bindR (store_fields H cb ws s) (send_for_pi H cbk callid cb)"

text \<open>Structs that end in one \<^verbatim>\<open>unsigned char\<close>.\<close>

definition call_with_char ::
  "host \<Rightarrow> u16 \<Rightarrow> u16 \<Rightarrow> u16 \<Rightarrow> u16 list \<Rightarrow> u8 \<Rightarrow> 'a mailbox_scheme \<Rightarrow> (u16 \<times> 'a mailbox_scheme) run" where
  "call_with_char H cb cbk callid ws col s =
     bindR (store_fields H cb ws s) (\<lambda>s.
     bindR (mem_write H (cb + 2 * of_nat (length ws)) col s) (send_for_pi H cbk callid cb))"

section \<open>pi\_libc.h\<close>

definition pi_puts :: "host \<Rightarrow> u16 \<Rightarrow> u16 \<Rightarrow> 'a call" where
  "pi_puts H cbk text s = send_for_pi H cbk PI_LIBC_PUTS text s"
definition pi_open :: "host \<Rightarrow> u16 \<Rightarrow> u16 \<Rightarrow> u16 \<Rightarrow> u16 \<Rightarrow> 'a call" where
  "pi_open H cb cbk pathname flags s = call_with H cb cbk PI_LIBC_OPEN [pathname, flags] s"
definition pi_close :: "host \<Rightarrow> u16 \<Rightarrow> u16 \<Rightarrow> u16 \<Rightarrow> 'a call" where
  "pi_close H cb cbk fd s = call_with H cb cbk PI_LIBC_CLOSE [fd] s"
definition pi_write :: "host \<Rightarrow> u16 \<Rightarrow> u16 \<Rightarrow> u16 \<Rightarrow> u16 \<Rightarrow> u16 \<Rightarrow> 'a call" where
  "pi_write H cb cbk fd buf count s = call_with H cb cbk PI_LIBC_WRITE [fd, buf, count] s"
definition pi_read :: "host \<Rightarrow> u16 \<Rightarrow> u16 \<Rightarrow> u16 \<Rightarrow> u16 \<Rightarrow> u16 \<Rightarrow> 'a call" where
  "pi_read H cb cbk fd buf count s = call_with H cb cbk PI_LIBC_READ [fd, buf, count] s"
definition pi_chdir :: "host \<Rightarrow> u16 \<Rightarrow> u16 \<Rightarrow> u16 \<Rightarrow> 'a call" where
  "pi_chdir H cb cbk dirname s = call_with H cb cbk PI_LIBC_CHDIR [dirname] s"
definition pi_getcwd :: "host \<Rightarrow> u16 \<Rightarrow> u16 \<Rightarrow> u16 \<Rightarrow> u16 \<Rightarrow> 'a call" where
  "pi_getcwd H cb cbk dirname n s = call_with H cb cbk PI_LIBC_GETCWD [dirname, n] s"
definition pi_system :: "host \<Rightarrow> u16 \<Rightarrow> u16 \<Rightarrow> u16 \<Rightarrow> 'a call" where
  "pi_system H cb cbk command s = call_with H cb cbk PI_LIBC_SYSTEM [command] s"
definition pi_lseek :: "host \<Rightarrow> u16 \<Rightarrow> u16 \<Rightarrow> u16 \<Rightarrow> u16 \<Rightarrow> u16 \<Rightarrow> 'a call" where
  "pi_lseek H cb cbk fd off whence s = call_with H cb cbk PI_LIBC_LSEEK [fd, off, whence] s"
definition pi_unlink :: "host \<Rightarrow> u16 \<Rightarrow> u16 \<Rightarrow> u16 \<Rightarrow> 'a call" where
  "pi_unlink H cb cbk filename s = call_with H cb cbk PI_LIBC_UNLINK [filename] s"
definition pi_sysexit :: "host \<Rightarrow> u16 \<Rightarrow> u16 \<Rightarrow> u16 \<Rightarrow> 'a call" where
  "pi_sysexit H cb cbk rc s = call_with H cb cbk PI_LIBC_SYSEXIT [rc] s"
definition pi_fsync :: "host \<Rightarrow> u16 \<Rightarrow> u16 \<Rightarrow> u16 \<Rightarrow> 'a call" where
  "pi_fsync H cb cbk fd s = call_with H cb cbk PI_LIBC_FSYNC [fd] s"

text \<open>\<^verbatim>\<open>getchar\<close>: \<open>gcbuf\<close> is the address of its local array; \<^verbatim>\<open>int\<close> comparisons are signed.\<close>

definition pi_getchar ::
  "host \<Rightarrow> u16 \<Rightarrow> u16 \<Rightarrow> u16 \<Rightarrow> 'a mailbox_scheme \<Rightarrow> (u16 \<times> 'a mailbox_scheme) run" where
  "pi_getchar H cb cbk gcbuf s =
     bindR (bus_stores H [(gcbuf, 0), (gcbuf + 1, 0)] s) (\<lambda>s.
     bindR (pi_read H cb cbk 0 gcbuf 1 s) (\<lambda>(r, s).
     if sint r < 0 then Inr (255, s)
     else let (c, s) = mem_read H gcbuf s in Inr (ucast c, s)))"

section \<open>pi\_fb.h, pi\_time.h, pi\_mbox.h\<close>

text \<open>Calls without arguments pass a pointer \<open>sys\<close> that was never set.\<close>

definition pi_fb_init :: "host \<Rightarrow> u16 \<Rightarrow> u16 \<Rightarrow> 'a call" where
  "pi_fb_init H cbk sys s = send_for_pi H cbk PI_FB_INIT sys s"
definition pi_fb_point :: "host \<Rightarrow> u16 \<Rightarrow> u16 \<Rightarrow> u16 \<Rightarrow> u16 \<Rightarrow> u8 \<Rightarrow> 'a call" where
  "pi_fb_point H cb cbk x y col s = call_with_char H cb cbk PI_FB_POINT [x, y] col s"
definition pi_fb_line :: "host \<Rightarrow> u16 \<Rightarrow> u16 \<Rightarrow> u16 \<Rightarrow> u16 \<Rightarrow> u16 \<Rightarrow> u16 \<Rightarrow> u8 \<Rightarrow> 'a call" where
  "pi_fb_line H cb cbk x y x1 y1 col s = call_with_char H cb cbk PI_FB_LINE [x, y, x1, y1] col s"
definition pi_fb_circle :: "host \<Rightarrow> u16 \<Rightarrow> u16 \<Rightarrow> u16 \<Rightarrow> u16 \<Rightarrow> u16 \<Rightarrow> u8 \<Rightarrow> 'a call" where
  "pi_fb_circle H cb cbk x y r col s = call_with_char H cb cbk PI_FB_CIRCLE [x, y, r] col s"
definition pi_fb_wait_for_vsync :: "host \<Rightarrow> u16 \<Rightarrow> u16 \<Rightarrow> 'a call" where
  "pi_fb_wait_for_vsync H cbk sys s = send_for_pi H cbk PI_FB_WAITFORVSYNC sys s"
definition pi_fb_cls :: "host \<Rightarrow> u16 \<Rightarrow> u16 \<Rightarrow> 'a call" where
  "pi_fb_cls H cbk sys s = send_for_pi H cbk PI_FB_CLS sys s"
definition pi_fb_block :: "host \<Rightarrow> u16 \<Rightarrow> u16 \<Rightarrow> u16 \<Rightarrow> u16 \<Rightarrow> u16 \<Rightarrow> u16 \<Rightarrow> u8 \<Rightarrow> 'a call" where
  "pi_fb_block H cb cbk x y x1 y1 col s = call_with_char H cb cbk PI_FB_BLOCK [x, y, x1, y1] col s"
definition pi_fb_malloc_sbuf :: "host \<Rightarrow> u16 \<Rightarrow> u16 \<Rightarrow> u16 \<Rightarrow> u16 \<Rightarrow> 'a call" where
  "pi_fb_malloc_sbuf H cb cbk width height s = call_with H cb cbk PI_FB_MALLOC_SBUF [width, height] s"

definition pi_fb_pointRGB ::
  "host \<Rightarrow> u16 \<Rightarrow> u16 \<Rightarrow> u16 \<Rightarrow> u16 \<Rightarrow> u8 \<Rightarrow> u8 \<Rightarrow> u8 \<Rightarrow> 'a mailbox_scheme \<Rightarrow> (u16 \<times> 'a mailbox_scheme) run" where
  "pi_fb_pointRGB H cb cbk x y r g b s =
     bindR (store_fields H cb [x, y] s) (\<lambda>s.
     bindR (bus_stores H [(cb + 4, r), (cb + 5, g), (cb + 6, b)] s) (send_for_pi H cbk PI_FB_POINTRGB cb))"

definition pi_time_init :: "host \<Rightarrow> u16 \<Rightarrow> u16 \<Rightarrow> 'a call" where
  "pi_time_init H cbk sys s = send_for_pi H cbk PI_TIME_INIT sys s"
definition pi_mbox_init :: "host \<Rightarrow> u16 \<Rightarrow> u16 \<Rightarrow> 'a call" where
  "pi_mbox_init H cbk sys s = send_for_pi H cbk PI_MBOX_INIT sys s"

text \<open>\<^verbatim>\<open>msleep\<close>: start the deadline timer, then poll it until it reads 0.\<close>

partial_function (option) msleep_poll :: "host \<Rightarrow> 'a mailbox_scheme \<Rightarrow> 'a mailbox_scheme run option" where
  "msleep_poll H s =
     (case mem_read H 0xFF2C s of (v, s') \<Rightarrow> if v = 0 then Some (Inr s') else msleep_poll H s')"

definition pi_msleep :: "host \<Rightarrow> u16 \<Rightarrow> 'a mailbox_scheme \<Rightarrow> 'a mailbox_scheme run" where
  "pi_msleep H msecs s =
     bindR (store16 H 0xFF2C msecs s) (\<lambda>s. loop_result (msleep_poll H s))"

section \<open>Stores below 0xA000\<close>

text \<open>A guest program keeps its variables in low memory, where a guest address is the offset.\<close>

abbreviation lay :: "'a memory_scheme \<Rightarrow> int \<Rightarrow> u8 list \<Rightarrow> 'a memory_scheme" where
  "lay \<equiv> put_list (\<lambda>s k v. poke k v s)"

lemma mem_base_low: "uint a < 0xA000 \<Longrightarrow> mem_base s a = uint a"
  by (simp add: mem_base_def mem_base_handler_at lowmem_at_def)

lemma ld16_low: "uint a < 0xA000 \<Longrightarrow> ld16 s a = u16_of (mem s (uint a)) (mem s (uint a + 1))"
  by (simp add: ld16_def get16_def mem_base_low)

lemma ld8_low: "uint a < 0xA000 \<Longrightarrow> ld8 s a = mem s (uint a)"
  by (simp add: ld8_def mem_base_low)

lemma mem_write_low: "uint a < 0xA000 \<Longrightarrow> mem_write H a v s = Inr (poke (uint a) v s)"
  by (simp add: mem_write_def mem_write_handler_at write_lomem_zeropage_def write_lomem_noio_def lowmem_at_def)

lemma uint_add_low: "uint (a :: u16) + int n < 0xA000 \<Longrightarrow> uint (a + of_nat n) = uint a + int n"
  by (rule uint_add_small) simp

lemma store16_low:
  "uint a + 2 \<le> 0xA000 \<Longrightarrow> store16 H a w s = Inr (lay s (uint a) [lo8 w, hi8 w])"
  using uint_add_low [of a 1] by (simp add: store16_def mem_write_low)

lemma bytes16_simps [simp]: "bytes16 [] = []" "bytes16 (w # ws) = lo8 w # hi8 w # bytes16 ws"
  by (simp_all add: bytes16_def)

lemma store_fields_low:
  "uint a + 2 * int (length ws) \<le> 0xA000 \<Longrightarrow> store_fields H a ws s = Inr (lay s (uint a) (bytes16 ws))"
proof (induction ws arbitrary: a s)
  case (Cons w ws)
  then have "ws \<noteq> [] \<Longrightarrow> uint (a + 2) = uint a + 2"
    using uint_add_low [of a 2] by (cases ws) simp_all
  with Cons show ?case
    by (cases "ws = []") (simp_all add: store16_low add.assoc)
qed simp

lemma lay_mem: "lay s k bs = s\<lparr>mem := mem (lay s k bs)\<rparr>"
proof (induction bs arbitrary: s k)
  case (Cons b bs)
  show ?case
    by (subst (1) put_list.simps, subst Cons.IH) (simp add: poke_def)
qed simp

lemma mem_lay:
  "mem (lay s k bs) j = (if k \<le> j \<and> j < k + int (length bs) then bs ! nat (j - k) else mem s j)"
proof (induction bs arbitrary: s k)
  case (Cons b bs)
  show ?case
    unfolding put_list.simps Cons.IH
  proof (cases "k + 1 \<le> j")
    case True
    then have "nat (j - k) = Suc (nat (j - (k + 1)))"
      by linarith
    with True show "(if k + 1 \<le> j \<and> j < k + 1 + int (length bs) then bs ! nat (j - (k + 1))
        else mem (poke k b s) j) =
      (if k \<le> j \<and> j < k + int (length (b # bs)) then (b # bs) ! nat (j - k) else mem s j)"
      by auto
  qed auto
qed auto

lemma lay_frame [simp]:
  "himem2_page (lay s k bs) = himem2_page s" "indexed (lay s k bs) = indexed s" "trace (lay s k bs) = trace s"
  by (induction bs arbitrary: s k) simp_all

lemma lay_append: "lay s k (xs @ ys) = lay (lay s k xs) (k + int (length xs)) ys"
  by (induction xs arbitrary: s k) (simp_all add: algebra_simps)

section \<open>The protocol\<close>

definition finish :: "host \<Rightarrow> u8 \<Rightarrow> 'a call" where
  "finish H r u = (let (v, u') = mem_read H 0xFFF8 (deposit_result r u) in Inr (ucast v, u'))"

text \<open>
  What the shim sees of a call: \<open>called s m cbk callid cb bs\<close> says that memory \<open>m\<close> holds
  the pointer, the block and the struct \<open>bs\<close>, and the rest of the low memory as in \<open>s\<close>.
\<close>

definition called ::
  "'a mailbox_scheme \<Rightarrow> 'a mailbox_scheme \<Rightarrow> u16 \<Rightarrow> u16 \<Rightarrow> u16 \<Rightarrow> u8 list \<Rightarrow> bool" where
  "called s t cbk callid cb bs \<longleftrightarrow> t = s\<lparr>mem := mem t, errno := 0\<rparr> \<and>
     ld16 t 0xFFF8 = cbk \<and> ld16 t cbk = callid \<and> ld16 t (cbk + 2) = cb \<and>
     (\<forall>i < length bs. mem t (uint cb + int i) = bs ! i) \<and>
     (\<forall>k. 0 \<le> k \<and> k < 0xA000 \<and> \<not> (uint cb \<le> k \<and> k < uint cb + int (length bs)) \<and>
        \<not> (uint cbk \<le> k \<and> k < uint cbk + 4) \<longrightarrow> mem t k = mem s k)"

text \<open>The linker's placement: struct and block in low memory, apart.\<close>

definition placed :: "u16 \<Rightarrow> nat \<Rightarrow> u16 \<Rightarrow> bool" where
  "placed cb n cbk \<longleftrightarrow> uint cb + int n \<le> 0xA000 \<and> uint cbk + 4 \<le> 0xA000 \<and>
     (uint cb + int n \<le> uint cbk \<or> uint cbk + 4 \<le> uint cb)"

lemma bus_stores_Nil [simp]: "bus_stores H [] = Inr"
  by (rule ext) simp

lemma send_for_pi_called:
  assumes s: "indexed s" "himem2_page s = 0" and pl: "placed cb (length bs) cbk"
  obtains t where
    "send_for_pi H cbk callid cb (lay s (uint cb) bs) = bindR (sync_libC_assist H t) (\<lambda>(r, u). finish H r u)"
    "called s t cbk callid cb bs" "indexed t"
proof -
  let ?s1 = "lay s (uint cb) bs"
  define s2 where "s2 = lay ?s1 (uint cbk) (bytes16 [callid, cb])"
  have s2: "indexed s2" "himem2_page s2 = 0"
    using s by (simp_all only: s2_def lay_frame)
  obtain s3 where s3: "mem_write H 0xFFF8 (lo8 cbk) s2 = Inr s3"
    "mem_write H 0xFFF9 (hi8 cbk) s3 = bindR (sync_libC_assist H (assist_entry (hi8 cbk) s3)) (\<lambda>(r, t). Inr (deposit_result r t))"
    "ld16 (assist_entry (hi8 cbk) s3) 0xFFF8 = cbk"
    using assist_pointer [OF s2(1), of H cbk] s2(2) by auto
  let ?t = "assist_entry (hi8 cbk) s3"
  have s3_eq: "s3 = poke (phys (Bank2 0 0xFFF8)) (lo8 cbk) s2"
    using s3(1) s2(1) by (simp add: mem_write_top write_himem2_top_def top_cells del: phys.simps)
  have i3: "indexed s3"
    using s2(1) by (simp add: s3_eq)
  have t_eq: "?t = (poke (phys (Bank2 0 0xFFF9)) (hi8 cbk) s3)\<lparr>errno := 0\<rparr>"
    using top_cells(3) [OF i3] by (simp add: assist_entry_def poke_def del: phys.simps)
  have low: "mem ?t k = mem s2 k" if "k < 0xA000" for k
    using that unfolding t_eq by (simp add: s3_eq)
  have cbk: "uint (cbk + 2) = uint cbk + 2"
    using pl uint_add_low [of cbk 2] by (simp add: placed_def)
  have block: "mem ?t (uint cbk + int i) = bytes16 [callid, cb] ! i" if "i < 4" for i
    using that pl by (simp add: low placed_def s2_def mem_lay del: put_list.simps)
  have m0: "mem ?t (uint cbk) = lo8 callid" "mem ?t (uint cbk + 1) = hi8 callid"
    "mem ?t (uint cbk + 2) = lo8 cb" "mem ?t (uint cbk + 3) = hi8 cb"
    using block [of 0] block [of 1] block [of 2] block [of 3] by (simp_all add: numeral_nat)
  have "ld16 ?t cbk = callid" "ld16 ?t (cbk + 2) = cb"
    using pl m0 by (simp_all add: ld16_low cbk placed_def add.assoc)
  moreover have "mem ?t (uint cb + int i) = bs ! i" if "i < length bs" for i
    using that pl by (auto simp: low placed_def s2_def mem_lay simp del: put_list.simps)
  moreover have "mem ?t k = mem s k"
    if "0 \<le> k" "k < 0xA000" "\<not> (uint cb \<le> k \<and> k < uint cb + int (length bs))"
      "\<not> (uint cbk \<le> k \<and> k < uint cbk + 4)" for k
    using that by (auto simp: low s2_def mem_lay simp del: put_list.simps)
  moreover have "?t = s\<lparr>mem := mem ?t, errno := 0\<rparr>"
  proof -
    have "s2 = s\<lparr>mem := mem s2\<rparr>"
      unfolding s2_def by (subst lay_mem, subst lay_mem) simp
    then obtain g where g: "s2 = s\<lparr>mem := g\<rparr>" ..
    have "?t = s\<lparr>mem := g(phys (Bank2 0 0xFFF8) := lo8 cbk, phys (Bank2 0 0xFFF9) := hi8 cbk), errno := 0\<rparr>"
      by (subst t_eq) (simp add: s3_eq g poke_def)
    then show ?thesis
      by simp
  qed
  ultimately have "called s ?t cbk callid cb bs"
    using s3(3) unfolding called_def by blast
  moreover have "send_for_pi H cbk callid cb ?s1 = bindR (sync_libC_assist H ?t) (\<lambda>(r, u). finish H r u)"
  proof -
    have "store_fields H cbk [callid, cb] ?s1 = Inr s2"
      unfolding s2_def using pl by (intro store_fields_low) (simp add: placed_def)
    moreover have "store16 H 0xFFF8 cbk s2 =
        bindR (sync_libC_assist H ?t) (\<lambda>(r, t). Inr (deposit_result r t))"
      using s3(1,2) by (simp add: store16_def)
    ultimately show ?thesis
      unfolding send_for_pi_def finish_def
      by (simp add: bindR_assoc Let_def) (auto intro!: bindR_cong simp: split_beta)
  qed
  ultimately show thesis
    using i3 by (intro that [of ?t]) simp_all
qed

lemma call_with_called:
  assumes "indexed s" "himem2_page s = 0" and pl: "placed cb (2 * length ws) cbk"
  obtains t where "call_with H cb cbk callid ws s = bindR (sync_libC_assist H t) (\<lambda>(r, u). finish H r u)"
    "called s t cbk callid cb (bytes16 ws)" "indexed t"
proof -
  have "store_fields H cb ws s = Inr (lay s (uint cb) (bytes16 ws))"
    using pl by (intro store_fields_low) (simp add: placed_def)
  then have eq: "call_with H cb cbk callid ws s = send_for_pi H cbk callid cb (lay s (uint cb) (bytes16 ws))"
    by (simp add: call_with_def)
  obtain t where "send_for_pi H cbk callid cb (lay s (uint cb) (bytes16 ws)) =
      bindR (sync_libC_assist H t) (\<lambda>(r, u). finish H r u)"
    "called s t cbk callid cb (bytes16 ws)" "indexed t"
    using pl by (rule_tac send_for_pi_called [OF assms(1,2), of cb "bytes16 ws" cbk H callid]) simp_all
  then show thesis
    unfolding eq [symmetric] by (rule that)
qed

lemma call_with_char_called:
  assumes "indexed s" "himem2_page s = 0" and pl: "placed cb (2 * length ws + 1) cbk"
  obtains t where "call_with_char H cb cbk callid ws col s = bindR (sync_libC_assist H t) (\<lambda>(r, u). finish H r u)"
    "called s t cbk callid cb (bytes16 ws @ [col])" "indexed t"
proof -
  let ?s1 = "lay s (uint cb) (bytes16 ws)"
  have room: "uint cb + 2 * int (length ws) < 0xA000"
    using pl by (simp add: placed_def)
  then have "store_fields H cb ws s = Inr ?s1"
    by (intro store_fields_low) simp
  moreover have "uint (cb + of_nat (2 * length ws)) = uint cb + int (2 * length ws)"
    using room by (intro uint_add_low) simp
  then have "mem_write H (cb + 2 * of_nat (length ws)) col ?s1 = Inr (lay s (uint cb) (bytes16 ws @ [col]))"
    using room by (simp add: mem_write_low lay_append)
  ultimately have eq: "call_with_char H cb cbk callid ws col s =
      send_for_pi H cbk callid cb (lay s (uint cb) (bytes16 ws @ [col]))"
    by (simp add: call_with_char_def)
  obtain t where "send_for_pi H cbk callid cb (lay s (uint cb) (bytes16 ws @ [col])) =
      bindR (sync_libC_assist H t) (\<lambda>(r, u). finish H r u)"
    "called s t cbk callid cb (bytes16 ws @ [col])" "indexed t"
    using pl by (rule_tac send_for_pi_called [OF assms(1,2), of cb "bytes16 ws @ [col]" cbk H callid]) simp_all
  then show thesis
    unfolding eq [symmetric] by (rule that)
qed

text \<open>Reading a field of the struct on the other side.\<close>

lemma called_field:
  assumes "called s t cbk callid cb bs" "placed cb (length bs) cbk" "Suc k < length bs"
  shows "ld16 t (cb + of_nat k) = u16_of (bs ! k) (bs ! Suc k)"
proof -
  have "uint (cb + of_nat k) = uint cb + int k"
    using assms by (intro uint_add_low) (simp add: placed_def)
  moreover have "mem t (uint cb + int k) = bs ! k" "mem t (uint cb + int (Suc k)) = bs ! Suc k"
    using assms unfolding called_def by (meson Suc_lessD)+
  ultimately show ?thesis
    using assms by (simp add: ld16_low placed_def algebra_simps)
qed

lemma called_byte:
  assumes "called s t cbk callid cb bs" "placed cb (length bs) cbk" "k < length bs"
  shows "ld8 t (cb + of_nat k) = bs ! k"
proof -
  have "uint (cb + of_nat k) = uint cb + int k"
    using assms by (intro uint_add_low) (simp add: placed_def)
  then show ?thesis
    using assms by (simp add: ld8_low placed_def called_def)
qed

lemma called_state:
  assumes "called s t cbk callid cb bs"
  shows "ld16 t 0xFFF8 = cbk" "ld16 t cbk = callid" "ld16 t (cbk + 2) = cb" "trace t = trace s"
    "himem2_page t = himem2_page s" "io_read_top_handler t = io_read_top_handler s" "errno t = 0"
    "fbmem t = fbmem s" "io_write_top_handler t = io_write_top_handler s"
proof -
  from assms obtain m where m: "t = s\<lparr>mem := m, errno := 0\<rparr>"
    unfolding called_def by blast
  show "trace t = trace s" "himem2_page t = himem2_page s" "errno t = 0" "fbmem t = fbmem s"
    "io_read_top_handler t = io_read_top_handler s" "io_write_top_handler t = io_write_top_handler s"
    by (simp_all add: m)
qed (use assms in \<open>simp_all add: called_def\<close>)

text \<open>With no handler on the last block of the top page, a call returns the assist's result.\<close>

lemma finish_result:
  "indexed u \<Longrightarrow> io_read_top_handler u 0xF = None \<Longrightarrow> finish H r u = Inr (ucast r, deposit_result r u)"
proof -
  assume u: "indexed u" "io_read_top_handler u 0xF = None"
  have "snd (mem_read H 0xFFF8 (deposit_result r u)) = deposit_result r u"
    using u(2) by (simp add: mem_read_top read_himem2_top_def deposit_result_def)
  then show ?thesis
    using assist_result [OF u(1), of H r] u(2) by (simp add: finish_def split_beta Let_def)
qed

lemma deposit_low:
  "indexed u \<Longrightarrow> k < 0xA000 \<Longrightarrow> mem (deposit_result r u) k = mem u k"
  by (simp add: deposit_result_def top_cells)

lemma deposit_frame [simp]:
  "trace (deposit_result r u) = trace u" "fbmem (deposit_result r u) = fbmem u"
  "io_read_top_handler (deposit_result r u) = io_read_top_handler u"
  by (simp_all add: deposit_result_def poke_def)

section \<open>File calls end to end\<close>

lemma syscall_fbmem [simp]: "fbmem (snd (syscall H e s)) = fbmem s"
  by (simp add: syscall_def Let_def emit_def)

lemma indexed_syscall [simp]: "indexed (snd (syscall H e s)) = indexed s"
  by (simp add: indexed_def)

text \<open>A buffer in low memory, apart from the struct and the block.\<close>

definition clear_of :: "u16 \<Rightarrow> nat \<Rightarrow> u16 \<Rightarrow> nat \<Rightarrow> u16 \<Rightarrow> bool" where
  "clear_of buf n cb m cbk \<longleftrightarrow> uint buf + int n \<le> 0xA000 \<and>
     (uint buf + int n \<le> uint cb \<or> uint cb + int m \<le> uint buf) \<and>
     (uint buf + int n \<le> uint cbk \<or> uint cbk + 4 \<le> uint buf)"

text \<open>The guest's bytes behind a pointer.\<close>

definition guest_bytes :: "'a memory_scheme \<Rightarrow> u16 \<Rightarrow> nat \<Rightarrow> u8 list" where
  "guest_bytes s a n = map (\<lambda>k. mem s (uint a + int k)) [0..<n]"

lemma called_bytes:
  "called s t cbk callid cb bs \<Longrightarrow> clear_of buf n cb (length bs) cbk \<Longrightarrow> guest_bytes t buf n = guest_bytes s buf n"
  unfolding guest_bytes_def called_def clear_of_def
  by (intro map_cong refl) (simp, smt (verit) uint_u16_bound of_nat_less_iff of_nat_0_le_iff)

lemma assist_libc:
  assumes "called s t cbk callid cb bs" "callid AND 0xFF00 = 0x0100"
  shows "sync_libC_assist H t = bindR (libc_call H callid cbk t) (\<lambda>(r, s'). Inr (word_of_int r, s'))"
  using assms(2) called_state(1,2) [OF assms(1)]
  by (simp add: sync_libC_assist_def Let_def unit_opcodes)

lemma fields3:
  assumes "called s t cbk callid cb (bytes16 [a, b, c])" "placed cb 6 cbk"
  shows "ld16 t cb = a" "ld16 t (cb + 2) = b" "ld16 t (cb + 4) = c"
proof -
  have "placed cb (length (bytes16 [a, b, c])) cbk"
    using assms(2) by (simp del: bytes16_simps)
  from called_field [OF assms(1) this, of 0] called_field [OF assms(1) this, of 2]
    called_field [OF assms(1) this, of 4]
  show "ld16 t cb = a" "ld16 t (cb + 2) = b" "ld16 t (cb + 4) = c"
    by (simp_all add: numeral_nat)
qed

lemma fields2:
  assumes "called s t cbk callid cb (bytes16 [a, b])" "placed cb 4 cbk"
  shows "ld16 t cb = a" "ld16 t (cb + 2) = b"
proof -
  have "placed cb (length (bytes16 [a, b])) cbk"
    using assms(2) by (simp del: bytes16_simps)
  from called_field [OF assms(1) this, of 0] called_field [OF assms(1) this, of 2]
  show "ld16 t cb = a" "ld16 t (cb + 2) = b"
    by (simp_all add: numeral_nat)
qed

text \<open>Low memory outside the struct and the block.\<close>

definition kept_low :: "'a memory_scheme \<Rightarrow> 'a memory_scheme \<Rightarrow> u16 \<Rightarrow> nat \<Rightarrow> u16 \<Rightarrow> bool" where
  "kept_low s s' cb n cbk \<longleftrightarrow> (\<forall>k. 0 \<le> k \<and> k < 0xA000 \<and> \<not> (uint cb \<le> k \<and> k < uint cb + int n) \<and>
     \<not> (uint cbk \<le> k \<and> k < uint cbk + 4) \<longrightarrow> mem s' k = mem s k)"

lemma called_kept: "called s t cbk callid cb bs \<Longrightarrow> kept_low s t cb (length bs) cbk"
  by (simp add: called_def kept_low_def)

text \<open>C1. A guest's \<^verbatim>\<open>write(fd, buf, count)\<close> reaches the host as one \<^verbatim>\<open>write\<close> of exactly the
  guest's bytes; its result is the low byte of what the host returned, and of low memory only
  the call's struct and block are changed.\<close>

theorem write_delivers:
  assumes s: "indexed s" "himem2_page s = 0" "io_read_top_handler s 0xF = None"
    and pl: "placed cb 6 cbk" and buf: "clear_of buf (unat count) cb 6 cbk"
  shows "\<exists>s'. pi_write H cb cbk fd buf count s =
      Inr (ucast (word_of_int (os_ret (os_call H (trace s) (Write fd (guest_bytes s buf (unat count))))) :: u8), s') \<and>
    trace s' = Write fd (guest_bytes s buf (unat count)) # trace s \<and> fbmem s' = fbmem s \<and> kept_low s s' cb 6 cbk"
proof -
  let ?bs = "guest_bytes s buf (unat count)"
  obtain t where call: "pi_write H cb cbk fd buf count s = bindR (sync_libC_assist H t) (\<lambda>(r, u). finish H r u)"
    and t: "called s t cbk PI_LIBC_WRITE cb (bytes16 [fd, buf, count])" "indexed t"
    using call_with_called [OF s(1,2), of cb "[fd, buf, count]" cbk H PI_LIBC_WRITE] pl
    by (auto simp: pi_write_def)
  note f = fields3 [OF t(1) pl] and st = called_state [OF t(1)]
  have "uint buf < 0xA000 \<or> unat count = 0"
    using buf unfolding clear_of_def by linarith
  then have "host_bytes t (mem_base t buf) (unat count) = Inr (guest_bytes t buf (unat count))"
    unfolding host_bytes_ok [OF t(2)] by (auto simp: mem_base_low guest_bytes_def)
  moreover have "guest_bytes t buf (unat count) = ?bs"
    by (rule called_bytes [OF t(1)]) (use buf in \<open>simp del: bytes16_simps\<close>)
  ultimately have "host_bytes t (mem_base t buf) (unat count) = Inr ?bs"
    by simp
  then have "sync_libC_assist H t =
      Inr (word_of_int (os_ret (os_call H (trace s) (Write fd ?bs))), snd (syscall H (Write fd ?bs) t))"
    using assist_libc [OF t(1)]
    by (simp add: PI_LIBC_WRITE_def libc_call_def libc_opcodes cb_write_def Let_def split_beta st f)
  then have "pi_write H cb cbk fd buf count s =
      Inr (ucast (word_of_int (os_ret (os_call H (trace s) (Write fd ?bs))) :: u8),
        deposit_result (word_of_int (os_ret (os_call H (trace s) (Write fd ?bs)))) (snd (syscall H (Write fd ?bs) t)))"
    using finish_result [of "snd (syscall H (Write fd ?bs) t)"] t(2) st(6) s(3)
    by (simp add: call)
  then show ?thesis
    using called_kept [OF t(1)] t(2) st
    by (simp add: kept_low_def deposit_low)
qed

lemma mem_lay_bytes:
  "uint a + int (length bs) \<le> 0xA000 \<Longrightarrow> guest_bytes (lay s (uint a) bs) a (length bs) = bs"
  by (intro nth_equalityI) (auto simp: guest_bytes_def mem_lay simp del: put_list.simps)

lemma lay_fields [simp]:
  "io_read_top_handler (lay s k bs) = io_read_top_handler s" "himem1_index (lay s k bs) = himem1_index s"
  "himem2_index (lay s k bs) = himem2_index s"
  by (induction bs arbitrary: s k) simp_all

text \<open>C2. A guest's \<^verbatim>\<open>read(fd, buf, count)\<close> is one \<^verbatim>\<open>read\<close> of the host; on a POSIX host the bytes
  it delivers are exactly in the guest's buffer afterwards, and low memory is otherwise changed
  only in the call's struct and block.\<close>

theorem read_delivers:
  assumes s: "indexed s" "himem2_page s = 0" "io_read_top_handler s 0xF = None"
    and pl: "placed cb 6 cbk" and buf: "clear_of buf (unat count) cb 6 cbk" and H: "posix_read H"
  shows "\<exists>s'. pi_read H cb cbk fd buf count s =
      Inr (ucast (word_of_int (os_ret (os_call H (trace s) (Read fd count))) :: u8), s') \<and>
    trace s' = Read fd count # trace s \<and>
    (let bs = os_data (os_call H (trace s) (Read fd count)) in
      guest_bytes s' buf (length bs) = bs \<and>
      (\<forall>k. 0 \<le> k \<and> k < 0xA000 \<and> \<not> (uint cb \<le> k \<and> k < uint cb + 6) \<and> \<not> (uint cbk \<le> k \<and> k < uint cbk + 4) \<and>
         \<not> (uint buf \<le> k \<and> k < uint buf + int (length bs)) \<longrightarrow> mem s' k = mem s k))"
proof -
  let ?r = "os_call H (trace s) (Read fd count)"
  define bs where "bs = os_data ?r"
  obtain t where call: "pi_read H cb cbk fd buf count s = bindR (sync_libC_assist H t) (\<lambda>(r, u). finish H r u)"
    and t: "called s t cbk PI_LIBC_READ cb (bytes16 [fd, buf, count])" "indexed t"
    using call_with_called [OF s(1,2), of cb "[fd, buf, count]" cbk H PI_LIBC_READ] pl
    by (auto simp: pi_read_def)
  note f = fields3 [OF t(1) pl] and st = called_state [OF t(1)]
  have len: "length bs \<le> unat count"
    using H by (simp add: posix_read_def Let_def bs_def)
  have base: "mem_base t buf = uint buf \<or> bs = []"
  proof (cases "bs = []")
    case False
    then have "0 < length bs" by simp
    then have "uint buf < 0xA000"
      using len buf unfolding clear_of_def by linarith
    then show ?thesis
      by (simp add: mem_base_low)
  qed simp
  define u where "u = lay (snd (syscall H (Read fd count) t)) (uint buf) bs"
  have "host_store (mem_base t buf) bs (snd (syscall H (Read fd count) t)) = Inr u"
    unfolding host_store_ok [OF t(2) len] u_def using base by auto
  then have "sync_libC_assist H t = Inr (word_of_int (os_ret ?r), u)"
    using assist_libc [OF t(1)]
    by (simp add: PI_LIBC_READ_def libc_call_def libc_opcodes cb_read_def Let_def split_beta st f bs_def)
  moreover have iu: "indexed u" "io_read_top_handler u 0xF = None"
    using t(2) st(6) s(3) by (simp_all add: u_def)
  ultimately have "pi_read H cb cbk fd buf count s =
      Inr (ucast (word_of_int (os_ret ?r) :: u8), deposit_result (word_of_int (os_ret ?r)) u)"
    using finish_result [OF iu] by (simp add: call)
  moreover have room: "uint buf + int (length bs) \<le> 0xA000"
    using len buf unfolding clear_of_def by linarith
  have "guest_bytes (deposit_result (word_of_int (os_ret ?r)) u) buf (length bs) = guest_bytes u buf (length bs)"
    unfolding guest_bytes_def using room by (intro map_cong refl deposit_low iu) auto
  moreover have "guest_bytes u buf (length bs) = bs"
    unfolding u_def using room by (rule mem_lay_bytes)
  moreover have "mem (deposit_result (word_of_int (os_ret ?r)) u) k = mem s k"
    if "0 \<le> k" "k < 0xA000" "\<not> (uint cb \<le> k \<and> k < uint cb + 6)" "\<not> (uint cbk \<le> k \<and> k < uint cbk + 4)"
      "\<not> (uint buf \<le> k \<and> k < uint buf + int (length bs))" for k
  proof -
    have "mem t k = mem s k"
      using that called_kept [OF t(1)] by (simp add: kept_low_def del: bytes16_simps)
    then have "mem u k = mem s k"
      using that(5) unfolding u_def mem_lay by auto
    then show ?thesis
      using that(2) by (simp add: deposit_low [OF iu(1)])
  qed
  ultimately show ?thesis
    unfolding bs_def [symmetric] Let_def
    by (intro exI [of _ "deposit_result (word_of_int (os_ret ?r)) u"]) (auto simp: u_def st)
qed

lemma c_string_low:
  assumes "guest_bytes t a (length bs) = bs" "0 \<notin> set bs" "mem t (uint a + int (length bs)) = 0"
    and "uint a + int (length bs) < 0xA000"
  shows "c_string t (mem_base t a) = Inr bs"
proof -
  have "mem t (uint a + int i) = bs ! i" if "i < length bs" for i
    using arg_cong [OF assms(1), of "\<lambda>l. l ! i"] that by (simp add: guest_bytes_def)
  moreover have "bs ! i \<noteq> 0" if "i < length bs" for i
    using assms(2) that nth_mem by metis
  moreover have "mem_base t a = uint a"
    using assms(4) by (intro mem_base_low) linarith
  ultimately show ?thesis
    unfolding c_string_iff using assms(3,4) uint_u16_bound [of a] by (simp add: layout_defs)
qed

text \<open>A guest's \<^verbatim>\<open>open(pathname, flags)\<close> passes the host the NUL-terminated string as the
  guest stored it and the flags as a number, unchanged.\<close>

theorem open_delivers:
  assumes s: "indexed s" "himem2_page s = 0" "io_read_top_handler s 0xF = None"
    and pl: "placed cb 4 cbk" and path: "clear_of pathname (Suc (length bs)) cb 4 cbk"
    and str: "guest_bytes s pathname (Suc (length bs)) = bs @ [0]" "0 \<notin> set bs"
  shows "\<exists>s'. pi_open H cb cbk pathname flags s =
      Inr (ucast (word_of_int (os_ret (os_call H (trace s) (Open bs flags))) :: u8), s') \<and>
    trace s' = Open bs flags # trace s \<and> kept_low s s' cb 4 cbk"
proof -
  let ?r = "os_ret (os_call H (trace s) (Open bs flags))"
  obtain t where call: "pi_open H cb cbk pathname flags s = bindR (sync_libC_assist H t) (\<lambda>(r, u). finish H r u)"
    and t: "called s t cbk PI_LIBC_OPEN cb (bytes16 [pathname, flags])" "indexed t"
    using call_with_called [OF s(1,2), of cb "[pathname, flags]" cbk H PI_LIBC_OPEN] pl
    by (auto simp: pi_open_def)
  note f = fields2 [OF t(1) pl] and st = called_state [OF t(1)]
  have "guest_bytes t pathname (Suc (length bs)) = bs @ [0]"
    using called_bytes [OF t(1), of pathname "Suc (length bs)"] path str(1) by (simp del: bytes16_simps)
  then have "guest_bytes t pathname (length bs) = bs" "mem t (uint pathname + int (length bs)) = 0"
    by (simp_all add: guest_bytes_def)
  then have "c_string t (mem_base t pathname) = Inr bs"
    using path str(2) by (intro c_string_low) (simp_all add: clear_of_def)
  then have "sync_libC_assist H t = Inr (word_of_int ?r, snd (syscall H (Open bs flags) t))"
    using assist_libc [OF t(1)]
    by (simp add: PI_LIBC_OPEN_def libc_call_def libc_opcodes cb_open_def Let_def split_beta st f)
  then have "pi_open H cb cbk pathname flags s =
      Inr (ucast (word_of_int ?r :: u8), deposit_result (word_of_int ?r) (snd (syscall H (Open bs flags) t)))"
    using finish_result [of "snd (syscall H (Open bs flags) t)"] t(2) st(6) s(3)
    by (simp add: call)
  then show ?thesis
    using called_kept [OF t(1)] t(2) st
    by (simp add: kept_low_def deposit_low)
qed

text \<open>\<^verbatim>\<open>sysexit(rc)\<close> ends the process with that status; it does not return to the guest.\<close>

theorem sysexit_exits:
  assumes "indexed s" "himem2_page s = 0" and pl: "placed cb 2 cbk"
  shows "pi_sysexit H cb cbk rc s = Inl (Exited (uint rc))"
proof -
  obtain t where call: "pi_sysexit H cb cbk rc s = bindR (sync_libC_assist H t) (\<lambda>(r, u). finish H r u)"
    and t: "called s t cbk PI_LIBC_SYSEXIT cb (bytes16 [rc])" "indexed t"
    using call_with_called [OF assms(1,2), of cb "[rc]" cbk H PI_LIBC_SYSEXIT] pl
    by (auto simp: pi_sysexit_def)
  have "placed cb (length (bytes16 [rc])) cbk"
    using pl by (simp del: bytes16_simps)
  from called_field [OF t(1) this, of 0] have "ld16 t cb = rc"
    by simp
  then have "sync_libC_assist H t = Inl (Exited (uint rc))"
    using assist_libc [OF t(1)] called_state [OF t(1)]
    by (simp add: PI_LIBC_SYSEXIT_def libc_call_def libc_opcodes cb_sysexit_def Let_def)
  then show ?thesis
    by (simp add: call)
qed

section \<open>Results are bytes\<close>

lemma sint_byte: "sint (ucast (v :: u8) :: u16) = uint v"
proof -
  have "uint (ucast v :: u16) = uint v"
    using uint_u8_bound [of v] by (simp add: unsigned_ucast_eq take_bit_int_eq_self)
  then show ?thesis
    using uint_u8_bound [of v] by (simp add: sint_u16)
qed

lemma keeps_any: "(\<And>x. P x) \<Longrightarrow> keeps P r"
  by (cases r) simp_all

lemma keeps_bind_any: "(\<And>x. keeps P (f x)) \<Longrightarrow> keeps P (bindR r f)"
  by (cases r) simp_all

lemma send_for_pi_byte: "keeps (\<lambda>(r, s'). 0 \<le> sint r \<and> sint r < 256) (send_for_pi H cbk callid data s)"
  unfolding send_for_pi_def split_beta Let_def
  by (intro keeps_bind_any) (use uint_u8_bound in \<open>simp add: sint_byte\<close>)

lemma pi_read_byte: "keeps (\<lambda>(r, s'). 0 \<le> sint r \<and> sint r < 256) (pi_read H cb cbk fd buf count s)"
  unfolding pi_read_def call_with_def by (intro keeps_bind_any send_for_pi_byte)

text \<open>No call of the library returns a negative number to the guest, so the error branch of
  \<^verbatim>\<open>getchar\<close> is dead: a failed read returns the buffer's content like any other.\<close>

theorem getchar_ignores_errors:
  "pi_getchar H cb cbk gcbuf s =
     bindR (bus_stores H [(gcbuf, 0), (gcbuf + 1, 0)] s) (\<lambda>s.
     bindR (pi_read H cb cbk 0 gcbuf 1 s) (\<lambda>(r, s).
     let (c, s) = mem_read H gcbuf s in Inr (ucast c, s)))"
  unfolding pi_getchar_def
proof (rule bindR_cong, rule bindR_cong)
  fix s x
  assume "pi_read H cb cbk 0 gcbuf 1 s = Inr x"
  from keeps_Inr [OF pi_read_byte this] have "0 \<le> sint (fst x)"
    by (simp add: split_beta)
  then show "(case x of (r, s) \<Rightarrow> if sint r < 0 then Inr (255, s)
       else let (c, s) = mem_read H gcbuf s in Inr (ucast c, s)) =
     (case x of (r, s) \<Rightarrow> let (c, s) = mem_read H gcbuf s in Inr (ucast c, s))"
    by (simp add: split_beta)
qed

section \<open>Drawing end to end\<close>

lemma fb_ok_mem [simp]: "fb_ok (s\<lparr>mem := m, errno := e\<rparr>) = fb_ok s"
  by (simp add: fb_ok_def)

lemma on_screen_mem [simp]: "on_screen (s\<lparr>mem := m, errno := e\<rparr>) q = on_screen s q"
  by (simp add: on_screen_def)

lemma pixel_mem [simp]: "pixel (s\<lparr>mem := m, errno := e\<rparr>) q = pixel s q"
  by (simp add: pixel_def offset_def)

lemma pixel_deposit [simp]: "pixel (deposit_result r u) q = pixel u q"
  by (simp add: pixel_def offset_def deposit_result_def poke_def)

lemma called_screen:
  assumes "called s t cbk callid cb bs"
  shows "fb_ok t = fb_ok s" "on_screen t q = on_screen s q" "pixel t q = pixel s q"
proof -
  from assms obtain m where m: "t = s\<lparr>mem := m, errno := 0\<rparr>"
    unfolding called_def by blast
  show "fb_ok t = fb_ok s" "on_screen t q = on_screen s q" "pixel t q = pixel s q"
    by (simp_all add: m)
qed

text \<open>C4. A guest's \<^verbatim>\<open>fb_line\<close> between two points of the screen draws exactly the points of
  that line in the colour given and returns 0; the arguments survive the trip through the
  struct, and guest memory outside struct and block is unchanged.\<close>

theorem client_line_draws:
  assumes s: "indexed s" "himem2_page s = 0" "io_read_top_handler s 0xF = None"
    and ok: "fb_ok s" and ends: "on_screen s (uint x, uint y)" "on_screen s (uint x1, uint y1)"
    and col: "unat col < 255" and pl: "placed cb 9 cbk"
  shows "\<exists>s'. pi_fb_line H cb cbk x y x1 y1 col s = Inr (0, s') \<and> kept_low s s' cb 9 cbk \<and>
    (\<forall>q. on_screen s q \<longrightarrow> pixel s' q =
      (if q \<in> set (line_points (uint x) (uint y) (uint x1) (uint y1)) then palette ! unat col else pixel s q))"
proof -
  let ?bs = "bytes16 [x, y, x1, y1] @ [col]"
  have len: "length ?bs = 9"
    by simp
  obtain t where call: "pi_fb_line H cb cbk x y x1 y1 col s = bindR (sync_libC_assist H t) (\<lambda>(r, u). finish H r u)"
    and t: "called s t cbk PI_FB_LINE cb ?bs" "indexed t"
    using call_with_char_called [OF s(1,2), of cb "[x, y, x1, y1]" cbk H PI_FB_LINE col] pl
    by (auto simp: pi_fb_line_def)
  note st = called_state [OF t(1)] and scr = called_screen [OF t(1)]
  have pl': "placed cb (length ?bs) cbk"
    using pl unfolding len .
  have f: "ld16 t cb = x" "ld16 t (cb + 2) = y" "ld16 t (cb + 4) = x1" "ld16 t (cb + 6) = y1" "ld8 t (cb + 8) = col"
    using called_field [OF t(1) pl', of 0] called_field [OF t(1) pl', of 2] called_field [OF t(1) pl', of 4]
      called_field [OF t(1) pl', of 6] called_byte [OF t(1) pl', of 8]
    by (simp_all add: numeral_nat)
  obtain u where u: "prim_line (uint x) (uint y) (uint x1) (uint y1) col t = Inr u" "fb_frame u = fb_frame t"
    "\<And>q. on_screen t q \<Longrightarrow> pixel u q = (if q \<in> set (line_points (uint x) (uint y) (uint x1) (uint y1))
       then palette ! unat col else pixel t q)"
    using border_line [of t "uint x" "uint y" "uint x1" "uint y1" col] ok ends col scr by metis
  have "sync_libC_assist H t = Inr (0, u)"
    by (simp add: sync_libC_assist_def sync_fb_assist_def fb_line_def Let_def unit_opcodes fb_opcodes
        st(1) st(2) [unfolded fb_opcodes] st(3) f u(1))
  moreover have fr: "mem u = mem t" "io_read_top_handler u 0xF = None" "indexed u"
    using fb_frame_globals [OF u(2)] st(6) s(3) t(2) by (simp_all add: indexed_def)
  ultimately have "pi_fb_line H cb cbk x y x1 y1 col s = Inr (0, deposit_result 0 u)"
    using finish_result [OF fr(3,2), of H 0] by (simp add: call)
  moreover have "kept_low s (deposit_result 0 u) cb 9 cbk"
    using called_kept [OF t(1)] unfolding len kept_low_def by (simp add: deposit_low [OF fr(3)] fr(1))
  ultimately show ?thesis
    using u(3) scr by (intro exI [of _ "deposit_result 0 u"]) simp
qed

section \<open>Sleeping\<close>

definition time_installed :: "'a memory_scheme \<Rightarrow> bool" where
  "time_installed s \<longleftrightarrow> io_write_top_handler s 2 = Some Time_mem_io_write \<and>
     io_read_top_handler s 2 = Some Time_mem_io_read"

lemma time_installed_write [simp]: "time_installed (time_mem_io_write H a v s) = time_installed s"
  by (simp add: time_installed_def time_write_memory)

lemma time_installed_read [simp]: "time_installed (snd (time_mem_io_read H a s)) = time_installed s"
  by (simp add: time_installed_def time_read_memory)

lemma deadline_store:
  assumes "time_installed s"
  shows "store16 H 0xFF2C d s = Inr (start_deadline H d s)" "time_installed (start_deadline H d s)"
proof -
  have "mem_write H 0xFF2C v t = Inr (time_mem_io_write H 0xFF2C v t)"
    "mem_write H 0xFF2D v t = Inr (time_mem_io_write H 0xFF2D v t)"
    if "time_installed t" for v and t :: "'a mailbox_scheme"
    using that by (simp_all add: mem_write_top write_himem2_top_def time_installed_def)
  with assms show "store16 H 0xFF2C d s = Inr (start_deadline H d s)"
    by (simp add: store16_def start_deadline_def)
  show "time_installed (start_deadline H d s)"
    using assms by (simp add: start_deadline_def)
qed

lemma deadline_poll:
  "time_installed s \<Longrightarrow> mem_read H 0xFF2C s = time_mem_io_read H 0xFF2C s"
  by (simp add: mem_read_top read_himem2_top_def time_installed_def)

lemma poll_state:
  "deadline (snd (time_mem_io_read H 0xFF2C s)) = deadline s"
  "trace (snd (time_mem_io_read H 0xFF2C s)) = Gettimeofday # trace s"
  "ms (snd (time_mem_io_read H 0xFF2C s)) = os_clock H (trace s)"
  by (simp_all add: time_mem_io_read_def gettimeofday_def Let_def)

lemma msleep_poll_step:
  assumes "time_installed t" "deadline t = deadline (start_deadline H d s)" "\<forall>tr. clock_ok (os_clock H tr)"
  shows "msleep_poll H t =
    (if millis (os_clock H (trace t)) < millis (os_clock H (trace s)) + uint d
     then msleep_poll H (snd (time_mem_io_read H 0xFF2C t))
     else Some (Inr (snd (time_mem_io_read H 0xFF2C t))))"
  unfolding msleep_poll.simps [of H t] deadline_poll [OF assms(1)]
  using deadline_reads [OF _ _ assms(2)] assms(3) by (simp add: split_beta)

lemma msleep_poll_returns:
  assumes "\<forall>tr. clock_ok (os_clock H tr)"
    and clock: "\<forall>tr. n \<le> length tr \<longrightarrow> millis (os_clock H (trace s)) + uint d \<le> millis (os_clock H tr)"
  shows "time_installed t \<Longrightarrow> deadline t = deadline (start_deadline H d s) \<Longrightarrow>
    \<exists>u. msleep_poll H t = Some (Inr u) \<and> millis (os_clock H (trace s)) + uint d \<le> millis (ms u)"
proof (induction "n - length (trace t)" arbitrary: t rule: less_induct)
  case less
  note step = msleep_poll_step [OF less.prems assms(1)]
  show ?case
  proof (cases "millis (os_clock H (trace t)) < millis (os_clock H (trace s)) + uint d")
    case True
    then have "length (trace t) < n"
      using clock by (metis not_le)
    then have "\<exists>u. msleep_poll H (snd (time_mem_io_read H 0xFF2C t)) = Some (Inr u) \<and>
        millis (os_clock H (trace s)) + uint d \<le> millis (ms u)"
      using less.prems by (intro less.hyps) (simp_all add: poll_state)
    with True step show ?thesis by simp
  next
    case False
    with step show ?thesis by (simp add: poll_state)
  qed
qed

text \<open>C34. \<^verbatim>\<open>msleep\<close> returns, and not early: if the host's clock eventually reaches the
  deadline, polling ends, and the last time it read is at or past start plus delay.\<close>

theorem msleep_returns:
  assumes "time_installed s" "\<forall>tr. clock_ok (os_clock H tr)"
    and "\<exists>n. \<forall>tr. n \<le> length tr \<longrightarrow> millis (os_clock H (trace s)) + uint d \<le> millis (os_clock H tr)"
  shows "\<exists>u. pi_msleep H d s = Inr u \<and> millis (os_clock H (trace s)) + uint d \<le> millis (ms u)"
proof -
  from assms(3) obtain n where
    "\<forall>tr. n \<le> length tr \<longrightarrow> millis (os_clock H (trace s)) + uint d \<le> millis (os_clock H tr)" ..
  from msleep_poll_returns [OF assms(2) this deadline_store(2) [OF assms(1)] refl]
  show ?thesis
    using deadline_store(1) [OF assms(1), of H d] by (auto simp: pi_msleep_def)
qed

lemma msleep_poll_none:
  assumes "\<forall>tr. clock_ok (os_clock H tr)" "1000000000 \<le> millis (os_clock H (trace s)) + uint d"
    and "time_installed t" "deadline t = deadline (start_deadline H d s)"
  shows "msleep_poll H t = None"
proof -
  have "H' = H \<Longrightarrow> time_installed t' \<Longrightarrow> deadline t' = deadline (start_deadline H d s) \<Longrightarrow> False"
    if "msleep_poll H' t' = Some r" for H' t' r
  proof (rule msleep_poll.raw_induct [where P = "\<lambda>H' t r. H' = H \<longrightarrow> time_installed t \<longrightarrow>
      deadline t = deadline (start_deadline H d s) \<longrightarrow> False", rule_format, OF _ that], goal_cases)
    case (1 poll H'' t'' r'')
    have "fst (mem_read H 0xFF2C t'') = 255"
      using deadline_never_passes [OF assms(1,2) 1(8)] 1(6,7) by (simp add: deadline_poll)
    with 1(5,6) have "poll H (snd (mem_read H 0xFF2C t'')) = Some r''"
      by (simp add: split_beta)
    from 1(4) [OF this refl] 1(6-8) show False
      by (simp add: deadline_poll poll_state)
  qed
  from this [of H t] show ?thesis
    using assms(3,4) by (cases "msleep_poll H t") auto
qed

text \<open>C35. \<^verbatim>\<open>msleep\<close> can hang: called so late in the counter's period of a million seconds that
  the delay reaches beyond its end, it polls for ever.\<close>

theorem msleep_hangs:
  assumes "time_installed s" "\<forall>tr. clock_ok (os_clock H tr)"
    and "1000000000 \<le> millis (os_clock H (trace s)) + uint d"
  shows "pi_msleep H d s = Inl Diverges"
proof -
  have "msleep_poll H (start_deadline H d s) = None"
    using deadline_store(2) [OF assms(1)] by (rule msleep_poll_none [OF assms(2,3)]) simp
  then show ?thesis
    using deadline_store(1) [OF assms(1), of H d] by (simp add: pi_msleep_def loop_result_def)
qed

section \<open>Witnesses\<close>

text \<open>A struct at 0x0400, the block at 0x0500, a buffer at 0x0600.\<close>

lemma small_placed: "placed 0x0400 n 0x0500" if "n \<le> 256"
  using that by (simp add: placed_def)

lemma small_clear: "clear_of 0x0600 n 0x0400 m 0x0500" if "n \<le> 256" "m \<le> 256"
  using that by (simp add: clear_of_def)

theorem write_delivers_witness:
  "\<exists>s'. pi_write null_host 0x0400 0x0500 1 0x0600 3 small_machine =
      Inr (ucast (word_of_int (os_ret (os_call null_host (trace small_machine)
        (Write 1 (guest_bytes small_machine 0x0600 (unat (3 :: u16)))))) :: u8), s') \<and>
    trace s' = Write 1 (guest_bytes small_machine 0x0600 (unat (3 :: u16))) # trace small_machine \<and>
    fbmem s' = fbmem small_machine \<and> kept_low small_machine s' 0x0400 6 0x0500"
  by (rule write_delivers) (simp_all add: small_placed small_clear)

definition echo_host :: host where
  "echo_host = null_host\<lparr>os_call := (\<lambda>tr e. case e of
     Read fd n \<Rightarrow> (if 2 \<le> unat n then \<lparr>os_ret = 2, os_errno = None, os_data = [104, 105]\<rparr>
                  else \<lparr>os_ret = -1, os_errno = Some 22, os_data = []\<rparr>)
   | _ \<Rightarrow> \<lparr>os_ret = 0, os_errno = None, os_data = []\<rparr>)\<rparr>"

lemma posix_read_echo: "posix_read echo_host"
  by (auto simp: posix_read_def echo_host_def Let_def)

theorem read_delivers_witness:
  "\<exists>s'. pi_read echo_host 0x0400 0x0500 0 0x0600 8 small_machine =
      Inr (ucast (word_of_int (os_ret (os_call echo_host (trace small_machine) (Read 0 8))) :: u8), s') \<and>
    trace s' = Read 0 8 # trace small_machine \<and>
    (let bs = os_data (os_call echo_host (trace small_machine) (Read 0 8)) in
      guest_bytes s' 0x0600 (length bs) = bs \<and>
      (\<forall>k. 0 \<le> k \<and> k < 0xA000 \<and> \<not> (uint (0x0400 :: u16) \<le> k \<and> k < uint (0x0400 :: u16) + 6) \<and>
         \<not> (uint (0x0500 :: u16) \<le> k \<and> k < uint (0x0500 :: u16) + 4) \<and>
         \<not> (uint (0x0600 :: u16) \<le> k \<and> k < uint (0x0600 :: u16) + int (length bs)) \<longrightarrow>
         mem s' k = mem small_machine k))"
  by (rule read_delivers) (simp_all add: small_placed small_clear posix_read_echo)

definition named_machine :: mailbox where
  "named_machine = small_machine\<lparr>mem := (\<lambda>k. if k = 0x600 then 97 else 0)\<rparr>"

theorem open_delivers_witness:
  "\<exists>s'. pi_open null_host 0x0400 0x0500 0x0600 2 named_machine =
      Inr (ucast (word_of_int (os_ret (os_call null_host (trace named_machine) (Open [97] 2))) :: u8), s') \<and>
    trace s' = Open [97] 2 # trace named_machine \<and> kept_low named_machine s' 0x0400 4 0x0500"
  using small_machine_ok(1)
  by (intro open_delivers) (simp_all add: small_placed small_clear named_machine_def guest_bytes_def indexed_def)

theorem sysexit_exits_witness:
  "pi_sysexit null_host 0x0400 0x0500 3 small_machine = Inl (Exited (uint (3 :: u16)))"
  by (rule sysexit_exits) (simp_all add: small_placed)

theorem client_line_draws_witness:
  "\<exists>s'. pi_fb_line null_host 0x0400 0x0500 1 2 20 9 7 small_machine = Inr (0, s') \<and>
    kept_low small_machine s' 0x0400 9 0x0500 \<and>
    (\<forall>q. on_screen small_machine q \<longrightarrow> pixel s' q =
      (if q \<in> set (line_points (uint (1 :: u16)) (uint (2 :: u16)) (uint (20 :: u16)) (uint (9 :: u16)))
       then palette ! unat (7 :: u8) else pixel small_machine q))"
  by (rule client_line_draws) (simp_all add: small_placed)

definition timed_machine :: mailbox where
  "timed_machine = small_machine\<lparr>io_write_top_handler := (\<lambda>k. Some Time_mem_io_write),
     io_read_top_handler := (\<lambda>k. Some Time_mem_io_read)\<rparr>"

lemma timed_machine_installed: "time_installed timed_machine" "trace timed_machine = []"
  by (simp_all add: time_installed_def timed_machine_def)

definition ticking_host :: host where
  "ticking_host = null_host\<lparr>os_clock := (\<lambda>tr. \<lparr>tv_sec = (if tr = [] then 0 else 1), tv_usec = 0\<rparr>)\<rparr>"

lemma ticking_clock: "clock_ok (os_clock ticking_host tr)" "millis (os_clock ticking_host tr) = (if tr = [] then 0 else 1000)"
proof -
  show ok: "clock_ok (os_clock ticking_host tr)"
    by (simp add: ticking_host_def clock_ok_def)
  show "millis (os_clock ticking_host tr) = (if tr = [] then 0 else 1000)"
    unfolding millis_eq [OF ok] by (simp add: ticking_host_def)
qed

theorem msleep_returns_witness:
  "\<exists>u. pi_msleep ticking_host 20 timed_machine = Inr u \<and>
    millis (os_clock ticking_host (trace timed_machine)) + uint (20 :: u16) \<le> millis (ms u)"
proof (rule msleep_returns)
  show "\<exists>n. \<forall>tr. n \<le> length tr \<longrightarrow>
      millis (os_clock ticking_host (trace timed_machine)) + uint (20 :: u16) \<le> millis (os_clock ticking_host tr)"
    by (intro exI [of _ 1]) (auto simp: ticking_clock timed_machine_installed)
qed (simp_all add: timed_machine_installed ticking_clock)

theorem msleep_hangs_witness: "pi_msleep noon_host 20 timed_machine = Inl Diverges"
  by (rule msleep_hangs) (simp_all add: timed_machine_installed noon_clock_ok noon_millis)

end
