(* ===== verification/Cpu.thy ===== *)
theory Cpu
  imports Client
begin

text \<open>
  The processor driver (\<^verbatim>\<open>src/src/cpu.c\<close>): the GPIO registers through which the 65C02 is
  clocked and its bus is read and driven. The registers are hardware: the value a register
  reads is a function \<open>P\<close> of the accesses made so far, newest first, and so may depend on
  what was driven. Delays and memory barriers have no effect in the model.
\<close>

section \<open>State\<close>

datatype gpio_event =
    Reg_write nat u32
  | Reg_read nat

type_synonym pins = "gpio_event list \<Rightarrow> nat \<Rightarrow> u32"

record cpu = mailbox +
  mmio_peri_base :: u32
  gpio :: "u32 option"            \<comment> \<open>the mapped registers, by physical address; None is NULL\<close>
  gpio_log :: "gpio_event list"
  clockticks65C02 :: u32
  low_clockticks65C02 :: u32      \<comment> \<open>_clockticks65C02\<close>
  cpu_init :: u8
  bus_rw :: u32
  bus_addr :: u32
  cpu_data :: u32                 \<comment> \<open>data\<close>

section \<open>Registers\<close>

definition gpio_write :: "nat \<Rightarrow> u32 \<Rightarrow> 'a cpu_scheme \<Rightarrow> 'a cpu_scheme" where
  "gpio_write r v s = s\<lparr>gpio_log := Reg_write r v # gpio_log s\<rparr>"

definition gpio_read :: "pins \<Rightarrow> nat \<Rightarrow> 'a cpu_scheme \<Rightarrow> u32 \<times> 'a cpu_scheme" where
  "gpio_read P r s = (P (gpio_log s) r, s\<lparr>gpio_log := Reg_read r # gpio_log s\<rparr>)"

text \<open>The macros: select input or output for a pin, three bits of ten pins to a register.\<close>

definition INP_GPIO :: "pins \<Rightarrow> nat \<Rightarrow> 'a cpu_scheme \<Rightarrow> 'a cpu_scheme" where
  "INP_GPIO P g s =
     (let (v, s1) = gpio_read P (g div 10) s
      in gpio_write (g div 10) (v AND NOT (push_bit ((g mod 10) * 3) 7)) s1)"

definition OUT_GPIO :: "pins \<Rightarrow> nat \<Rightarrow> 'a cpu_scheme \<Rightarrow> 'a cpu_scheme" where
  "OUT_GPIO P g s =
     (let (v, s1) = gpio_read P (g div 10) s
      in gpio_write (g div 10) (v OR push_bit ((g mod 10) * 3) 1) s1)"

text \<open>\<^verbatim>\<open>GPIO_SET\<close> (gpio_o_set) is word 7, \<^verbatim>\<open>GPIO_CLR\<close> (gpio_o_clear) word 10, gpio_i word 13.\<close>

abbreviation (input) GPIO_SET :: nat where "GPIO_SET \<equiv> 7"
abbreviation (input) GPIO_CLR :: nat where "GPIO_CLR \<equiv> 10"
abbreviation (input) gpio_i :: nat where "gpio_i \<equiv> 13"

section \<open>Initialisation\<close>

definition ascii :: "string \<Rightarrow> u8 list" where
  "ascii = map of_char"

definition starts_with :: "string \<Rightarrow> u8 list \<Rightarrow> bool" where
  "starts_with p bs \<longleftrightarrow> take (length p) (bs @ replicate 256 0) = ascii p"

definition detectPi :: "host \<Rightarrow> 'a cpu_scheme \<Rightarrow> 'a cpu_scheme run" where
  "detectPi H s =
     (let (r, s1) = syscall H (Open (ascii ''/sys/firmware/devicetree/base/model'') 0) s
      in if os_ret r < 0 then Inl (Exited 1)
         else let (d, s2) = syscall H (Read (word_of_int (os_ret r)) 256) s1
              in if os_ret d < 0 then Inl (Exited 1)
                 else let s3 = snd (syscall H (Close (word_of_int (os_ret r))) s2); id_str = os_data d
                      in if starts_with ''Raspberry Pi Zero 2'' id_str then Inr (s3\<lparr>mmio_peri_base := 0x3F000000\<rparr>)
                         else if starts_with ''Raspberry Pi 4 Model B'' id_str then Inr (s3\<lparr>mmio_peri_base := 0xFE000000\<rparr>)
                         else if starts_with ''Raspberry Pi 3 Model B Plus'' id_str then Inr (s3\<lparr>mmio_peri_base := 0x3F000000\<rparr>)
                         else Inr (snd (syscall H (Log ''Pi model not known'') (s3\<lparr>mmio_peri_base := 0x3F000000\<rparr>))))"

text \<open>\<^verbatim>\<open>setup_gpio\<close>; mapping physical memory is the event \<open>Mmap_phys\<close> of the file descriptor.\<close>

definition map_phys :: "host \<Rightarrow> u32 \<Rightarrow> 'a cpu_scheme \<Rightarrow> 'a cpu_scheme run" where
  "map_phys H base s =
     (let (r, s1) = syscall H Open_devmem s
      in if os_ret r < 0 then Inl (Exited (-1))
         else let (q, s2) = syscall H (Mmap_phys base) s1;
                  s3 = snd (syscall H (Close (word_of_int (os_ret r))) s2)
              in if os_ret q = -1 then Inl (Exited (-1)) else Inr s3)"

definition setup_gpio :: "host \<Rightarrow> 'a cpu_scheme \<Rightarrow> 'a cpu_scheme run" where
  "setup_gpio H s =
     (let base = mmio_peri_base s + 0x200000
      in bindR (map_phys H base s) (\<lambda>s. Inr (s\<lparr>gpio := Some base\<rparr>)))"

definition configure_pins :: "pins \<Rightarrow> 'a cpu_scheme \<Rightarrow> 'a cpu_scheme" where
  "configure_pins P s =
     (let s = fold (\<lambda>g s. OUT_GPIO P g (INP_GPIO P g s)) [0..<8] s;
          s = fold (INP_GPIO P) [8..<24] s;
          s = INP_GPIO P 24 s;
          s = OUT_GPIO P 25 (INP_GPIO P 25 s);
          s = OUT_GPIO P 26 (INP_GPIO P 26 s);
          s = gpio_write GPIO_SET (push_bit 26 1) s;
          s = OUT_GPIO P 27 (INP_GPIO P 27 s)
      in gpio_write GPIO_SET (push_bit 27 1) s)"

definition init65C02 :: "host \<Rightarrow> pins \<Rightarrow> 'a cpu_scheme \<Rightarrow> 'a cpu_scheme run" where
  "init65C02 H P s =
     bindR (detectPi H s) (\<lambda>s.
     bindR (setup_gpio H s) (\<lambda>s. Inr ((configure_pins P s)\<lparr>cpu_init := 1\<rparr>)))"

section \<open>One clock cycle\<close>

definition data_pins_in :: u32 where "data_pins_in = 0x0"
definition data_pins_out :: u32 where "data_pins_out = 0x249249"

definition step65C02 :: "host \<Rightarrow> pins \<Rightarrow> 'a cpu_scheme \<Rightarrow> (int \<times> 'a cpu_scheme) run" where
  "step65C02 H P s =
     (if gpio s = None then Inl (Undefined NullPointer)
      else
        let s = gpio_write 0 data_pins_in s;
            (tmp, s) = gpio_read P gpio_i s;
            s = s\<lparr>low_clockticks65C02 := low_clockticks65C02 s + 1\<rparr>;
            s = gpio_write GPIO_SET (push_bit 25 1) s;
            (vtmp, s) = gpio_read P GPIO_SET s;
            s = s\<lparr>bus_rw := tmp AND push_bit 24 1, bus_addr := drop_bit 8 tmp AND 0xFFFF\<rparr>
        in bindR
             (if bus_rw s \<noteq> 0 then
                let s = gpio_write 0 data_pins_out s;
                    (d, s) = mem_read H (ucast (bus_addr s)) s;
                    s = s\<lparr>cpu_data := ucast d\<rparr>;
                    s = gpio_write GPIO_CLR 0xff s;
                    s = gpio_write GPIO_SET (cpu_data s) s
                in Inr (snd (gpio_read P GPIO_SET s))
              else
                let (v, s) = gpio_read P gpio_i s;
                    s = s\<lparr>cpu_data := v AND 0xFF\<rparr>
                in mem_write H (ucast (bus_addr s)) (ucast (cpu_data s)) s)
             (\<lambda>s. let s = s\<lparr>clockticks65C02 := clockticks65C02 s + 1\<rparr>;
                      s = gpio_write GPIO_CLR (push_bit 25 1) s
                  in Inr (0, snd (gpio_read P GPIO_CLR s))))"

fun exec65C02 :: "host \<Rightarrow> pins \<Rightarrow> nat \<Rightarrow> 'a cpu_scheme \<Rightarrow> 'a cpu_scheme run" where
  "exec65C02 H P 0 s = Inr s"
| "exec65C02 H P (Suc tickcount) s =
     bindR (step65C02 H P s) (\<lambda>(r, s). exec65C02 H P tickcount s)"

section \<open>Reset and interrupt lines\<close>

definition one_clock :: "'a cpu_scheme \<Rightarrow> 'a cpu_scheme" where
  "one_clock s = gpio_write GPIO_SET (push_bit 25 1) (gpio_write GPIO_CLR (push_bit 25 1) s)"

definition reset65C02 :: "host \<Rightarrow> pins \<Rightarrow> 'a cpu_scheme \<Rightarrow> 'a cpu_scheme run" where
  "reset65C02 H P s =
     bindR (if cpu_init s = 0 then init65C02 H P s else Inr s) (\<lambda>s.
     if gpio s = None then Inl (Undefined NullPointer)
     else
       let s = gpio_write GPIO_CLR (push_bit 26 1) s;
           s = one_clock (one_clock (one_clock s));
           s = gpio_write GPIO_SET (push_bit 26 1) s
       in Inr (s\<lparr>clockticks65C02 := 0, low_clockticks65C02 := 0\<rparr>))"

definition irq65C02 :: "int \<Rightarrow> 'a cpu_scheme \<Rightarrow> 'a cpu_scheme run" where
  "irq65C02 state s =
     (if gpio s = None then Inl (Undefined NullPointer)
      else if state \<noteq> 0 then Inr (gpio_write GPIO_CLR (push_bit 27 1) s)
      else Inr (gpio_write GPIO_SET (push_bit 27 1) s))"

section \<open>Pin directions\<close>

text \<open>
  The function-select registers (words 0 to 5) hold what was last written to them; the
  documentation of the chip (BCM2835 ARM Peripherals, chapter 6) says so.
\<close>

definition fsel_latches :: "pins \<Rightarrow> bool" where
  "fsel_latches P \<longleftrightarrow> (\<forall>log r. r \<le> 5 \<longrightarrow>
     (\<forall>k v. P (Reg_write k v # log) r = (if k = r then v else P log r)) \<and>
     (\<forall>k. P (Reg_read k # log) r = P log r))"

definition pin_mode :: "pins \<Rightarrow> 'a cpu_scheme \<Rightarrow> nat \<Rightarrow> u32" where
  "pin_mode P s g = drop_bit ((g mod 10) * 3) (P (gpio_log s) (g div 10)) AND 7"

lemma bit_seven: "bit (7 :: u32) n \<longleftrightarrow> n < 3"
proof -
  have "(7 :: u32) = mask 3"
    by (simp add: mask_eq_exp_minus_1)
  then show ?thesis
    by (simp only: bit_mask_iff) auto
qed

lemma field_clear:
  assumes "i < 10" "j < 10"
  shows "drop_bit (i * 3) (w AND NOT (push_bit (j * 3) 7)) AND 7 =
    (if i = j then 0 else drop_bit (i * 3) w AND (7 :: u32))"
proof (rule bit_word_eqI)
  fix n assume "n < LENGTH(32)"
  have "n < 3 \<Longrightarrow> i \<noteq> j \<Longrightarrow> j * 3 \<le> i * 3 + n \<Longrightarrow> \<not> i * 3 + n - j * 3 < 3"
    by presburger
  with assms show "bit (drop_bit (i * 3) (w AND NOT (push_bit (j * 3) 7)) AND 7) n =
      bit (if i = j then 0 else drop_bit (i * 3) w AND 7) n"
    using bit_seven [of n] bit_seven [of "i * 3 + n - j * 3"] by (auto simp: bit_simps)
qed

lemma field_set:
  assumes "i < 10" "j < 10"
  shows "drop_bit (i * 3) (w OR push_bit (j * 3) 1) AND 7 =
    (if i = j then (drop_bit (i * 3) w AND 7) OR 1 else drop_bit (i * 3) w AND (7 :: u32))"
proof (rule bit_word_eqI)
  fix n assume "n < LENGTH(32)"
  have "n < 3 \<Longrightarrow> i \<noteq> j \<Longrightarrow> i * 3 + n \<noteq> j * 3"
    by presburger
  with assms show "bit (drop_bit (i * 3) (w OR push_bit (j * 3) 1) AND 7) n =
      bit (if i = j then (drop_bit (i * 3) w AND 7) OR 1 else drop_bit (i * 3) w AND 7) n"
    using bit_seven [of n] by (auto simp: bit_simps)
qed

lemma pin_apart: "g mod 10 = h mod 10 \<Longrightarrow> g div 10 = h div 10 \<Longrightarrow> g = h" for g h :: nat
  by (metis div_mult_mod_eq)

lemma inp_register:
  "fsel_latches P \<Longrightarrow> r \<le> 5 \<Longrightarrow> P (gpio_log (INP_GPIO P g s)) r =
     (if r = g div 10 then P (gpio_log s) r AND NOT (push_bit (g mod 10 * 3) 7) else P (gpio_log s) r)"
  by (simp add: INP_GPIO_def gpio_read_def gpio_write_def fsel_latches_def)

lemma out_register:
  "fsel_latches P \<Longrightarrow> r \<le> 5 \<Longrightarrow> P (gpio_log (OUT_GPIO P g s)) r =
     (if r = g div 10 then P (gpio_log s) r OR push_bit (g mod 10 * 3) 1 else P (gpio_log s) r)"
  by (simp add: OUT_GPIO_def gpio_read_def gpio_write_def fsel_latches_def)

lemma mode_inp:
  assumes "fsel_latches P" "g < 54" "h < 54"
  shows "pin_mode P (INP_GPIO P g s) h = (if h = g then 0 else pin_mode P s h)"
proof -
  have r: "h div 10 \<le> 5" "h mod 10 < 10" "g mod 10 < 10"
    using assms(3) by auto
  note f = field_clear [OF r(2,3), of "P (gpio_log s) (h div 10)"]
  show ?thesis
  proof (cases "h div 10 = g div 10")
    case True
    with pin_apart [of h g] have e: "(h mod 10 = g mod 10) = (h = g)"
      by auto
    show ?thesis
      unfolding pin_mode_def inp_register [OF assms(1) r(1)] if_P [OF True] f e ..
  next
    case False
    then have "h \<noteq> g"
      by auto
    then show ?thesis
      unfolding pin_mode_def inp_register [OF assms(1) r(1)] if_not_P [OF False] by simp
  qed
qed

lemma mode_out:
  assumes "fsel_latches P" "g < 54" "h < 54"
  shows "pin_mode P (OUT_GPIO P g s) h = (if h = g then pin_mode P s h OR 1 else pin_mode P s h)"
proof -
  have r: "h div 10 \<le> 5" "h mod 10 < 10" "g mod 10 < 10"
    using assms(3) by auto
  note f = field_set [OF r(2,3), of "P (gpio_log s) (h div 10)"]
  show ?thesis
  proof (cases "h div 10 = g div 10")
    case True
    with pin_apart [of h g] have e: "(h mod 10 = g mod 10) = (h = g)"
      by auto
    show ?thesis
      unfolding pin_mode_def out_register [OF assms(1) r(1)] if_P [OF True] f e ..
  next
    case False
    then have "h \<noteq> g"
      by auto
    then show ?thesis
      unfolding pin_mode_def out_register [OF assms(1) r(1)] if_not_P [OF False] by simp
  qed
qed

lemma mode_write:
  "fsel_latches P \<Longrightarrow> h < 54 \<Longrightarrow> 5 < r \<Longrightarrow> pin_mode P (gpio_write r v s) h = pin_mode P s h"
  by (auto simp: pin_mode_def gpio_write_def fsel_latches_def)

lemma mode_inputs:
  "fsel_latches P \<Longrightarrow> \<forall>g \<in> set gs. g < 54 \<Longrightarrow> h < 54 \<Longrightarrow>
     pin_mode P (fold (INP_GPIO P) gs s) h = (if h \<in> set gs then 0 else pin_mode P s h)"
  by (induction gs arbitrary: s) (auto simp: mode_inp)

lemma mode_outputs:
  "fsel_latches P \<Longrightarrow> \<forall>g \<in> set gs. g < 54 \<Longrightarrow> h < 54 \<Longrightarrow>
     pin_mode P (fold (\<lambda>g s. OUT_GPIO P g (INP_GPIO P g s)) gs s) h = (if h \<in> set gs then 1 else pin_mode P s h)"
  by (induction gs arbitrary: s) (auto simp: mode_inp mode_out)

lemma mode_sequence:
  assumes P: "fsel_latches P" and h: "h < 54"
    and outs: "\<forall>g \<in> set outs. g < 54" and ins: "\<forall>g \<in> set ins. g < 54"
  shows "pin_mode P (fold (INP_GPIO P) ins (fold (\<lambda>g s. OUT_GPIO P g (INP_GPIO P g s)) outs s)) h =
    (if h \<in> set ins then 0 else if h \<in> set outs then 1 else pin_mode P s h)"
  by (simp add: mode_inputs [OF P ins h] mode_outputs [OF P outs h])

text \<open>C11. After initialisation the data lines, clock, reset and interrupt are outputs, the
  sixteen address lines and the read/write line are inputs, and the direction of every other
  pin is what it was.\<close>

theorem pins_configured:
  assumes P: "fsel_latches P" and h: "h < 54"
  shows "pin_mode P (configure_pins P s) h =
    (if h \<in> {0..7} \<union> {25, 26, 27} then 1 else if h \<in> {8..24} then 0 else pin_mode P s h)"
proof -
  define outs :: "nat list" where "outs = [0..<8]"
  define ins :: "nat list" where "ins = [8..<24]"
  have sets: "set outs = {0..<8}" "set ins = {8..<24}"
    by (simp_all only: outs_def ins_def set_upt)
  then have lt: "\<forall>g \<in> set outs. g < 54" "\<forall>g \<in> set ins. g < 54"
    by auto
  have "pin_mode P (configure_pins P s) h =
      (if h = 27 then 1 else if h = 26 then 1 else if h = 25 then 1 else if h = 24 then 0
       else if h \<in> set ins then 0 else if h \<in> set outs then 1 else pin_mode P s h)"
    unfolding configure_pins_def Let_def outs_def [symmetric] ins_def [symmetric] using h
    by (simp add: mode_write [OF P] mode_out [OF P] mode_inp [OF P] mode_sequence [OF P h lt])
  then show ?thesis
    using h unfolding sets by auto
qed

text \<open>Registers that hold what was written, to evaluate the initialisation on.\<close>

fun latched :: pins where
  "latched [] r = 0"
| "latched (Reg_write k v # log) r = (if k = r then v else latched log r)"
| "latched (Reg_read k # log) r = latched log r"

lemma fsel_latches_latched: "fsel_latches latched"
  by (simp add: fsel_latches_def)

section \<open>The processor on the bus\<close>

text \<open>
  What is wired to the pins. A processor asks in every cycle for one access; at the falling
  edge of the clock it takes the byte on the data lines, or has had its own byte taken, and
  goes on; while its reset line is low it stays at its start. Setting and clearing pins
  changes the levels of the outputs.
\<close>

datatype bus_request = Fetch u16 | Store u16 u8

record 'c processor =
  start :: 'c
  request :: "'c \<Rightarrow> bus_request"
  fetched :: "'c \<Rightarrow> u8 \<Rightarrow> 'c"
  stored :: "'c \<Rightarrow> 'c"

fun outputs :: "gpio_event list \<Rightarrow> u32" where
  "outputs [] = 0"
| "outputs (Reg_write r v # log) =
     (if r = 7 then outputs log OR v else if r = 10 then outputs log AND NOT v else outputs log)"
| "outputs (Reg_read r # log) = outputs log"

definition advance :: "'c processor \<Rightarrow> u8 \<Rightarrow> 'c \<Rightarrow> 'c" where
  "advance C d c = (case request C c of Fetch a \<Rightarrow> fetched C c d | Store a v \<Rightarrow> stored C c)"

fun processor_at :: "'c processor \<Rightarrow> gpio_event list \<Rightarrow> 'c" where
  "processor_at C [] = start C"
| "processor_at C (Reg_read r # log) = processor_at C log"
| "processor_at C (Reg_write r v # log) =
     (let before = outputs log; after = outputs (Reg_write r v # log)
      in if \<not> bit after 26 then start C
         else if bit before 25 \<and> \<not> bit after 25 then advance C (ucast before) (processor_at C log)
         else processor_at C log)"

text \<open>The input register shows the request: data, address and read/write lines.\<close>

fun displays :: "u32 \<Rightarrow> bus_request \<Rightarrow> bool" where
  "displays w (Fetch a) \<longleftrightarrow> bit w 24 \<and> drop_bit 8 w AND 0xFFFF = ucast a"
| "displays w (Store a v) \<longleftrightarrow> \<not> bit w 24 \<and> drop_bit 8 w AND 0xFFFF = ucast a \<and> w AND 0xFF = ucast v"

definition wired :: "'c processor \<Rightarrow> pins \<Rightarrow> bool" where
  "wired C P \<longleftrightarrow> (\<forall>log. displays (P log 13) (request C (processor_at C log)))"

text \<open>The computer that the driver is to provide: the same processor on a plain memory.\<close>

fun computer :: "'c processor \<Rightarrow> nat \<Rightarrow> 'c \<Rightarrow> (u16 \<Rightarrow> u8) \<Rightarrow> 'c \<times> (u16 \<Rightarrow> u8)" where
  "computer C 0 c m = (c, m)"
| "computer C (Suc n) c m =
     (case request C c of
        Fetch a \<Rightarrow> computer C n (fetched C c (m a)) m
      | Store a v \<Rightarrow> computer C n (stored C c) (m(a := v)))"

fun request_addr :: "bus_request \<Rightarrow> u16" where
  "request_addr (Fetch a) = a"
| "request_addr (Store a v) = a"

fun in_ram :: "'c processor \<Rightarrow> nat \<Rightarrow> 'c \<Rightarrow> (u16 \<Rightarrow> u8) \<Rightarrow> bool" where
  "in_ram C 0 c m \<longleftrightarrow> True"
| "in_ram C (Suc n) c m \<longleftrightarrow> uint (request_addr (request C c)) < 0xF000 \<and>
     (case request C c of
        Fetch a \<Rightarrow> in_ram C n (fetched C c (m a)) m
      | Store a v \<Rightarrow> in_ram C n (stored C c) (m(a := v)))"

definition running :: "'a cpu_scheme \<Rightarrow> bool" where
  "running s \<longleftrightarrow> gpio s \<noteq> None \<and> indexed s \<and> bit (outputs (gpio_log s)) 26"

definition half_cycle :: "gpio_event list \<Rightarrow> gpio_event list" where
  "half_cycle log = Reg_read 7 # Reg_write 7 (push_bit 25 1) # Reg_read 13 # Reg_write 0 data_pins_in # log"

definition falling :: "gpio_event list \<Rightarrow> gpio_event list" where
  "falling log = Reg_read 10 # Reg_write 10 (push_bit 25 1) # log"

definition driven :: "u8 \<Rightarrow> gpio_event list \<Rightarrow> gpio_event list" where
  "driven d log = Reg_read 7 # Reg_write 7 (ucast d) # Reg_write 10 0xff # Reg_write 0 data_pins_out # log"

lemma bus_word_addr: "ucast (ucast a :: u32) = (a :: u16)" for a
  by (simp add: ucast_up_ucast_id is_up)

lemma bus_word_data: "ucast (ucast d :: u32) = (d :: u8)" for d
  by (simp add: ucast_up_ucast_id is_up)

lemma and_bit24: "w AND 0x1000000 = 0 \<longleftrightarrow> \<not> bit w 24" for w :: u32
  using and_exp_eq_0_iff_not_bit [of w 24] by simp

lemma guest_get_same: "indexed s \<Longrightarrow> same_memory s t \<Longrightarrow> guest_get t = guest_get s"
  using same_memory_indexed [of s t]
  by (simp add: fun_eq_iff guest_get_def mem_base_phys same_memory_def)

text \<open>The driver's bookkeeping at the start of a cycle, and at its end.\<close>

definition begin_cycle :: "u32 \<Rightarrow> 'a cpu_scheme \<Rightarrow> 'a cpu_scheme" where
  "begin_cycle w s = s\<lparr>low_clockticks65C02 := low_clockticks65C02 s + 1, bus_rw := w AND push_bit 24 1,
     bus_addr := drop_bit 8 w AND 0xFFFF, gpio_log := half_cycle (gpio_log s)\<rparr>"

definition end_cycle :: "'a cpu_scheme \<Rightarrow> 'a cpu_scheme" where
  "end_cycle s = s\<lparr>clockticks65C02 := clockticks65C02 s + 1, gpio_log := falling (gpio_log s)\<rparr>"

lemma cycle_memory [simp]:
  "same_memory s (begin_cycle w s)" "same_memory s (end_cycle s)"
  "same_memory s (s\<lparr>cpu_data := d, gpio_log := l\<rparr>)" "same_memory s (s\<lparr>gpio_log := l\<rparr>)"
  by (simp_all add: same_memory_def begin_cycle_def end_cycle_def)

lemma step_split:
  assumes "gpio s \<noteq> None" and w: "w = P (Reg_write 0 data_pins_in # gpio_log s) 13"
  shows "step65C02 H P s =
    (let s = begin_cycle w s
     in bindR (if bit w 24
         then (let s = s\<lparr>gpio_log := Reg_write 0 data_pins_out # gpio_log s\<rparr>;
                   (d, s) = mem_read H (ucast (bus_addr s)) s
               in Inr (s\<lparr>cpu_data := ucast d,
                 gpio_log := Reg_read 7 # Reg_write 7 (ucast d) # Reg_write 10 0xff # gpio_log s\<rparr>))
         else (let v = P (gpio_log s) 13 AND 0xFF
               in mem_write H (ucast (bus_addr s)) (ucast v)
                    (s\<lparr>gpio_log := Reg_read 13 # gpio_log s, cpu_data := v\<rparr>)))
       (\<lambda>s. Inr (0, end_cycle s)))"
proof -
  obtain g where "gpio s = Some g"
    using assms(1) by blast
  then show ?thesis
    by (simp add: step65C02_def Let_def gpio_write_def gpio_read_def begin_cycle_def end_cycle_def
        half_cycle_def falling_def and_bit24 split_beta w [symmetric])
qed

lemma step_fetch:
  assumes s: "gpio s \<noteq> None" "indexed s"
    and w: "displays (P (Reg_write 0 data_pins_in # gpio_log s) 13) (Fetch a)" and a: "uint a < 0xF000"
  shows "\<exists>t. step65C02 H P s = Inr (0, t) \<and> gpio t = gpio s \<and> same_memory s t \<and>
    clockticks65C02 t = clockticks65C02 s + 1 \<and> bus_addr t = ucast a \<and>
    gpio_log t = falling (driven (guest_get s a) (half_cycle (gpio_log s)))"
proof -
  define w where "w = P (Reg_write 0 data_pins_in # gpio_log s) 13"
  define u where "u = (begin_cycle w s)\<lparr>gpio_log := Reg_write 0 data_pins_out # half_cycle (gpio_log s)\<rparr>"
  have m: "same_memory s u"
    by (simp add: u_def same_memory_def begin_cycle_def)
  then have r: "mem_read H a u = (guest_get s a, u)"
    using mem_read_ram [of u a H] s(2) a same_memory_indexed [OF m] guest_get_same [OF s(2) m] by simp
  show ?thesis
    unfolding step_split [where P = P and w = w, OF s(1) w_def]
    using w [folded w_def] r m
    by (simp add: Let_def u_def begin_cycle_def end_cycle_def driven_def falling_def bus_word_addr
      same_memory_def)
qed

lemma guest_put_get:
  "indexed s \<Longrightarrow> guest_get (guest_put s a v) = (guest_get s)(a := v)"
  by (simp add: fun_eq_iff guest_get_def guest_put_def mem_base_inj)

lemma step_store:
  assumes s: "gpio s \<noteq> None" "indexed s"
    and w: "displays (P (Reg_write 0 data_pins_in # gpio_log s) 13) (Store a v)"
    and v: "displays (P (half_cycle (gpio_log s)) 13) (Store a v)" and a: "uint a < 0xF000"
  shows "\<exists>t. step65C02 H P s = Inr (0, t) \<and> gpio t = gpio s \<and> indexed t \<and>
    guest_get t = (guest_get s)(a := v) \<and> clockticks65C02 t = clockticks65C02 s + 1 \<and>
    bus_addr t = ucast a \<and> gpio_log t = falling (Reg_read 13 # half_cycle (gpio_log s))"
proof -
  define w where "w = P (Reg_write 0 data_pins_in # gpio_log s) 13"
  define u where "u = (begin_cycle w s)\<lparr>gpio_log := Reg_read 13 # half_cycle (gpio_log s), cpu_data := ucast v\<rparr>"
  have m: "same_memory s u" and g: "gpio u = gpio s" "clockticks65C02 u = clockticks65C02 s"
    by (simp_all add: u_def same_memory_def begin_cycle_def)
  have i: "indexed u"
    using same_memory_indexed [OF m] s(2) by simp
  have p: "indexed (end_cycle (guest_put u a v))" "guest_get (end_cycle (guest_put u a v)) = (guest_get s)(a := v)"
    using i guest_get_same [OF _ cycle_memory(2), of "guest_put u a v"] guest_put_get [OF i, of a v]
      guest_get_same [OF s(2) m] same_memory_indexed [OF cycle_memory(2), of "guest_put u a v"]
    by (simp_all add: guest_put_def)
  have l: "gpio (end_cycle (guest_put u a v)) = gpio s"
      "clockticks65C02 (end_cycle (guest_put u a v)) = clockticks65C02 s + 1"
      "gpio_log (end_cycle (guest_put u a v)) = falling (Reg_read 13 # half_cycle (gpio_log s))"
      "bus_addr (end_cycle (guest_put u a v)) = ucast a"
    using g w [folded w_def] by (simp_all add: end_cycle_def guest_put_def poke_def u_def begin_cycle_def)
  have "step65C02 H P s = bindR (mem_write H a v u) (\<lambda>s. Inr (0, end_cycle s))"
    unfolding step_split [where P = P and w = w, OF s(1) w_def]
    using w [folded w_def] v by (simp add: Let_def u_def begin_cycle_def bus_word_addr bus_word_data)
  then show ?thesis
    using mem_write_ram [OF i a] p l by auto
qed

text \<open>What a cycle does to the outputs and to the processor.\<close>

lemma processor_half:
  "bit (outputs log) 26 \<Longrightarrow> processor_at C (Reg_write 0 d # log) = processor_at C log"
  "bit (outputs log) 26 \<Longrightarrow> processor_at C (half_cycle log) = processor_at C log"
  by (simp_all add: half_cycle_def Let_def bit_simps)

lemma processor_falling:
  assumes "bit (outputs log) 26" "bit (outputs log) 25"
  shows "bit (outputs (falling log)) 26"
    "processor_at C (falling log) = advance C (ucast (outputs log)) (processor_at C log)"
  using assms by (simp_all add: falling_def Let_def bit_simps)

lemma byte_replaced: "ucast (x AND NOT 0xff OR ucast d :: u32) = (d :: u8)"
proof (rule bit_word_eqI)
  fix n assume "n < LENGTH(8)"
  moreover have "(0xff :: u32) = mask 8"
    by (simp add: mask_eq_exp_minus_1)
  ultimately show "bit (ucast (x AND NOT 0xff OR ucast d :: u32) :: u8) n = bit d n"
    by (simp only: bit_mask_iff bit_simps) (auto simp: bit_simps)
qed

lemma data_pins_mask: "\<not> bit (0xff :: u32) 25" "\<not> bit (0xff :: u32) 26"
  by (simp_all add: bit_iff_odd)

lemma processor_driven:
  assumes "bit (outputs log) 26"
  shows "bit (outputs (driven d (half_cycle log))) 26" "bit (outputs (driven d (half_cycle log))) 25"
    "ucast (outputs (driven d (half_cycle log))) = d"
    "processor_at C (driven d (half_cycle log)) = processor_at C log"
proof -
  have o: "bit (outputs (half_cycle log)) 26" "bit (outputs (half_cycle log)) 25"
    using assms by (simp_all add: half_cycle_def bit_simps)
  have b: "\<not> bit (ucast d :: u32) 25 \<and> \<not> bit (ucast d :: u32) 26"
    using bit_imp_le_length [of d 25] bit_imp_le_length [of d 26] by (auto simp: bit_simps)
  have e: "outputs (driven d (half_cycle log)) = (outputs (half_cycle log) AND NOT 0xff) OR ucast d"
    by (simp add: driven_def)
  show "bit (outputs (driven d (half_cycle log))) 26" "bit (outputs (driven d (half_cycle log))) 25"
    unfolding e using o data_pins_mask by (simp_all only: bit_or_iff bit_and_iff bit_not_iff) simp_all
  show "ucast (outputs (driven d (half_cycle log))) = d"
    unfolding e by (rule byte_replaced)
  show "processor_at C (driven d (half_cycle log)) = processor_at C log"
    using o data_pins_mask processor_half(2) [OF assms, of C]
    by (simp add: driven_def Let_def bit_or_iff bit_and_iff bit_not_iff)
qed

lemma wired_displays:
  "wired C P \<Longrightarrow> processor_at C log = c \<Longrightarrow> request C c = r \<Longrightarrow> displays (P log 13) r"
  by (auto simp: wired_def)

lemma step_computes:
  assumes "wired C P" "running s" "uint (request_addr (request C (processor_at C (gpio_log s)))) < 0xF000"
  shows "\<exists>t. step65C02 H P s = Inr (0, t) \<and> running t \<and> clockticks65C02 t = clockticks65C02 s + 1 \<and>
    bus_addr t = ucast (request_addr (request C (processor_at C (gpio_log s)))) \<and>
    (processor_at C (gpio_log t), guest_get t) = computer C 1 (processor_at C (gpio_log s)) (guest_get s)"
proof -
  define c where "c = processor_at C (gpio_log s)"
  have s: "gpio s \<noteq> None" "indexed s" and high: "bit (outputs (gpio_log s)) 26"
    using assms(2) by (simp_all add: running_def)
  have p: "processor_at C (Reg_write 0 data_pins_in # gpio_log s) = c" "processor_at C (half_cycle (gpio_log s)) = c"
    using processor_half [OF high, of C] by (simp_all add: c_def)
  note d = wired_displays [OF assms(1) p(1) refl] wired_displays [OF assms(1) p(2) refl]
  show ?thesis
  proof (cases "request C c")
    case (Fetch a)
    with assms(3) have a: "uint a < 0xF000" by (simp add: c_def)
    obtain t where t: "step65C02 H P s = Inr (0, t)" "gpio t = gpio s" "same_memory s t"
      "clockticks65C02 t = clockticks65C02 s + 1" "bus_addr t = ucast a"
      "gpio_log t = falling (driven (guest_get s a) (half_cycle (gpio_log s)))"
      using step_fetch [OF s, of P a H] d(1) Fetch a by auto
    note q = processor_driven [OF high, where d = "guest_get s a"]
    show ?thesis
      using t s processor_falling(1) [OF q(1,2)] processor_falling(2) [OF q(1,2), of C] q(3) q(4) [of C] Fetch
        same_memory_indexed [OF t(3)] guest_get_same [OF s(2) t(3)]
      by (auto simp: running_def advance_def c_def)
  next
    case (Store a v)
    with assms(3) have a: "uint a < 0xF000" by (simp add: c_def)
    obtain t where t: "step65C02 H P s = Inr (0, t)" "gpio t = gpio s" "indexed t"
      "guest_get t = (guest_get s)(a := v)" "clockticks65C02 t = clockticks65C02 s + 1"
      "bus_addr t = ucast a" "gpio_log t = falling (Reg_read 13 # half_cycle (gpio_log s))"
      using step_store [OF s, of P a v H] d Store a by auto
    have h: "bit (outputs (Reg_read 13 # half_cycle (gpio_log s))) 26"
        "bit (outputs (Reg_read 13 # half_cycle (gpio_log s))) 25"
      using high by (simp_all add: half_cycle_def bit_simps)
    show ?thesis
      using t s processor_falling(1) [OF h] processor_falling(2) [OF h, of C] p(2) Store by (auto simp: running_def advance_def c_def)
  qed
qed

lemma computer_Suc:
  "computer C (Suc n) c m = (case computer C 1 c m of (c', m') \<Rightarrow> computer C n c' m')"
  "in_ram C (Suc n) c m \<longleftrightarrow> uint (request_addr (request C c)) < 0xF000 \<and>
     (case computer C 1 c m of (c', m') \<Rightarrow> in_ram C n c' m')"
  by (simp_all split: bus_request.split)

text \<open>The driver makes a computer of the processor and the memory: wired to the pins and with
  its reset line high, any processor that accesses memory below 0xF000 goes, in \<open>n\<close> cycles of the
  driver, through the states that it goes through on a plain memory, and leaves the same memory;
  the tick counter counts the cycles.\<close>

lemma exec_computes:
  assumes "wired C P" "running s" "in_ram C n (processor_at C (gpio_log s)) (guest_get s)"
  shows "\<exists>t. exec65C02 H P n s = Inr t \<and> running t \<and> clockticks65C02 t = clockticks65C02 s + of_nat n \<and>
    (processor_at C (gpio_log t), guest_get t) = computer C n (processor_at C (gpio_log s)) (guest_get s)"
  using assms(2,3)
proof (induction n arbitrary: s)
  case (Suc n)
  obtain t where t: "step65C02 H P s = Inr (0, t)" "running t" "clockticks65C02 t = clockticks65C02 s + 1"
    "(processor_at C (gpio_log t), guest_get t) = computer C 1 (processor_at C (gpio_log s)) (guest_get s)"
    using step_computes [OF assms(1) Suc.prems(1), of H] Suc.prems(2) by auto
  have "in_ram C n (processor_at C (gpio_log t)) (guest_get t)"
    using Suc.prems(2) unfolding computer_Suc(2) t(4) [symmetric] by simp
  from Suc.IH [OF t(2) this] show ?case
    unfolding computer_Suc(1) [of C n] t(4) [symmetric] using t(1,3) by (auto simp: bindR_def)
qed simp

text \<open>Configuring pins writes registers and nothing else.\<close>

definition only_log :: "'a cpu_scheme \<Rightarrow> 'a cpu_scheme \<Rightarrow> bool" where
  "only_log s t \<longleftrightarrow> (\<exists>l. t = s\<lparr>gpio_log := l\<rparr>)"

lemma only_log_trans: "only_log s t \<Longrightarrow> only_log t u \<Longrightarrow> only_log s u"
  by (auto simp: only_log_def)

lemma only_log_pins: "only_log s (INP_GPIO P g s)" "only_log s (OUT_GPIO P g s)" "only_log s (gpio_write r v s)"
  by (auto simp: only_log_def INP_GPIO_def OUT_GPIO_def gpio_read_def gpio_write_def)

lemma only_log_fold: "(\<And>g s. only_log s (f g s)) \<Longrightarrow> only_log s (fold f gs s)"
proof (induction gs arbitrary: s)
  case Nil
  then show ?case by (simp add: only_log_def exI [of _ "gpio_log s"])
next
  case (Cons g gs)
  then show ?case by (metis fold_simps(2) only_log_trans)
qed

lemma only_log_configure: "only_log s (configure_pins P s)"
  unfolding configure_pins_def Let_def
  by (intro only_log_trans [OF _ only_log_pins(1)] only_log_trans [OF _ only_log_pins(2)]
      only_log_trans [OF _ only_log_pins(3)] only_log_trans [OF only_log_fold only_log_fold]
      only_log_pins only_log_trans [OF only_log_pins(1) only_log_pins(2)])

lemma only_log_memory: "only_log s t \<Longrightarrow> same_memory s t \<and> gpio t = gpio s"
  by (auto simp: only_log_def same_memory_def)

text \<open>A board whose model can be read and whose registers can be mapped.\<close>

definition board_ok :: "host \<Rightarrow> bool" where
  "board_ok H \<longleftrightarrow> (\<forall>tr. 0 \<le> os_ret (os_call H tr (Open (ascii ''/sys/firmware/devicetree/base/model'') 0)) \<and>
     (\<forall>fd. 0 \<le> os_ret (os_call H tr (Read fd 256))) \<and>
     0 \<le> os_ret (os_call H tr Open_devmem) \<and> (\<forall>b. os_ret (os_call H tr (Mmap_phys b)) \<noteq> -1))"

lemma detectPi_ok: "board_ok H \<Longrightarrow> \<exists>t. detectPi H s = Inr t \<and> same_memory s t"
  unfolding detectPi_def by (auto simp: Let_def split_beta board_ok_def not_less same_memory_def)

lemma map_phys_ok: "board_ok H \<Longrightarrow> \<exists>t. map_phys H b s = Inr t \<and> same_memory s t \<and> cpu_init t = cpu_init s"
  unfolding map_phys_def by (auto simp: Let_def split_beta board_ok_def not_less same_memory_def syscall_def emit_def)

lemma init65C02_ok:
  assumes "board_ok H"
  shows "\<exists>t. init65C02 H P s = Inr t \<and> same_memory s t \<and> gpio t \<noteq> None"
proof -
  obtain u where u: "detectPi H s = Inr u" "same_memory s u"
    using detectPi_ok [OF assms] by blast
  obtain v where v: "map_phys H (mmio_peri_base u + 0x200000) u = Inr v" "same_memory u v"
    using map_phys_ok [OF assms] by blast
  define w where "w = configure_pins P (v\<lparr>gpio := Some (mmio_peri_base u + 0x200000)\<rparr>)"
  have "same_memory v w" "gpio w \<noteq> None"
    using only_log_memory [OF only_log_configure, of "v\<lparr>gpio := Some (mmio_peri_base u + 0x200000)\<rparr>" P]
    by (auto simp: w_def same_memory_def)
  then show ?thesis
    using u v by (simp add: init65C02_def setup_gpio_def Let_def w_def same_memory_def)
qed

text \<open>Reset and start.\<close>

lemma reset_starts:
  assumes "cpu_init s = 0 \<and> board_ok H \<or> cpu_init s \<noteq> 0 \<and> gpio s \<noteq> None" "indexed s"
  shows "\<exists>t. reset65C02 H P s = Inr t \<and> running t \<and> processor_at C (gpio_log t) = start C \<and>
    same_memory s t \<and> clockticks65C02 t = 0"
proof -
  have "\<exists>u. (if cpu_init s = 0 then init65C02 H P s else Inr s) = Inr u \<and> same_memory s u \<and> gpio u \<noteq> None"
    using assms(1) init65C02_ok [of H P s] by auto
  then obtain u g where u: "(if cpu_init s = 0 then init65C02 H P s else Inr s) = Inr u" "same_memory s u"
      "gpio u = Some g"
    by blast
  have "indexed u"
    using same_memory_indexed [OF u(2)] assms(2) by simp
  then show ?thesis
    using u by (simp add: reset65C02_def u(1) Let_def gpio_write_def one_clock_def running_def bit_simps
        same_memory_def indexed_def)
qed


section \<open>A processor to evaluate\<close>

fun pin_word :: "bus_request \<Rightarrow> u32" where
  "pin_word (Fetch a) = push_bit 24 1 OR push_bit 8 (ucast a)"
| "pin_word (Store a v) = push_bit 8 (ucast a) OR ucast v"

lemma pin_word_fields:
  "drop_bit 8 (push_bit 8 (ucast a) OR ucast d) AND mask 16 = (ucast a :: u32)"
  "drop_bit 8 (push_bit 24 1 OR push_bit 8 (ucast a)) AND mask 16 = (ucast a :: u32)"
  "(push_bit 8 (ucast a) OR ucast d) AND mask 8 = (ucast d :: u32)" for a :: u16 and d :: u8
  by (rule bit_word_eqI; simp only: bit_simps o_apply; auto dest: bit_imp_le_length)+

lemma pin_word_rw: "bit (push_bit 24 1 OR push_bit 8 (ucast a) :: u32) 24"
    "\<not> bit (push_bit 8 (ucast a) OR ucast d :: u32) 24" for a :: u16 and d :: u8
  by (simp only: bit_simps; auto dest: bit_imp_le_length)+

lemma pin_word_displays: "displays (pin_word r) r"
proof -
  have m: "(0xFFFF :: u32) = mask 16" "(0xFF :: u32) = mask 8"
    by (simp_all add: mask_eq_exp_minus_1)
  show ?thesis
    by (cases r) (simp_all only: displays.simps pin_word.simps m pin_word_fields pin_word_rw simp_thms)
qed

definition pins_of :: "'c processor \<Rightarrow> pins" where
  "pins_of C log r = (if r = 13 then pin_word (request C (processor_at C log)) else 0)"

lemma wired_pins_of: "wired C (pins_of C)"
  by (simp add: wired_def pins_of_def pin_word_displays)

text \<open>It fetches a byte from 0x1000, stores its successor at 0x1001, and again.\<close>

definition copier :: "(bool \<times> u8) processor" where
  "copier = \<lparr>start = (False, 0),
     request = (\<lambda>(have_byte, v). if have_byte then Store 0x1001 (v + 1) else Fetch 0x1000),
     fetched = (\<lambda>c d. (True, d)), stored = (\<lambda>c. (False, 0))\<rparr>"

definition cpu_machine :: cpu where
  "cpu_machine = mailbox.extend small_machine
     \<lparr>mmio_peri_base = 0x3F000000, gpio = Some 0x3F200000, gpio_log = [Reg_write 7 (push_bit 26 1)],
       clockticks65C02 = 0, low_clockticks65C02 = 0, cpu_init = 1, bus_rw = 0, bus_addr = 0, cpu_data = 0\<rparr>"

lemma cpu_machine_fields [simp]:
  "gpio cpu_machine = Some 0x3F200000" "cpu_init cpu_machine = 1"
  "gpio_log cpu_machine = [Reg_write 7 (push_bit 26 1)]" "clockticks65C02 cpu_machine = 0"
  by (simp_all add: cpu_machine_def mailbox.defs)

lemma cpu_machine_memory: "same_memory small_machine cpu_machine"
  by (simp add: same_memory_def cpu_machine_def mailbox.defs)

lemma cpu_machine_ok: "indexed cpu_machine" "running cpu_machine"
    "processor_at C (gpio_log cpu_machine) = start C"
  using same_memory_indexed [OF cpu_machine_memory] by (simp_all add: running_def Let_def)

lemma copier_simps [simp]:
  "start copier = (False, 0)" "request copier (False, v) = Fetch 0x1000"
  "request copier (True, v) = Store 0x1001 (v + 1)" "fetched copier c d = (True, d)"
  "stored copier c = (False, 0)"
  by (simp_all add: copier_def)

lemma copier_two:
  "in_ram copier (Suc (Suc 0)) (start copier) m"
  "computer copier (Suc (Suc 0)) (start copier) m = (start copier, m(0x1001 := m 0x1000 + 1))"
  by simp_all

lemmas copier_runs = copier_two [folded numeral_2_eq_2]

theorem pins_configured_witness:
  "pin_mode latched (configure_pins latched cpu_machine) 25 = 1 \<and>
   pin_mode latched (configure_pins latched cpu_machine) 24 = 0"
  using pins_configured [OF fsel_latches_latched, of 25 cpu_machine]
    pins_configured [OF fsel_latches_latched, of 24 cpu_machine] by simp


end
