(* ===== verification/Loader.thy ===== *)
theory Loader
  imports Cpu
begin

text \<open>
  The loader and main loop (\<^verbatim>\<open>src/src/main.c\<close>): the program image is copied to 0x1000,
  the arguments behind it on the command line to 0x0900, the processor is reset, watched until
  it has fetched its start address, and clocked for ever, two cycles to a tick of the system
  timer. The \<open>k\<close>-th value that is read from the timer is a parameter \<open>T k\<close>; so are the
  content of the block that \<^verbatim>\<open>malloc\<close> returns and the contents of the two local variables
  that are not initialised.
\<close>

type_synonym u64 = "64 word"

record loader = cpu +
  st :: "u32 option"        \<comment> \<open>the mapped timer, by physical address; None is NULL\<close>
  timer_now :: u64
  timer_reads :: nat

section \<open>Setting up\<close>

definition setup_timer :: "host \<Rightarrow> 'a loader_scheme \<Rightarrow> 'a loader_scheme run" where
  "setup_timer H s =
     (let base = mmio_peri_base s + 0x003000
      in bindR (map_phys H base s) (\<lambda>s. Inr (s\<lparr>st := Some base\<rparr>)))"

text \<open>\<^verbatim>\<open>main\<close> drops the result of \<^verbatim>\<open>mem_init\<close>: where \<^verbatim>\<open>malloc\<close> has failed, the
  stores to the vectors go to a null pointer.\<close>

definition set_vectors :: "(int \<Rightarrow> u8) option \<Rightarrow> 'a loader_scheme \<Rightarrow> 'a loader_scheme run" where
  "set_vectors block s =
     (let (r, s) = mem_init block s
      in if block = None then Inl (Undefined NullPointer)
         else Inr (poke (himem2_at s 0 0xFFFF) 0x10 (poke (himem2_at s 0 0xFFFE) 0x00 s)))"

section \<open>The program image\<close>

partial_function (option) load_loop ::
  "host \<Rightarrow> u16 \<Rightarrow> u8 \<Rightarrow> int \<Rightarrow> 'a loader_scheme \<Rightarrow> 'a loader_scheme run option" where
  "load_loop H fd buf count s =
     (case syscall H (Read fd 1) s of (r, s1) \<Rightarrow>
        if os_ret r = 0 then Some (Inr s1)
        else
          let buf' = (case os_data r of [] \<Rightarrow> buf | b # bs \<Rightarrow> b)
          in case mem_write H (word_of_int (0x1000 + count)) buf' s1 of
               Inl e \<Rightarrow> Some (Inl e)
             | Inr s2 \<Rightarrow>
                 if count = 2147483647 then Some (Inl (Undefined SignedOverflow))
                 else load_loop H fd buf' (count + 1) s2)"

definition load_image ::
  "host \<Rightarrow> u8 list \<Rightarrow> u8 \<Rightarrow> int \<Rightarrow> 'a loader_scheme \<Rightarrow> 'a loader_scheme run" where
  "load_image H path buf count s =
     (let s = snd (syscall H (Log ''loading'') s);
          (r, s) = syscall H (Open path 0) s;
          fd = word_of_int (os_ret r)
      in if os_ret r = -1 then Inl (Exited 1)
         else
           let s = snd (syscall H (Lseek fd 86 0) s)
           in bindR (loop_result (load_loop H fd buf count s)) (\<lambda>s.
                Inr (snd (syscall H (Close fd) s))))"

section \<open>The arguments\<close>

text \<open>An argument is its bytes before the terminator; at most 20 of them are copied.\<close>

fun copy_arg :: "host \<Rightarrow> nat \<Rightarrow> u8 list \<Rightarrow> int \<Rightarrow> 'a loader_scheme \<Rightarrow> (int \<times> 'a loader_scheme) run" where
  "copy_arg H 0 arg strptr s = Inr (strptr, s)"
| "copy_arg H (Suc n) [] strptr s = Inr (strptr, s)"
| "copy_arg H (Suc n) (b # arg) strptr s =
     (if b = 0 then Inr (strptr, s)
      else bindR (mem_write H (word_of_int strptr) b s) (copy_arg H n arg (strptr + 1)))"

fun copy_args :: "host \<Rightarrow> int \<Rightarrow> u8 list list \<Rightarrow> int \<Rightarrow> 'a loader_scheme \<Rightarrow> 'a loader_scheme run" where
  "copy_args H g [] strptr s = Inr s"
| "copy_args H g (arg # args) strptr s =
     bindR (mem_write H (word_of_int (0x901 + g * 2)) (word_of_int strptr) s) (\<lambda>s.
     bindR (mem_write H (word_of_int (0x901 + g * 2 + 1)) 0x09 s) (\<lambda>s.
     bindR (copy_arg H 20 arg strptr s) (\<lambda>(strptr, s).
     bindR (mem_write H (word_of_int strptr) 0 s) (copy_args H (g + 1) args (strptr + 1)))))"

definition put_args :: "host \<Rightarrow> u8 list list \<Rightarrow> 'a loader_scheme \<Rightarrow> 'a loader_scheme run" where
  "put_args H args s =
     bindR (mem_write H 0x900 (of_nat (length args)) s)
       (copy_args H 0 args (0x901 + int (length args) * 2))"

section \<open>Running\<close>

text \<open>The 80 steps after the reset; the delay between them has no effect in the model.\<close>

fun watch_reset :: "host \<Rightarrow> pins \<Rightarrow> nat \<Rightarrow> 'a loader_scheme \<Rightarrow> (bool \<times> 'a loader_scheme) run" where
  "watch_reset H P 0 s = Inr (False, s)"
| "watch_reset H P (Suc n) s =
     bindR (step65C02 H P s) (\<lambda>(r, s).
       if bus_addr s = 0xFFFF then Inr (True, s) else watch_reset H P n s)"

definition read_timer :: "(nat \<Rightarrow> u64) \<Rightarrow> 'a loader_scheme \<Rightarrow> u64 \<times> 'a loader_scheme" where
  "read_timer T s = (T (timer_reads s), s\<lparr>timer_reads := Suc (timer_reads s)\<rparr>)"

partial_function (option) await_tick ::
  "(nat \<Rightarrow> u64) \<Rightarrow> 'a loader_scheme \<Rightarrow> 'a loader_scheme option" where
  "await_tick T s =
     (case read_timer T s of (v, s1) \<Rightarrow>
        if timer_now s1 = v then await_tick T s1 else Some s1)"

definition two_steps :: "host \<Rightarrow> pins \<Rightarrow> (nat \<Rightarrow> u64) \<Rightarrow> 'a loader_scheme \<Rightarrow> 'a loader_scheme run" where
  "two_steps H P T s =
     (let (v, s) = read_timer T s; s = s\<lparr>timer_now := v\<rparr>
      in bindR (step65C02 H P s) (\<lambda>(r, s). bindR (step65C02 H P s) (\<lambda>(r, s). Inr s)))"

partial_function (option) run_loop ::
  "host \<Rightarrow> pins \<Rightarrow> (nat \<Rightarrow> u64) \<Rightarrow> 'a loader_scheme \<Rightarrow> int run option" where
  "run_loop H P T s =
     (case two_steps H P T s of
        Inl e \<Rightarrow> Some (Inl e)
      | Inr s1 \<Rightarrow> Option.bind (await_tick T s1) (run_loop H P T))"

definition prepare ::
  "host \<Rightarrow> pins \<Rightarrow> (int \<Rightarrow> u8) option \<Rightarrow> u8 \<Rightarrow> int \<Rightarrow> u8 list list \<Rightarrow> 'a loader_scheme \<Rightarrow> 'a loader_scheme run" where
  "prepare H P block buf count argv s =
     bindR (setup_timer H s) (\<lambda>s.
     bindR (set_vectors block s) (\<lambda>s.
     if length argv < 2 then Inl (Undefined NullPointer)
     else bindR (load_image H (argv ! 1) buf count s) (\<lambda>s.
          bindR (put_args H (tl argv) s) (reset65C02 H P))))"

text \<open>The result is the exit status.\<close>

definition main64 ::
  "host \<Rightarrow> pins \<Rightarrow> (nat \<Rightarrow> u64) \<Rightarrow> (int \<Rightarrow> u8) option \<Rightarrow> u8 \<Rightarrow> int \<Rightarrow> u8 list list \<Rightarrow> 'a loader_scheme \<Rightarrow> int run" where
  "main64 H P T block buf count argv s =
     bindR (prepare H P block buf count argv s) (\<lambda>s.
     bindR (watch_reset H P 80 s) (\<lambda>(hit, s).
       if hit then loop_result (run_loop H P T (snd (syscall H (Log ''6502.'') s)))
       else Inr 1))"

section \<open>The image arrives\<close>

text \<open>
  What the file at the other end of the descriptor is: reads of one byte deliver it from the
  position the last seek set, and 0 at its end (POSIX \<^verbatim>\<open>read\<close>, \<^verbatim>\<open>lseek\<close>).
\<close>

fun file_pos :: "event list \<Rightarrow> nat" where
  "file_pos (Read fd n # tr) = Suc (file_pos tr)"
| "file_pos (Lseek fd pos whence # tr) = unat pos"
| "file_pos (e # tr) = file_pos tr"
| "file_pos [] = 0"

definition serves :: "host \<Rightarrow> u16 \<Rightarrow> u8 list \<Rightarrow> bool" where
  "serves H fd content \<longleftrightarrow> (\<forall>tr. let r = os_call H tr (Read fd 1) in
     if file_pos tr < length content then os_ret r = 1 \<and> os_data r = [content ! file_pos tr]
     else os_ret r = 0 \<and> os_data r = [])"

text \<open>All that loading changes: the guest's memory, the trace and \<^verbatim>\<open>errno\<close>.\<close>

definition only_memory :: "'a memory_scheme \<Rightarrow> 'a memory_scheme \<Rightarrow> bool" where
  "only_memory s t \<longleftrightarrow> (\<exists>m tr e. t = s\<lparr>mem := m, trace := tr, errno := e\<rparr>)"

lemma only_memoryI: "t = s\<lparr>mem := m, trace := tr, errno := e\<rparr> \<Longrightarrow> only_memory s t"
  by (auto simp: only_memory_def)

lemma only_memory_trans:
  assumes "only_memory s t" "only_memory t u"
  shows "only_memory s u"
proof -
  obtain m tr e m' tr' e' where "t = s\<lparr>mem := m, trace := tr, errno := e\<rparr>"
    "u = t\<lparr>mem := m', trace := tr', errno := e'\<rparr>"
    using assms unfolding only_memory_def by blast
  then show ?thesis
    by (intro only_memoryI [where m = m' and tr = tr' and e = e']) simp
qed

lemma only_memory_syscall: "only_memory s (snd (syscall H e s))"
  by (rule only_memoryI [where m = "mem s"]) (simp add: syscall_def Let_def emit_def)

lemma only_memory_poke: "only_memory s (poke k v s)"
  by (rule only_memoryI [where tr = "trace s" and e = "errno s"]) (simp add: poke_def)

lemma only_memory_indexed: "only_memory s t \<Longrightarrow> indexed t = indexed s"
  by (auto simp: only_memory_def indexed_def)

lemma only_memory_guest:
  "only_memory s t \<Longrightarrow> indexed s \<Longrightarrow> mem s = mem t \<Longrightarrow> guest_get t = guest_get s"
  by (rule guest_get_same) (auto simp: only_memory_def same_memory_def)

lemma guest_get_syscall: "indexed s \<Longrightarrow> guest_get (snd (syscall H e s)) = guest_get s"
  by (rule only_memory_guest [OF only_memory_syscall]) simp_all

lemma load_loop_image:
  assumes H: "serves H fd content"
  shows "indexed s \<Longrightarrow> drop (file_pos (trace s)) content = rest \<Longrightarrow>
    0x1000 + count + length rest \<le> 0xF000 \<Longrightarrow>
    \<exists>t. load_loop H fd buf (int count) s = Some (Inr t) \<and> only_memory s t \<and>
      (\<forall>a. guest_get t a = (if 0x1000 + count \<le> unat a \<and> unat a < 0x1000 + count + length rest
        then rest ! (unat a - (0x1000 + count)) else guest_get s a))"
proof (induction rest arbitrary: s count buf)
  case Nil
  let ?r = "syscall H (Read fd 1) s"
  have "length content \<le> file_pos (trace s)"
    using Nil.prems(2) by simp
  then have "os_ret (fst ?r) = 0"
    using H by (auto simp: serves_def Let_def dest: spec [of _ "trace s"])
  then have "load_loop H fd buf (int count) s = Some (Inr (snd ?r))"
    by (subst load_loop.simps) (simp add: split_beta)
  then show ?case
    using guest_get_syscall [OF Nil.prems(1)] only_memory_syscall by auto
next
  case (Cons b rest)
  let ?r = "syscall H (Read fd 1) s"
  define a where "a = (word_of_int (0x1000 + int count) :: u16)"
  define s2 where "s2 = guest_put (snd ?r) a b"
  have pos: "file_pos (trace s) < length content" "content ! file_pos (trace s) = b"
    "drop (Suc (file_pos (trace s))) content = rest"
    using Cons.prems(2) by (metis drop_all list.distinct(1) not_le, metis nth_via_drop, metis drop_Suc list.sel(3) tl_drop)
  have r: "os_ret (fst ?r) = 1" "os_data (fst ?r) = [b]"
    using H pos by (auto simp: serves_def Let_def dest: spec [of _ "trace s"])
  have ua: "uint a = 0x1000 + int count"
    using Cons.prems(3) unfolding a_def uint_word_of_int by (subst mod_pos_pos_trivial) simp_all
  then have una: "unat a = 0x1000 + count"
    unfolding unat_eq_nat_uint by simp
  have i: "indexed (snd ?r)" "indexed s2"
    using Cons.prems(1) only_memory_indexed [OF only_memory_syscall] by (auto simp: s2_def guest_put_def)
  have w: "mem_write H a b (snd ?r) = Inr s2"
    unfolding s2_def using i(1) ua Cons.prems(3) by (intro mem_write_ram) simp_all
  have "int count \<noteq> 2147483647"
    using Cons.prems(3) by simp
  with r w have eq: "load_loop H fd buf (int count) s = load_loop H fd b (int (Suc count)) s2"
    by (subst load_loop.simps) (simp add: split_beta a_def add.commute)
  have tr: "trace s2 = Read fd 1 # trace s"
    by (simp add: s2_def guest_put_def)
  obtain t where t: "load_loop H fd b (int (Suc count)) s2 = Some (Inr t)" "only_memory s2 t"
    "\<forall>a. guest_get t a = (if 0x1000 + Suc count \<le> unat a \<and> unat a < 0x1000 + Suc count + length rest
        then rest ! (unat a - (0x1000 + Suc count)) else guest_get s2 a)"
    using Cons.IH [OF i(2), of "Suc count" b] pos(3) tr Cons.prems(3) by auto
  have g2: "guest_get s2 x = (if x = a then b else guest_get s x)" for x
    unfolding s2_def guest_put_get [OF i(1)] guest_get_syscall [OF Cons.prems(1)] by simp
  have m: "only_memory s t"
    using only_memory_syscall [of s H "Read fd 1"] t(2)
    unfolding s2_def guest_put_def by (metis only_memory_poke only_memory_trans)
  have "guest_get t x = (if 0x1000 + count \<le> unat x \<and> unat x < 0x1000 + count + length (b # rest)
        then (b # rest) ! (unat x - (0x1000 + count)) else guest_get s x)" for x
  proof (cases "x = a")
    case True
    then show ?thesis using t(3) g2 una by simp
  next
    case False
    then have "unat x \<noteq> 0x1000 + count"
      using una by (metis unsigned_word_eqI)
    then consider "unat x < 0x1000 + count" | k where "unat x = Suc (0x1000 + count + k)"
      by (metis add_Suc_right less_imp_Suc_add nat_neq_iff)
    then show ?thesis
      by cases (use t(3) g2 False in simp_all)
  qed
  then show ?case
    using eq t(1) m by auto
qed

section \<open>The arguments arrive\<close>

definition arg_bytes :: "u8 list \<Rightarrow> u8 list" where
  "arg_bytes arg = take 20 (takeWhile (\<lambda>b. b \<noteq> 0) arg)"

definition arg_offset :: "u8 list list \<Rightarrow> nat \<Rightarrow> nat" where
  "arg_offset args k = length (concat (map (\<lambda>a. arg_bytes a @ [0]) (take k args)))"

lemma arg_offset_simps [simp]:
  "arg_offset args 0 = 0"
  "arg_offset (a # args) (Suc k) = Suc (length (arg_bytes a)) + arg_offset args k"
  by (simp_all add: arg_offset_def)

lemma mem_write_int:
  "0 \<le> x \<Longrightarrow> x < 0xA000 \<Longrightarrow> mem_write H (word_of_int x) v s = Inr (poke x v s)"
  using mem_write_low [of "word_of_int x" H v s] by (simp add: uint_word_of_int)

lemma copy_arg_lay:
  "0 \<le> p \<Longrightarrow> p + int n \<le> 0xA000 \<Longrightarrow>
   copy_arg H n arg p s = Inr (p + int (length (take n (takeWhile (\<lambda>b. b \<noteq> 0) arg))),
     lay s p (take n (takeWhile (\<lambda>b. b \<noteq> 0) arg)))"
  by (induction H n arg p s rule: copy_arg.induct) (simp_all add: mem_write_int)

lemma only_memory_lay: "only_memory s (lay s k bs)"
  by (rule only_memoryI [where m = "mem (lay s k bs)" and tr = "trace s" and e = "errno s"])
    (subst lay_mem, simp)

text \<open>One argument: its pointer, its bytes and the terminator.\<close>

lemma copy_args_Cons:
  assumes "0 \<le> g" "0x901 + 2 * g + 2 \<le> p" "p + 21 \<le> 0xA000"
  shows "\<exists>t. copy_args H g (arg # args) p s = copy_args H (g + 1) args (p + int (length (arg_bytes arg)) + 1) t \<and>
    only_memory s t \<and>
    mem t = (\<lambda>j. if p \<le> j \<and> j \<le> p + int (length (arg_bytes arg)) then (arg_bytes arg @ [0]) ! nat (j - p)
      else if j = 0x901 + 2 * g then word_of_int p else if j = 0x901 + 2 * g + 1 then 9 else mem s j)"
proof -
  let ?bs = "arg_bytes arg"
  define t where "t = lay (lay s (0x901 + 2 * g) [word_of_int p, 9]) p (?bs @ [0])"
  have len: "length ?bs \<le> 20"
    by (simp add: arg_bytes_def)
  have w: "mem_write H (word_of_int (0x901 + g * 2)) v s = Inr (poke (0x901 + g * 2) v s)"
      "mem_write H (word_of_int (0x901 + g * 2 + 1)) v s = Inr (poke (0x901 + g * 2 + 1) v s)"
      "mem_write H (word_of_int (p + int (length ?bs))) v s = Inr (poke (p + int (length ?bs)) v s)"
      "copy_arg H 20 arg p s = Inr (p + int (length ?bs), lay s p ?bs)" for v s
    using assms len by (intro mem_write_int; linarith)+ (use assms in \<open>simp add: copy_arg_lay arg_bytes_def\<close>)
  have "copy_args H g (arg # args) p s = copy_args H (g + 1) args (p + int (length ?bs) + 1) t"
    unfolding copy_args.simps w bindR_Inr prod.case by (simp add: t_def lay_append mult.commute)
  moreover have "only_memory s t"
    unfolding t_def by (rule only_memory_trans [OF only_memory_lay only_memory_lay])
  moreover have "mem t j = (if p \<le> j \<and> j \<le> p + int (length ?bs) then (?bs @ [0]) ! nat (j - p)
      else if j = 0x901 + 2 * g then word_of_int p else if j = 0x901 + 2 * g + 1 then 9 else mem s j)" for j
  proof -
    consider "j = 0x901 + 2 * g" | "j = 0x901 + 2 * g + 1" | "\<not> (0x901 + 2 * g \<le> j \<and> j < 0x901 + 2 * g + 2)"
      by linarith
    then show ?thesis
      by cases (use assms in \<open>auto simp: t_def mem_lay simp del: put_list.simps\<close>)
  qed
  ultimately show ?thesis
    by (intro exI [of _ t]) (auto simp: fun_eq_iff)
qed

lemma copy_args_layout:
  "0 \<le> g \<Longrightarrow> 0x901 + 2 * (g + int (length args)) \<le> p \<Longrightarrow>
   p + int (arg_offset args (length args)) + 21 \<le> 0xA000 \<Longrightarrow>
   \<exists>t. copy_args H g args p s = Inr t \<and> only_memory s t \<and>
     (\<forall>k < length args. mem t (0x901 + 2 * (g + int k)) = word_of_int (p + int (arg_offset args k)) \<and>
        mem t (0x901 + 2 * (g + int k) + 1) = 9 \<and>
        (\<forall>i \<le> length (arg_bytes (args ! k)).
           mem t (p + int (arg_offset args k) + int i) = (arg_bytes (args ! k) @ [0]) ! i)) \<and>
     (\<forall>j. j < 0x901 + 2 * g \<or> 0x901 + 2 * (g + int (length args)) \<le> j \<and> j < p \<or>
        p + int (arg_offset args (length args)) \<le> j \<longrightarrow> mem t j = mem s j)"
proof (induction args arbitrary: g p s)
  case Nil
  then show ?case
    by (intro exI [of _ s]) (simp add: only_memoryI [where m = "mem s" and tr = "trace s" and e = "errno s"])
next
  case (Cons arg args)
  let ?bs = "arg_bytes arg"
  define q where "q = p + int (length ?bs) + 1"
  obtain u where u: "copy_args H g (arg # args) p s = copy_args H (g + 1) args q u" "only_memory s u"
    "mem u = (\<lambda>j. if p \<le> j \<and> j \<le> p + int (length ?bs) then (?bs @ [0]) ! nat (j - p)
      else if j = 0x901 + 2 * g then word_of_int p else if j = 0x901 + 2 * g + 1 then 9 else mem s j)"
    using copy_args_Cons [of g p H arg args s] Cons.prems unfolding q_def by auto
  obtain t where t: "copy_args H (g + 1) args q u = Inr t" "only_memory u t"
    "\<And>k. k < length args \<Longrightarrow> mem t (0x901 + 2 * (g + 1 + int k)) = word_of_int (q + int (arg_offset args k)) \<and>
        mem t (0x901 + 2 * (g + 1 + int k) + 1) = 9 \<and>
        (\<forall>i \<le> length (arg_bytes (args ! k)).
           mem t (q + int (arg_offset args k) + int i) = (arg_bytes (args ! k) @ [0]) ! i)"
    "\<And>j. j < 0x901 + 2 * (g + 1) \<or> 0x901 + 2 * (g + 1 + int (length args)) \<le> j \<and> j < q \<or>
        q + int (arg_offset args (length args)) \<le> j \<Longrightarrow> mem t j = mem u j"
    using Cons.IH [of "g + 1" q u] Cons.prems unfolding q_def by auto
  have "mem t (0x901 + 2 * (g + int k)) = word_of_int (p + int (arg_offset (arg # args) k)) \<and>
      mem t (0x901 + 2 * (g + int k) + 1) = 9 \<and>
      (\<forall>i \<le> length (arg_bytes ((arg # args) ! k)).
         mem t (p + int (arg_offset (arg # args) k) + int i) = (arg_bytes ((arg # args) ! k) @ [0]) ! i)"
    if "k < length (arg # args)" for k
  proof (cases k)
    case 0
    then show ?thesis
      using Cons.prems by (simp add: t(4) u(3) q_def)
  next
    case (Suc m)
    then show ?thesis
      using t(3) [of m] that by (simp add: q_def algebra_simps)
  qed
  moreover have "mem t j = mem s j"
    if "j < 0x901 + 2 * g \<or> 0x901 + 2 * (g + int (length (arg # args))) \<le> j \<and> j < p \<or>
      p + int (arg_offset (arg # args) (length (arg # args))) \<le> j" for j
    using that Cons.prems by (subst t(4)) (auto simp: u(3) q_def)
  ultimately show ?case
    using u(1) t(1) only_memory_trans [OF u(2) t(2)] by auto
qed

text \<open>How a guest program takes the arguments: the count, the pointers, each string up to its end.\<close>

definition guest_args :: "'a memory_scheme \<Rightarrow> u8 list list" where
  "guest_args s = map (\<lambda>k. takeWhile (\<lambda>b. b \<noteq> 0)
     (map (\<lambda>i. ld8 s (ld16 s (0x901 + 2 * of_nat k) + of_nat i)) [0..<21])) [0..<unat (ld8 s 0x900)]"

lemma takeWhile_terminated:
  assumes "0 \<notin> set bs" "length bs < n" "\<And>i. i \<le> length bs \<Longrightarrow> f i = (bs @ [0]) ! i"
  shows "takeWhile (\<lambda>b. b \<noteq> (0 :: u8)) (map f [0..<n]) = bs"
proof -
  have "map f [0..<n] = map f [0..<length bs] @ f (length bs) # map f [Suc (length bs)..<n]"
    using assms(2) by (metis less_imp_le list.simps(9) map_append upt_add_eq_append upt_conv_Cons le_add_diff_inverse le0)
  moreover have "map f [0..<length bs] = bs"
    using assms(3) by (intro nth_equalityI) (simp_all add: nth_append)
  moreover have "\<forall>b \<in> set bs. b \<noteq> 0"
    using assms(1) by blast
  ultimately show ?thesis
    using assms(3) [of "length bs"] by (simp add: takeWhile_append2)
qed

lemma set_arg_bytes: "0 \<notin> set (arg_bytes a)" "length (arg_bytes a) \<le> 20"
  by (auto simp: arg_bytes_def dest: in_set_takeD set_takeWhileD)

lemma arg_offset_room:
  "k < length args \<Longrightarrow> arg_offset args k + length (arg_bytes (args ! k)) < arg_offset args (length args)"
proof (induction args arbitrary: k)
  case (Cons a args)
  then show ?case by (cases k) auto
qed simp

text \<open>The arguments of the command line reach the guest: each is read back, cut at 20 bytes,
  where the block fits the page 0x0900, and no other byte of memory has changed.\<close>

lemma page_pointer:
  assumes "0x900 \<le> q" "q < 0xA00"
  shows "uint (u16_of (word_of_int q) 9) = q"
proof -
  have "uint (word_of_int q :: u8) = q mod 256"
    by (simp add: uint_word_of_int)
  moreover have "q mod 256 = q - 0x900"
    using assms by presburger
  ultimately have "int (unat (word_of_int q :: u8)) = q - 0x900"
    by (simp only: of_nat_unat)
  then have "int (unat (u16_of (word_of_int q) 9)) = q"
    unfolding unat_u16_of by simp
  then show ?thesis
    by (simp only: of_nat_unat)
qed

text \<open>The argument page: the count, and at each pointer its argument and an end.\<close>

definition arg_pointer :: "'a memory_scheme \<Rightarrow> nat \<Rightarrow> u16" where
  "arg_pointer s k = u16_of (mem s (0x901 + 2 * int k)) (mem s (0x901 + 2 * int k + 1))"

lemma args_laid:
  assumes fits: "1 + 2 * length args + arg_offset args (length args) \<le> 256"
  shows "\<exists>t. put_args H args s = Inr t \<and> only_memory s t \<and> mem t 0x900 = of_nat (length args) \<and>
    (\<forall>k < length args. 0x900 \<le> uint (arg_pointer t k) \<and>
       uint (arg_pointer t k) + int (length (arg_bytes (args ! k))) < 0xA00 \<and>
       (\<forall>i \<le> length (arg_bytes (args ! k)).
          mem t (uint (arg_pointer t k) + int i) = (arg_bytes (args ! k) @ [0]) ! i)) \<and>
    (\<forall>j. j \<notin> {0x900..<0xA00} \<longrightarrow> mem t j = mem s j)"
proof -
  define n where "n = length args"
  define p where "p = 0x901 + int n * 2"
  define s1 where "s1 = poke 0x900 (of_nat n) s"
  obtain t where t: "copy_args H 0 args p s1 = Inr t" "only_memory s1 t"
    "\<And>k. k < n \<Longrightarrow> mem t (0x901 + 2 * int k) = word_of_int (p + int (arg_offset args k)) \<and>
        mem t (0x901 + 2 * int k + 1) = 9 \<and>
        (\<forall>i \<le> length (arg_bytes (args ! k)).
           mem t (p + int (arg_offset args k) + int i) = (arg_bytes (args ! k) @ [0]) ! i)"
    "\<And>j. j < 0x901 \<or> p + int (arg_offset args n) \<le> j \<Longrightarrow> mem t j = mem s1 j"
    using copy_args_layout [of 0 args p H s1] fits by (auto simp: p_def n_def)
  have put: "put_args H args s = Inr t"
    using t(1) by (simp add: put_args_def mem_write_low s1_def n_def p_def)
  have count: "mem t 0x900 = of_nat n"
    by (simp add: t(4) s1_def)
  have strs: "0x900 \<le> uint (arg_pointer t k) \<and>
       uint (arg_pointer t k) + int (length (arg_bytes (args ! k))) < 0xA00 \<and>
       (\<forall>i \<le> length (arg_bytes (args ! k)).
          mem t (uint (arg_pointer t k) + int i) = (arg_bytes (args ! k) @ [0]) ! i)" if "k < n" for k
  proof -
    define q where "q = p + int (arg_offset args k)"
    have q: "0x900 \<le> q" "q + int (length (arg_bytes (args ! k))) < 0xA00"
      using fits arg_offset_room [of k args] that by (auto simp: q_def p_def n_def)
    have "uint (arg_pointer t k) = q"
      using page_pointer [of q] q t(3) [OF that] by (simp add: arg_pointer_def q_def)
    then show ?thesis
      using q t(3) [OF that] by (simp add: q_def)
  qed
  have "only_memory s t"
    using only_memory_trans [OF _ t(2)] only_memory_poke by (auto simp: s1_def)
  moreover have "mem t j = mem s j" if "j \<notin> {0x900..<0xA00}" for j
    using t(4) [of j] that fits by (auto simp: s1_def p_def n_def)
  ultimately show ?thesis
    using put count strs unfolding n_def by (intro exI [of _ t]) blast
qed

lemma args_arrive:
  assumes fits: "1 + 2 * length args + arg_offset args (length args) \<le> 256"
  shows "\<exists>t. put_args H args s = Inr t \<and> only_memory s t \<and> guest_args t = map arg_bytes args \<and>
    (\<forall>j. j \<notin> {0x900..<0xA00} \<longrightarrow> mem t j = mem s j)"
proof -
  obtain t where put: "put_args H args s = Inr t" "only_memory s t" and count: "mem t 0x900 = of_nat (length args)"
    and strs: "\<And>k. k < length args \<Longrightarrow> 0x900 \<le> uint (arg_pointer t k) \<and>
       uint (arg_pointer t k) + int (length (arg_bytes (args ! k))) < 0xA00 \<and>
       (\<forall>i \<le> length (arg_bytes (args ! k)).
          mem t (uint (arg_pointer t k) + int i) = (arg_bytes (args ! k) @ [0]) ! i)"
    and rest: "\<And>j. j \<notin> {0x900..<0xA00} \<Longrightarrow> mem t j = mem s j"
    using args_laid [OF fits, of H s] by blast
  have n: "length args < 256"
    using fits by simp
  have len: "unat (ld8 t 0x900) = length args"
    using n by (simp add: ld8_low count unsigned_of_nat take_bit_nat_eq_self)
  have str: "takeWhile (\<lambda>b. b \<noteq> 0) (map (\<lambda>i. ld8 t (ld16 t (0x901 + 2 * of_nat k) + of_nat i)) [0..<21]) =
      arg_bytes (args ! k)" if k: "k < length args" for k
  proof (rule takeWhile_terminated)
    have "uint (0x901 + 2 * of_nat k :: u16) = 0x901 + 2 * int k"
      using uint_add_small [where a = "0x901" and n = "2 * k"] n k by simp
    then have "ld16 t (0x901 + 2 * of_nat k) = arg_pointer t k"
      using n k by (simp add: ld16_low arg_pointer_def)
    then show "ld8 t (ld16 t (0x901 + 2 * of_nat k) + of_nat i) = (arg_bytes (args ! k) @ [0]) ! i"
      if "i \<le> length (arg_bytes (args ! k))" for i
      using strs [OF k] that by (simp add: ld8_low uint_add_low)
  qed (use set_arg_bytes [of "args ! k"] in auto)
  have "guest_args t = map arg_bytes args"
    unfolding guest_args_def len using str by (intro nth_equalityI) simp_all
  then show ?thesis
    using put rest by blast
qed

section \<open>Starting a program\<close>

lemma guest_get_above:
  assumes "indexed s" "only_memory s t" "0xA00 \<le> uint a" "\<And>j. j \<notin> {0x900..<0xA00} \<Longrightarrow> mem t j = mem s j"
  shows "guest_get t a = guest_get s a"
proof -
  have pages: "himem1_page t = himem1_page s" "himem2_page t = himem2_page s" "indexed t"
    using assms(1,2) only_memory_indexed [OF assms(2)] by (auto simp: only_memory_def)
  have base: "mem_base t a = mem_base s a"
    using pages assms(1) by (simp add: mem_base_phys)
  obtain p q where "uint (himem1_page s) = p" "uint (himem2_page s) = q" "0 \<le> p" "0 \<le> q"
    using uint_u8_bound by metis
  then have "0xA00 \<le> mem_base s a"
    unfolding mem_base_phys [OF assms(1)] cell_of_def using assms(3) by auto
  then show ?thesis
    unfolding guest_get_def base by (intro assms(4)) simp
qed

lemma guest_args_same: "indexed s \<Longrightarrow> same_memory s t \<Longrightarrow> guest_args t = guest_args s"
  using same_memory_indexed [of s t]
  by (simp add: guest_args_def ld8_def ld16_def get16_def mem_base_phys same_memory_def)

text \<open>The image is copied byte for byte from offset 86 of its file to 0x1000 plus whatever the
  uninitialised variable \<^verbatim>\<open>count\<close> held, and no other guest address is written.\<close>

lemma image_arrives:
  assumes H: "serves H (word_of_int fd) content" "\<forall>tr. os_ret (os_call H tr (Open path 0)) = fd" "fd \<noteq> -1"
    and s: "indexed s" and fits: "0x1000 + count + (length content - 86) \<le> 0xF000"
  shows "\<exists>t. load_image H path buf (int count) s = Inr t \<and> only_memory s t \<and>
    (\<forall>a. guest_get t a =
       (if 0x1000 + count \<le> unat a \<and> unat a < 0x1000 + count + (length content - 86)
        then content ! (86 + (unat a - (0x1000 + count))) else guest_get s a))"
proof -
  define s1 where "s1 = snd (syscall H (Log ''loading'') s)"
  define s2 where "s2 = snd (syscall H (Open path 0) s1)"
  define s3 where "s3 = snd (syscall H (Lseek (word_of_int fd) 86 0) s2)"
  have i: "indexed s1" "indexed s2" "indexed s3"
    using s only_memory_indexed [OF only_memory_syscall] by (auto simp: s1_def s2_def s3_def)
  have g: "guest_get s3 = guest_get s"
    by (simp only: s3_def guest_get_syscall [OF i(2)])
      (simp only: s2_def guest_get_syscall [OF i(1)], simp only: s1_def guest_get_syscall [OF s])
  have m: "only_memory s s3"
    unfolding s3_def s2_def s1_def by (intro only_memory_trans [OF _ only_memory_syscall] only_memory_syscall)
  have pos: "file_pos (trace s3) = 86"
    by (simp add: s3_def)
  have ret: "os_ret (fst (syscall H (Open path 0) s1)) = fd"
    using H(2) by simp
  obtain t where t: "load_loop H (word_of_int fd) buf (int count) s3 = Some (Inr t)" "only_memory s3 t"
    "\<And>a. guest_get t a = (if 0x1000 + count \<le> unat a \<and> unat a < 0x1000 + count + length (drop 86 content)
      then drop 86 content ! (unat a - (0x1000 + count)) else guest_get s3 a)"
    using load_loop_image [OF H(1) i(3), of "drop 86 content" count buf] pos fits by auto
  define u where "u = snd (syscall H (Close (word_of_int fd)) t)"
  have "load_image H path buf (int count) s = Inr u"
    using t(1) ret H(3) unfolding load_image_def s3_def s2_def s1_def u_def
    by (simp add: Let_def split_beta)
  moreover have "only_memory s u"
    unfolding u_def by (rule only_memory_trans [OF only_memory_trans [OF m t(2)] only_memory_syscall])
  moreover have "guest_get u = guest_get t"
    unfolding u_def using only_memory_indexed [OF t(2)] i(3) by (simp add: guest_get_syscall)
  ultimately show ?thesis
    using t(3) g by (intro exI [of _ u]) auto
qed

lemma prepare_loads:
  assumes H: "serves H (word_of_int fd) content" "\<forall>tr. os_ret (os_call H tr (Open (argv ! 1) 0)) = fd" "fd \<noteq> -1"
      "board_ok H"
    and argv: "2 \<le> length argv" and init: "cpu_init s = 0"
    and image: "0x1000 + count + (length content - 86) \<le> 0xF000"
    and args: "1 + 2 * length (tl argv) + arg_offset (tl argv) (length (tl argv)) \<le> 256"
  shows "\<exists>t. prepare H P (Some block) buf (int count) argv s = Inr t \<and>
    running t \<and> processor_at C (gpio_log t) = start C \<and> guest_args t = map arg_bytes (tl argv) \<and>
    (\<forall>i < length content - 86. guest_get t (0x1000 + of_nat count + of_nat i) = content ! (86 + i))"
proof -
  obtain s1 where s1: "setup_timer H s = Inr s1" "cpu_init s1 = 0"
    using map_phys_ok [OF H(4), of "mmio_peri_base s + 0x003000" s] init by (auto simp: setup_timer_def)
  obtain s2 where s2: "set_vectors (Some block) s1 = Inr s2" "cpu_init s2 = 0" "indexed s2"
    using indexed_mem_init [of "Some block" s1] s1(2)
    by (auto simp: set_vectors_def split_beta mem_init_def Let_def poke_def indexed_def)
  obtain s3 where s3: "load_image H (argv ! 1) buf (int count) s2 = Inr s3" "only_memory s2 s3"
    "\<And>a. guest_get s3 a = (if 0x1000 + count \<le> unat a \<and> unat a < 0x1000 + count + (length content - 86)
        then content ! (86 + (unat a - (0x1000 + count))) else guest_get s2 a)"
    using image_arrives [OF H(1-3) s2(3) image, of buf] by auto
  obtain s4 where s4: "put_args H (tl argv) s3 = Inr s4" "only_memory s3 s4"
    "guest_args s4 = map arg_bytes (tl argv)" "\<And>j. j \<notin> {0x900..<0xA00} \<Longrightarrow> mem s4 j = mem s3 j"
    using args_arrive [OF args, of H s3] by auto
  have i: "indexed s3" "indexed s4" "cpu_init s4 = 0"
    using only_memory_indexed [OF s3(2)] only_memory_indexed [OF s4(2)] s2(2,3) s3(2) s4(2)
    by (auto simp: only_memory_def)
  obtain t where t: "reset65C02 H P s4 = Inr t" "running t" "processor_at C (gpio_log t) = start C" "same_memory s4 t"
    using reset_starts [of s4 H P C] i(2,3) H(4) by auto
  have g: "guest_get t = guest_get s4"
    by (rule guest_get_same [OF i(2) t(4)])
  have "prepare H P (Some block) buf (int count) argv s = Inr t"
    using argv s1(1) s2(1) s3(1) s4(1) t(1) by (simp add: prepare_def)
  moreover have "guest_args t = map arg_bytes (tl argv)"
    using guest_args_same [OF i(2) t(4)] s4(3) by simp
  moreover have "guest_get t (0x1000 + of_nat count + of_nat k) = content ! (86 + k)"
    if "k < length content - 86" for k
  proof -
    have a: "0x1000 + of_nat count + of_nat k = (0x1000 + of_nat (count + k) :: u16)"
      by simp
    have ua: "uint (0x1000 + of_nat (count + k) :: u16) = 0x1000 + int (count + k)"
      using that image uint_add_small [where a = "0x1000" and n = "count + k"] by simp
    then have "unat (0x1000 + of_nat (count + k) :: u16) = 0x1000 + count + k"
      unfolding unat_eq_nat_uint by simp
    moreover have "86 + k < length content"
      using that by linarith
    ultimately have "guest_get s3 (0x1000 + of_nat (count + k)) = content ! (86 + k)"
      using s3(3) [of "0x1000 + of_nat (count + k)"] that by simp
    moreover have "guest_get s4 (0x1000 + of_nat (count + k)) = guest_get s3 (0x1000 + of_nat (count + k))"
      by (rule guest_get_above [OF i(1) s4(2) _ s4(4)]) (use ua in simp_all)
    ultimately show ?thesis
      unfolding a by (simp add: g)
  qed
  ultimately show ?thesis
    using t(2,3) by blast
qed


section \<open>What can go wrong\<close>

text \<open>C32. The start address is stored in the interrupt vector; the reset vector keeps what
  \<^verbatim>\<open>malloc\<close> left there, so a program starts at 0x1000 only by way of a BRK.\<close>

theorem reset_vector_unset:
  shows "\<exists>t. set_vectors (Some block) s = Inr t \<and>
    cells t (Bank2 0 0xFFFE) = 0x00 \<and> cells t (Bank2 0 0xFFFF) = 0x10 \<and>
    cells t (Bank2 0 0xFFFC) = block (phys (Bank2 0 0xFFFC)) \<and>
    cells t (Bank2 0 0xFFFD) = block (phys (Bank2 0 0xFFFD))"
proof -
  define s1 where "s1 = snd (mem_init (Some block) s)"
  have i: "indexed s1" and m: "mem s1 = block"
    using indexed_mem_init [of "Some block" s] by (simp_all add: s1_def mem_init_def Let_def)
  have at: "himem2_at s1 0 0xFFFE = phys (Bank2 0 0xFFFE)" "himem2_at s1 0 0xFFFF = phys (Bank2 0 0xFFFF)"
    using i by (simp_all add: himem2_at_phys)
  have "set_vectors (Some block) s = Inr (poke (phys (Bank2 0 0xFFFF)) 0x10 (poke (phys (Bank2 0 0xFFFE)) 0x00 s1))"
    by (simp add: set_vectors_def split_beta at s1_def [symmetric] del: phys.simps)
  then show ?thesis
    by (simp add: cells_poke del: phys.simps) (simp add: cells_def m del: phys.simps)
qed

lemma load_loop_stuck:
  assumes "\<forall>tr. os_ret (os_call H tr (Read fd 1)) = -1" "load_loop H fd buf count s = Some r"
  shows "\<exists>e. r = Inl e"
proof -
  have "H = H \<longrightarrow> fd = fd \<longrightarrow> (\<exists>e. r = Inl e)"
    using assms(2)
  proof (rule load_loop.raw_induct [where P = "\<lambda>H' fd' buf count s r. H' = H \<longrightarrow> fd' = fd \<longrightarrow> (\<exists>e. r = Inl e)", rotated],
      goal_cases)
    case (1 f H' fd' buf count s r)
    show ?case
    proof (intro impI)
      assume "H' = H" "fd' = fd"
      then show "\<exists>e. r = Inl e"
        using 1(2) assms(1) 1(1) [of H fd]
        by (auto simp: split_beta Let_def split: sum.splits if_splits) metis
    qed
  qed
  then show ?thesis
    by simp
qed

text \<open>A read error is taken for a byte: when reading fails for good, loading never completes.\<close>

theorem read_error_loops:
  assumes "\<forall>tr. os_ret (os_call H tr (Read (word_of_int fd) 1)) = -1"
    and "\<forall>tr. os_ret (os_call H tr (Open path 0)) = fd"
  shows "\<exists>e. load_image H path buf count s = Inl e"
  using load_loop_stuck [OF assms(1)] assms(2)
  by (fastforce simp: load_image_def Let_def split_beta loop_result_def split: option.split)

lemma run_loop_never_returns: "run_loop H P T s = Some r \<Longrightarrow> \<exists>e. r = Inl e"
proof (rule run_loop.raw_induct [where Pa = "\<lambda>(((H, P), T), s) r. \<exists>e. r = Inl e"
    and H = H and P = P and T = T and s = s and y = r, unfolded prod.case], goal_cases)
  case (1 f H P T s r)
  then show ?case
    by (auto split: sum.splits simp: bind_eq_Some_conv)
qed

text \<open>A reset is watched for the address 0xFFFF on the bus.\<close>

lemma watch_misses:
  assumes C: "wired C P"
  shows "running s \<Longrightarrow> in_ram C n (processor_at C (gpio_log s)) (guest_get s) \<Longrightarrow>
    \<exists>t. watch_reset H P n s = Inr (False, t)"
proof (induction n arbitrary: s)
  case (Suc n)
  let ?r = "request_addr (request C (processor_at C (gpio_log s)))"
  have low: "uint ?r < 0xF000"
    using Suc.prems(2) by simp
  obtain t where t: "step65C02 H P s = Inr (0, t)" "running t" "bus_addr t = ucast ?r"
    "(processor_at C (gpio_log t), guest_get t) = computer C 1 (processor_at C (gpio_log s)) (guest_get s)"
    using step_computes [OF C Suc.prems(1) low, of H] by auto
  have "uint (bus_addr t) < 0xF000"
    using low unfolding t(3) by (simp add: unsigned_ucast_eq take_bit_int_eq_self)
  then have "bus_addr t \<noteq> 0xFFFF"
    by auto
  moreover have "in_ram C n (processor_at C (gpio_log t)) (guest_get t)"
    using Suc.prems(2) unfolding computer_Suc(2) t(4) [symmetric] by simp
  ultimately show ?case
    using Suc.IH [OF t(2), of ] t(1) by simp
qed simp

text \<open>A program that stays below 0xF000 in its first 80 cycles is given up as a failed reset, however well
  it runs: the status is 1.\<close>

theorem quiet_start_fails:
  assumes "prepare H P block buf count argv s = Inr t" "wired C P" "running t"
    and "in_ram C 80 (processor_at C (gpio_log t)) (guest_get t)"
  shows "main64 H P T block buf count argv s = Inr 1"
  using watch_misses [OF assms(2,3,4), of H] assms(1) by (auto simp: main64_def)

text \<open>Once the processor runs the loader never returns: \<^verbatim>\<open>main\<close> returns only when the
  reset was not seen to succeed, with status 1.\<close>

theorem main_returns_failure:
  assumes "main64 H P T block buf count argv s = Inr r"
  shows "r = 1"
  using assms run_loop_never_returns [of H P T]
  by (fastforce simp: main64_def bindR_eq_Inr loop_result_def split: if_splits option.splits)

section \<open>A host to evaluate\<close>

text \<open>Its only file holds 88 bytes, the last two of them 0xA9 and 0x07.\<close>

definition file_content :: "u8 list" where
  "file_content = replicate 86 0 @ [0xA9, 0x07]"

definition file_host :: host where
  "file_host = null_host\<lparr>os_call := (\<lambda>tr e.
     case e of
       Read fd n \<Rightarrow>
         if n = 1 \<and> file_pos tr < length file_content
         then \<lparr>os_ret = 1, os_errno = None, os_data = [file_content ! file_pos tr]\<rparr>
         else \<lparr>os_ret = 0, os_errno = None, os_data = []\<rparr>
     | _ \<Rightarrow> \<lparr>os_ret = 0, os_errno = None, os_data = []\<rparr>)\<rparr>"

lemma file_host_ok:
  "serves file_host fd file_content" "board_ok file_host"
  "\<forall>tr. os_ret (os_call file_host tr (Open path flags)) = 0"
  by (simp_all add: serves_def file_host_def board_ok_def Let_def)

definition failing_host :: host where
  "failing_host = null_host\<lparr>os_call := (\<lambda>tr e.
     \<lparr>os_ret = (case e of Read fd n \<Rightarrow> -1 | _ \<Rightarrow> 0), os_errno = Some 5, os_data = []\<rparr>)\<rparr>"

definition loader_machine :: loader where
  "loader_machine = cpu.extend (cpu_machine\<lparr>cpu_init := 0\<rparr>) \<lparr>st = None, timer_now = 0, timer_reads = 0\<rparr>"

lemma loader_machine_ok: "cpu_init loader_machine = 0" "indexed loader_machine"
  using cpu_machine_ok(1) by (simp_all add: loader_machine_def cpu.defs indexed_def)

lemma file_content_simps: "length file_content = 88" "file_content ! 86 = 0xA9" "file_content ! 87 = 0x07"
  by (simp_all add: file_content_def nth_append)


theorem read_error_loops_witness:
  "\<exists>e. load_image failing_host [104] 0 0 loader_machine = Inl e"
  by (rule read_error_loops [of failing_host 0]) (simp_all add: failing_host_def)

lemma copier_always_in_ram: "in_ram copier n (copies, v) m"
proof (induction n arbitrary: copies v m)
  case (Suc n)
  then show ?case by (cases copies) simp_all
qed simp

theorem quiet_start_fails_witness:
  "main64 file_host (pins_of copier) (\<lambda>k. 0) (Some (\<lambda>k. 0)) 0 (int 0) [[54], [104]] loader_machine = Inr 1"
proof -
  obtain t where t: "prepare file_host (pins_of copier) (Some (\<lambda>k. 0)) 0 (int 0) [[54], [104]] loader_machine = Inr t"
    "running t" "processor_at copier (gpio_log t) = start copier"
    using prepare_loads [OF file_host_ok(1,3) _ file_host_ok(2) _ loader_machine_ok(1), of "[[54], [104]]" 0
        "pins_of copier" "\<lambda>k. 0" 0 copier]
    by (auto simp: file_content_simps arg_bytes_def arg_offset_def)
  show ?thesis
    by (rule quiet_start_fails [OF t(1) wired_pins_of t(2)]) (simp only: t(3) copier_simps copier_always_in_ram)
qed

end
