(* ===== verification/ZMachine.thy ===== *)
theory ZMachine
  imports Host
begin

text \<open>
  The state of the Z-machine interpreter (\<^verbatim>\<open>src/native/C/z-machine/mojozork.c\<close>) and its
  accesses to the story, the stack and the variables. The story is one block of bytes; a
  pointer into it is an \<open>int\<close> offset. The stack is an array of 2048 words in the byte order
  of the host (little-endian), but a value that was pushed as a variable is stored in it with
  its bytes swapped, big-endian like the story's words. Debugging output has no effect in
  the model.
\<close>

section \<open>State\<close>

record zheader =
  version :: u8
  flags1 :: u8
  release :: u16
  himem_addr :: u16
  pc_start :: u16
  dict_addr :: u16
  objtab_addr :: u16
  globals_addr :: u16
  staticmem_addr :: u16
  flags2 :: u16
  serial_code :: "u8 list"
  abbrtab_addr :: u16
  hdr_story_len :: u16
  story_checksum :: u16

text \<open>The opcode functions by name; an entry of the table may have a name and no function.\<close>

datatype opcode_fn =
    Op_call | Op_ret | Op_rtrue | Op_rfalse | Op_ret_popped | Op_push | Op_pull | Op_pop
  | Op_show_status | Op_add | Op_sub | Op_mul | Op_div | Op_mod | Op_or | Op_and | Op_not | Op_je
  | Op_jz | Op_jl | Op_jg | Op_test | Op_jump | Op_inc_chk | Op_inc | Op_dec_chk | Op_dec
  | Op_load | Op_loadw | Op_loadb | Op_storew | Op_storeb | Op_store | Op_test_attr | Op_set_attr
  | Op_clear_attr | Op_insert_obj | Op_remove_obj | Op_put_prop | Op_get_prop | Op_get_prop_addr
  | Op_get_prop_len | Op_get_next_prop | Op_jin | Op_get_parent | Op_get_sibling | Op_get_child
  | Op_new_line | Op_print | Op_print_num | Op_print_char | Op_print_ret | Op_print_obj
  | Op_print_addr | Op_print_paddr | Op_random | Op_read | Op_verify | Op_split_window
  | Op_set_window | Op_restart | Op_save | Op_restore | Op_quit | Op_nop

datatype opcode_entry =
    Unknown                       \<comment> \<open>name is NULL\<close>
  | Unimplemented                 \<comment> \<open>a name, but fn is NULL\<close>
  | Implemented opcode_fn

record zmachine = world +
  instructions_run :: u32
  story :: "int \<Rightarrow> u8"
  story_len :: nat
  header :: zheader
  logical_pc :: u32
  pc :: int                       \<comment> \<open>pc - story\<close>
  sp :: nat                       \<comment> \<open>sp - stack\<close>
  bp :: u16
  quit :: bool
  step_completed :: bool
  stack :: "nat \<Rightarrow> u16"
  operands :: "u16 list"
  operand_count :: nat
  alphabet_table :: "u8 list"
  startup_script :: "u8 list option"
  story_filename :: "u8 list option"
  current_window :: u16
  upper_window_line_count :: u16
  opcodes :: "nat \<Rightarrow> opcode_entry"
  extended_opcodes :: "nat \<Rightarrow> opcode_entry"
  random_seed :: int              \<comment> \<open>a static sint32\<close>
  script :: "u8 list option"      \<comment> \<open>the static local of \<^verbatim>\<open>opcode_read\<close>\<close>
  printed :: "u8 list"            \<comment> \<open>what \<^verbatim>\<open>writestr\<close> has written\<close>

definition STACK_SIZE :: nat where "STACK_SIZE = 2048"

section \<open>Operations that may stop\<close>

type_synonym 'a zop = "zmachine \<Rightarrow> ('a \<times> zmachine) run"

definition zret :: "'a \<Rightarrow> 'a zop" where
  "zret x z = Inr (x, z)"

definition zbind :: "'a zop \<Rightarrow> ('a \<Rightarrow> 'b zop) \<Rightarrow> 'b zop" where
  "zbind m f z = bindR (m z) (\<lambda>(x, z'). f x z')"

definition zget :: "(zmachine \<Rightarrow> 'a) \<Rightarrow> 'a zop" where
  "zget f z = Inr (f z, z)"

definition zmod :: "(zmachine \<Rightarrow> zmachine) \<Rightarrow> unit zop" where
  "zmod f z = Inr ((), f z)"

definition zfail :: "stop \<Rightarrow> 'a zop" where
  "zfail e z = Inl e"

text \<open>\<^verbatim>\<open>die\<close> prints a message and exits with status 1.\<close>

definition zdie :: "'a zop" where
  "zdie = zfail (Exited 1)"

definition zwhen :: "bool \<Rightarrow> unit zop \<Rightarrow> unit zop" where
  "zwhen b m = (if b then m else zret ())"

named_theorems zop_simps \<open>running the operations of the Z-machine\<close>

lemma zop_run [zop_simps]:
  "zret x z = Inr (x, z)" "zget f z = Inr (f z, z)" "zmod g z = Inr ((), g z)" "zfail e z = Inl e"
  "zdie z = Inl (Exited 1)"
  by (simp_all add: zret_def zget_def zmod_def zfail_def zdie_def)

lemma zbind_run [zop_simps]:
  "m z = Inr (x, z') \<Longrightarrow> zbind m f z = f x z'"
  "m z = Inl e \<Longrightarrow> zbind m f z = Inl e"
  by (simp_all add: zbind_def)

lemma zwhen_run [zop_simps]: "zwhen b m z = (if b then m z else Inr ((), z))"
  by (simp add: zwhen_def zop_simps)

lemma zbind_assoc: "zbind (zbind m f) g = zbind m (\<lambda>x. zbind (f x) g)"
proof
  show "zbind (zbind m f) g z = zbind m (\<lambda>x. zbind (f x) g) z" for z
    by (cases "m z") (auto simp: zbind_def)
qed

lemma zbind_Inr: "zbind m f z = Inr (y, z2) \<longleftrightarrow> (\<exists>x z1. m z = Inr (x, z1) \<and> f x z1 = Inr (y, z2))"
  by (auto simp: zbind_def bindR_eq_Inr)

lemma zbindE:
  "zbind m f z = Inr (y, z2) \<Longrightarrow> (\<And>x z1. m z = Inr (x, z1) \<Longrightarrow> f x z1 = Inr (y, z2) \<Longrightarrow> thesis) \<Longrightarrow> thesis"
  by (auto simp: zbind_Inr)

text \<open>\<open>zkeeps P m\<close>: where the operation returns, it keeps \<open>P\<close>.\<close>

definition zkeeps :: "(zmachine \<Rightarrow> bool) \<Rightarrow> 'a zop \<Rightarrow> bool" where
  "zkeeps P m \<longleftrightarrow> (\<forall>z x z'. P z \<longrightarrow> m z = Inr (x, z') \<longrightarrow> P z')"

named_theorems zkeeps_rules \<open>what keeps a predicate of the machine\<close>

lemma zkeepsI: "(\<And>z x z'. P z \<Longrightarrow> m z = Inr (x, z') \<Longrightarrow> P z') \<Longrightarrow> zkeeps P m"
  by (auto simp: zkeeps_def)

lemma zkeepsD: "zkeeps P m \<Longrightarrow> m z = Inr (x, z') \<Longrightarrow> P z \<Longrightarrow> P z'"
  by (auto simp: zkeeps_def)

lemma zkeeps_basic [zkeeps_rules]:
  "zkeeps P (zret x)" "zkeeps P (zget f)" "zkeeps P (zfail e)" "zkeeps P zdie"
  by (auto simp: zkeeps_def zop_simps)

lemma zkeeps_bind [zkeeps_rules]: "zkeeps P m \<Longrightarrow> (\<And>x. zkeeps P (f x)) \<Longrightarrow> zkeeps P (zbind m f)"
proof (rule zkeepsI)
  fix z y z' assume m: "zkeeps P m" and f: "\<And>x. zkeeps P (f x)" and z: "P z" "zbind m f z = Inr (y, z')"
  from z(2) obtain x z1 where "m z = Inr (x, z1)" "f x z1 = Inr (y, z')"
    by (auto simp: zbind_Inr)
  then show "P z'"
    using zkeepsD [OF m _ z(1)] zkeepsD [OF f] by blast
qed

lemma zkeeps_if [zkeeps_rules]: "zkeeps P a \<Longrightarrow> zkeeps P b \<Longrightarrow> zkeeps P (if c then a else b)"
  by simp

lemma zkeeps_when [zkeeps_rules]: "zkeeps P m \<Longrightarrow> zkeeps P (zwhen b m)"
  by (simp add: zwhen_def zkeeps_basic)

lemma zkeeps_case [zkeeps_rules]:
  "zkeeps P a \<Longrightarrow> (\<And>x. zkeeps P (b x)) \<Longrightarrow> zkeeps P (case q of None \<Rightarrow> a | Some x \<Rightarrow> b x)"
  "(\<And>e. zkeeps P (c e)) \<Longrightarrow> (\<And>x. zkeeps P (d x)) \<Longrightarrow> zkeeps P (case r of Inl e \<Rightarrow> c e | Inr x \<Rightarrow> d x)"
  "(\<And>x y. zkeeps P (g x y)) \<Longrightarrow> zkeeps P (case p of (x, y) \<Rightarrow> g x y)"
  by (auto split: option.splits sum.splits prod.splits)

lemma zkeeps_zmod [zkeeps_rules]: "(\<And>z. P z \<Longrightarrow> P (g z)) \<Longrightarrow> zkeeps P (zmod g)"
  by (auto simp: zkeeps_def zop_simps)

section \<open>The story\<close>

definition in_story :: "zmachine \<Rightarrow> int \<Rightarrow> bool" where
  "in_story z a \<longleftrightarrow> 0 \<le> a \<and> a < int (story_len z)"

definition ld_byte :: "int \<Rightarrow> u8 zop" where
  "ld_byte a z = (if in_story z a then Inr (story z a, z) else Inl (Undefined OutOfBounds))"

definition st_byte :: "int \<Rightarrow> u8 \<Rightarrow> unit zop" where
  "st_byte a v z =
     (if in_story z a then Inr ((), z\<lparr>story := (story z)(a := v)\<rparr>) else Inl (Undefined OutOfBounds))"

text \<open>\<^verbatim>\<open>READUI16\<close> and \<^verbatim>\<open>WRITEUI16\<close> on a pointer into the story: big-endian.\<close>

definition READUI16 :: "int \<Rightarrow> u16 zop" where
  "READUI16 a = zbind (ld_byte a) (\<lambda>hi. zbind (ld_byte (a + 1)) (\<lambda>lo. zret (u16_of lo hi)))"

definition WRITEUI16 :: "int \<Rightarrow> u16 \<Rightarrow> unit zop" where
  "WRITEUI16 a v = zbind (st_byte a (hi8 v)) (\<lambda>_. st_byte (a + 1) (lo8 v))"

text \<open>\<^verbatim>\<open>*(pc++)\<close> and \<^verbatim>\<open>READUI16(pc)\<close>.\<close>

definition next_pc :: "u8 zop" where
  "next_pc = zbind (zget pc) (\<lambda>p. zbind (ld_byte p) (\<lambda>v.
     zbind (zmod (\<lambda>z. z\<lparr>pc := p + 1\<rparr>)) (\<lambda>_. zret v)))"

definition next_pc16 :: "u16 zop" where
  "next_pc16 = zbind (zget pc) (\<lambda>p. zbind (READUI16 p) (\<lambda>v.
     zbind (zmod (\<lambda>z. z\<lparr>pc := p + 2\<rparr>)) (\<lambda>_. zret v)))"

definition get_virtualized_mem_ptr :: "u16 \<Rightarrow> int" where
  "get_virtualized_mem_ptr offset = uint offset"

definition remap_objectid :: "u16 \<Rightarrow> u16" where
  "remap_objectid objid = objid"

definition unpackAddress :: "u16 \<Rightarrow> int zop" where
  "unpackAddress addr z =
     (let v = version (header z)
      in if v \<le> 3 then Inr (uint addr * 2, z)
         else if v \<le> 5 then Inr (uint addr * 4, z)
         else if v \<le> 6 then Inl (Exited 1)
         else if v \<le> 8 then Inr (uint addr * 8, z)
         else Inl (Exited 1))"

lemma zkeeps_ld_byte [zkeeps_rules]: "zkeeps P (ld_byte a)"
  by (auto simp: zkeeps_def ld_byte_def split: if_splits)

lemma zkeeps_st_byte [zkeeps_rules]:
  "(\<And>z. P z \<Longrightarrow> in_story z a \<Longrightarrow> P (z\<lparr>story := (story z)(a := v)\<rparr>)) \<Longrightarrow> zkeeps P (st_byte a v)"
  by (auto simp: zkeeps_def st_byte_def split: if_splits)

lemma zkeeps_READUI16 [zkeeps_rules]: "zkeeps P (READUI16 a)"
  unfolding READUI16_def by (intro zkeeps_rules)

lemma zkeeps_unpackAddress [zkeeps_rules]: "zkeeps P (unpackAddress a)"
  by (auto simp: zkeeps_def unpackAddress_def Let_def split: if_splits)

section \<open>The stack and the variables\<close>

definition swap16 :: "u16 \<Rightarrow> u16" where
  "swap16 w = u16_of (hi8 w) (lo8 w)"

text \<open>A pointer from \<^verbatim>\<open>varAddress\<close>: into the story, or to a word of the stack.\<close>

datatype zptr = In_story int | In_stack nat

definition ld_stack :: "nat \<Rightarrow> u16 zop" where
  "ld_stack k z = (if k < STACK_SIZE then Inr (stack z k, z) else Inl (Undefined OutOfBounds))"

definition st_stack :: "nat \<Rightarrow> u16 \<Rightarrow> unit zop" where
  "st_stack k v z =
     (if k < STACK_SIZE then Inr ((), z\<lparr>stack := (stack z)(k := v)\<rparr>) else Inl (Undefined OutOfBounds))"

definition varAddress :: "u8 \<Rightarrow> bool \<Rightarrow> zptr zop" where
  "varAddress var writing z =
     (if var = 0 then
        if writing then
          if STACK_SIZE \<le> sp z then Inl (Exited 1)
          else Inr (In_stack (sp z), z\<lparr>sp := sp z + 1\<rparr>)
        else if sp z = 0 then Inl (Exited 1)
        else zbind (if bp z = 0 then zret 0 else ld_stack (unat (bp z) - 1)) (\<lambda>numlocals.
               if sp z \<le> unat (bp z) + unat numlocals then zdie
               else zbind (zmod (\<lambda>z. z\<lparr>sp := sp z - 1\<rparr>)) (\<lambda>_. zret (In_stack (sp z - 1)))) z
      else if var \<le> 0xF then
        if bp z = 0 then Inl (Undefined OutOfBounds)
        else zbind (ld_stack (unat (bp z) - 1)) (\<lambda>numlocals.
               if unat numlocals \<le> unat var - 1 then zdie
               else zret (In_stack (unat (bp z) + (unat var - 1)))) z
      else Inr (In_story (uint (globals_addr (header z)) + (uint var - 0x10) * 2), z))"

text \<open>\<^verbatim>\<open>READUI16\<close> and \<^verbatim>\<open>WRITEUI16\<close> on such a pointer; words of the stack change their byte order.\<close>

definition ld_var :: "zptr \<Rightarrow> u16 zop" where
  "ld_var p = (case p of
     In_story a \<Rightarrow> READUI16 a
   | In_stack k \<Rightarrow> zbind (ld_stack k) (\<lambda>w. zret (swap16 w)))"

definition st_var :: "zptr \<Rightarrow> u16 \<Rightarrow> unit zop" where
  "st_var p v = (case p of In_story a \<Rightarrow> WRITEUI16 a v | In_stack k \<Rightarrow> st_stack k (swap16 v))"

text \<open>\<^verbatim>\<open>varAddress(*(pc++), 1)\<close>, the destination of a result.\<close>

definition store_address :: "zptr zop" where
  "store_address = zbind next_pc (\<lambda>v. varAddress v True)"

definition operand :: "nat \<Rightarrow> u16 zop" where
  "operand k = zget (\<lambda>z. operands z ! k)"

section \<open>Lemmas\<close>

lemma zkeeps_operand [zkeeps_rules]: "zkeeps P (operand k)"
  by (auto simp: operand_def intro!: zkeeps_rules)

lemma swap16_swap16 [simp]: "swap16 (swap16 w) = w"
  by (simp add: swap16_def)

lemma ld_byte_ok [zop_simps]: "in_story z a \<Longrightarrow> ld_byte a z = Inr (story z a, z)"
  by (simp add: ld_byte_def)

lemma st_byte_ok [zop_simps]: "in_story z a \<Longrightarrow> st_byte a v z = Inr ((), z\<lparr>story := (story z)(a := v)\<rparr>)"
  by (simp add: st_byte_def)

lemma stack_ok [zop_simps]:
  "k < STACK_SIZE \<Longrightarrow> ld_stack k z = Inr (stack z k, z)"
  "k < STACK_SIZE \<Longrightarrow> st_stack k v z = Inr ((), z\<lparr>stack := (stack z)(k := v)\<rparr>)"
  by (simp_all add: ld_stack_def st_stack_def)

definition get_word :: "(int \<Rightarrow> u8) \<Rightarrow> int \<Rightarrow> u16" where
  "get_word m a = u16_of (m (a + 1)) (m a)"

definition put_word :: "(int \<Rightarrow> u8) \<Rightarrow> int \<Rightarrow> u16 \<Rightarrow> int \<Rightarrow> u8" where
  "put_word m a v = m(a := hi8 v, a + 1 := lo8 v)"

lemma in_story_frame [simp]:
  "in_story (z\<lparr>story := m\<rparr>) a = in_story z a" "in_story (z\<lparr>pc := p\<rparr>) a = in_story z a"
  "in_story (z\<lparr>sp := k\<rparr>) a = in_story z a" "in_story (z\<lparr>stack := f\<rparr>) a = in_story z a"
  "in_story (z\<lparr>bp := b\<rparr>) a = in_story z a" "in_story (z\<lparr>logical_pc := l\<rparr>) a = in_story z a"
  by (simp_all add: in_story_def)

lemma READUI16_ok [zop_simps]:
  "in_story z a \<Longrightarrow> in_story z (a + 1) \<Longrightarrow> READUI16 a z = Inr (get_word (story z) a, z)"
  by (simp add: READUI16_def zop_simps get_word_def)

lemma WRITEUI16_ok [zop_simps]:
  "in_story z a \<Longrightarrow> in_story z (a + 1) \<Longrightarrow> WRITEUI16 a v z = Inr ((), z\<lparr>story := put_word (story z) a v\<rparr>)"
  by (simp add: WRITEUI16_def zop_simps put_word_def)

lemma get_put_word: "get_word (put_word m a v) a = v"
  by (simp add: get_word_def put_word_def)

lemma get_put_word_other: "b \<notin> {a - 1, a, a + 1} \<Longrightarrow> get_word (put_word m a v) b = get_word m b"
  by (auto simp: get_word_def put_word_def)

lemma next_pc_ok [zop_simps]:
  "in_story z (pc z) \<Longrightarrow> next_pc z = Inr (story z (pc z), z\<lparr>pc := pc z + 1\<rparr>)"
  by (simp add: next_pc_def zop_simps)

text \<open>The bytes of the story are one more byte store.\<close>

interpretation zstory: byte_store story "\<lambda>z a v. z\<lparr>story := (story z)(a := v)\<rparr>" "\<lambda>a. True" "\<lambda>z. True"
  by unfold_locales simp_all

section \<open>A sample machine\<close>

text \<open>A version 3 machine with the given story bytes and operands, for concrete runs: execution is at
  256, the globals are at 512, the object table is at 0.\<close>

definition sample_header :: zheader where
  "sample_header = \<lparr>version = 3, flags1 = 0, release = 0, himem_addr = 0, pc_start = 256, dict_addr = 768,
     objtab_addr = 0, globals_addr = 512, staticmem_addr = 768, flags2 = 0, serial_code = [],
     abbrtab_addr = 640, hdr_story_len = 0, story_checksum = 0\<rparr>"

definition sample_machine :: "(int \<Rightarrow> u8) \<Rightarrow> u16 list \<Rightarrow> zmachine" where
  "sample_machine m ops = \<lparr>trace = [], errno = 0, instructions_run = 0, story = m, story_len = 1024,
     header = sample_header, logical_pc = 256, pc = 256, sp = 0, bp = 0, quit = False, step_completed = False,
     stack = (\<lambda>k. 0), operands = ops, operand_count = length ops, alphabet_table = [], startup_script = None,
     story_filename = None, current_window = 0, upper_window_line_count = 0, opcodes = (\<lambda>k. Unknown),
     extended_opcodes = (\<lambda>k. Unknown), random_seed = 0, script = None, printed = []\<rparr>"

end
