(* ===== verification/ZCall.thy ===== *)
theory ZCall
  imports ZMachine
begin

text \<open>
  Routine calls of the Z-machine (\<^verbatim>\<open>mojozork.c\<close>): a frame of five words (where the result
  goes, the return address in two words, the caller's base pointer, the number of locals), the
  locals, and the return; with the operations on the top of the stack.
\<close>

section \<open>Operations\<close>

text \<open>\<^verbatim>\<open>*(sp++) = v\<close>; nothing checks for the end of the array here.\<close>

definition push_word :: "u16 \<Rightarrow> unit zop" where
  "push_word v = zbind (zget sp) (\<lambda>k. zbind (st_stack k v) (\<lambda>_. zmod (\<lambda>z. z\<lparr>sp := k + 1\<rparr>)))"

fun push_words :: "u16 list \<Rightarrow> unit zop" where
  "push_words [] = zret ()"
| "push_words (v # vs) = zbind (push_word v) (\<lambda>_. push_words vs)"

text \<open>The default values of the locals are moved without a change of byte order.\<close>

fun read_locals :: "nat \<Rightarrow> int \<Rightarrow> u16 list zop" where
  "read_locals 0 routine = zret []"
| "read_locals (Suc n) routine =
     zbind (READUI16 routine) (\<lambda>w. zbind (read_locals n (routine + 2)) (\<lambda>ws. zret (swap16 w # ws)))"

fun store_args :: "nat \<Rightarrow> u16 list \<Rightarrow> unit zop" where
  "store_args dst [] = zret ()"
| "store_args dst (v # src) = zbind (st_stack dst (swap16 v)) (\<lambda>_. store_args (dst + 1) src)"

definition opcode_call :: "unit zop" where
  "opcode_call =
     zbind (zget operand_count) (\<lambda>args.
     zbind (zget operands) (\<lambda>ops.
     zbind next_pc (\<lambda>storeid.
     if args = 0 \<or> ops ! 0 = 0 then zbind (varAddress storeid True) (\<lambda>store. st_var store 0)
     else
       zbind (unpackAddress (ops ! 0)) (\<lambda>routine.
       zbind (ld_byte routine) (\<lambda>numlocals.
       let routine = routine + 1 in
       zbind (zmod (\<lambda>z. z\<lparr>logical_pc := word_of_int routine\<rparr>)) (\<lambda>_.
       if 15 < numlocals then zdie
       else
         zbind (push_word (ucast storeid)) (\<lambda>_.
         zbind (zget pc) (\<lambda>p. let pcoffset = word_of_int p :: u32 in
         zbind (push_word (ucast (pcoffset AND 0xFFFF))) (\<lambda>_.
         zbind (push_word (ucast (drop_bit 16 pcoffset AND 0xFFFF))) (\<lambda>_.
         zbind (zget bp) (\<lambda>b.
         zbind (push_word b) (\<lambda>_.
         zbind (push_word (ucast numlocals)) (\<lambda>_.
         zbind (zmod (\<lambda>z. z\<lparr>bp := of_nat (sp z)\<rparr>)) (\<lambda>_.
         zbind (zget (\<lambda>z. version (header z) \<le> 4)) (\<lambda>old.
         zbind (if old then read_locals (unat numlocals) routine else zret (replicate (unat numlocals) 0)) (\<lambda>ws.
         zbind (push_words ws) (\<lambda>_.
         zbind (zget (\<lambda>z. unat (bp z))) (\<lambda>dst.
         zbind (store_args dst (take (min (args - 1) (unat numlocals)) (tl ops))) (\<lambda>_.
         zmod (\<lambda>z. z\<lparr>pc := (if old then routine + 2 * int (unat numlocals) else routine)\<rparr>))))))))))))))))))))"

definition doReturn :: "u16 \<Rightarrow> unit zop" where
  "doReturn val =
     zbind (zget (\<lambda>z. unat (bp z))) (\<lambda>b.
     if b = 0 then zdie
     else if b < 5 then zfail (Undefined OutOfBounds)
     else
       zbind (ld_stack (b - 2)) (\<lambda>caller.
       zbind (ld_stack (b - 4)) (\<lambda>lo.
       zbind (ld_stack (b - 3)) (\<lambda>hi.
       zbind (ld_stack (b - 5)) (\<lambda>storeid.
       zbind (zmod (\<lambda>z. z\<lparr>bp := caller, pc := uint ((ucast lo :: u32) OR push_bit 16 (ucast hi)), sp := b - 5\<rparr>)) (\<lambda>_.
       zbind (varAddress (ucast storeid) True) (\<lambda>store. st_var store val)))))))"

definition opcode_ret :: "unit zop" where
  "opcode_ret = zbind (operand 0) doReturn"

definition opcode_rtrue :: "unit zop" where "opcode_rtrue = doReturn 1"
definition opcode_rfalse :: "unit zop" where "opcode_rfalse = doReturn 0"

definition opcode_ret_popped :: "unit zop" where
  "opcode_ret_popped = zbind (varAddress 0 False) (\<lambda>ptr. zbind (ld_var ptr) doReturn)"

definition opcode_push :: "unit zop" where
  "opcode_push = zbind (varAddress 0 True) (\<lambda>store. zbind (operand 0) (st_var store))"

text \<open>\<^verbatim>\<open>*store = varAddress(\<dots>)\<close> writes through a pointer that was never set.\<close>

definition opcode_pull :: "unit zop" where
  "opcode_pull = zbind (varAddress 0 False) (\<lambda>ptr. zbind (ld_var ptr) (\<lambda>val. zbind (operand 0) (\<lambda>v.
     zbind (varAddress (ucast v) True) (\<lambda>_. zfail (Undefined Uninitialised)))))"

definition opcode_pop :: "unit zop" where
  "opcode_pop = zbind (varAddress 0 False) (\<lambda>_. zret ())"

section \<open>Frames\<close>

text \<open>What a call leaves on the stack, from the top of the caller's words on.\<close>

definition frame_words :: "u8 \<Rightarrow> u32 \<Rightarrow> u16 \<Rightarrow> u8 \<Rightarrow> u16 list" where
  "frame_words storeid ret caller numlocals =
     [ucast storeid, ucast (ret AND 0xFFFF), ucast (drop_bit 16 ret AND 0xFFFF), caller, ucast numlocals]"

definition laid :: "(nat \<Rightarrow> u16) \<Rightarrow> nat \<Rightarrow> u16 list \<Rightarrow> nat \<Rightarrow> u16" where
  "laid f k ws = (\<lambda>j. if k \<le> j \<and> j < k + length ws then ws ! (j - k) else f j)"

lemma laid_Cons:
  "laid (f(k := v)) (Suc k) vs = laid f k (v # vs)"
  "laid (\<lambda>a. if a = k then v else f a) (Suc k) vs = laid f k (v # vs)"
  by (auto simp: laid_def fun_eq_iff nth_Cons')

lemma laid_Nil [simp]: "laid f k [] = f"
  by (rule ext) (auto simp: laid_def)

lemma push_word_ok [zop_simps]:
  "sp z < STACK_SIZE \<Longrightarrow> push_word v z = Inr ((), z\<lparr>stack := (stack z)(sp z := v), sp := sp z + 1\<rparr>)"
  by (simp add: push_word_def zop_simps)

lemma push_words_ok:
  "sp z + length vs \<le> STACK_SIZE \<Longrightarrow>
     push_words vs z = Inr ((), z\<lparr>stack := laid (stack z) (sp z) vs, sp := sp z + length vs\<rparr>)"
proof (induction vs arbitrary: z)
  case (Cons v vs)
  then show ?case
    by (simp add: zop_simps laid_Cons)
qed (simp add: zop_simps)

lemma store_args_ok:
  "k + length vs \<le> STACK_SIZE \<Longrightarrow>
     store_args k vs z = Inr ((), z\<lparr>stack := laid (stack z) k (map swap16 vs)\<rparr>)"
proof (induction vs arbitrary: z k)
  case (Cons v vs)
  then show ?case
    by (simp add: zop_simps laid_Cons)
qed (simp add: zop_simps)

lemma read_locals_ok:
  "(\<And>j. j < 2 * n \<Longrightarrow> in_story z (a + int j)) \<Longrightarrow>
     read_locals n a z = Inr (map (\<lambda>i. swap16 (get_word (story z) (a + 2 * int i))) [0..<n], z)"
proof (induction n arbitrary: a)
  case (Suc n)
  have "in_story z a" "in_story z (a + 1)"
    using Suc.prems [of 0] Suc.prems [of 1] by simp_all
  moreover have "in_story z (a + 2 + int j)" if "j < 2 * n" for j
    using Suc.prems [of "j + 2"] that by (simp add: algebra_simps)
  then have "read_locals n (a + 2) z = Inr (map (\<lambda>i. swap16 (get_word (story z) (a + 2 + 2 * int i))) [0..<n], z)"
    by (rule Suc.IH)
  moreover have "map (\<lambda>i. swap16 (get_word (story z) (a + 2 * int i))) [0..<Suc n] =
      swap16 (get_word (story z) a) # map (\<lambda>i. swap16 (get_word (story z) (a + 2 + 2 * int i))) [0..<n]"
    by (simp add: map_upt_Suc algebra_simps del: upt_Suc)
  ultimately show ?case
    by (simp add: zop_simps)
qed (simp add: zop_simps)

section \<open>A call\<close>

text \<open>What a call of a routine needs: its header and defaults in the story, room on the stack.\<close>

definition callable :: "zmachine \<Rightarrow> bool" where
  "callable z \<longleftrightarrow> 0 < operand_count z \<and> operands z ! 0 \<noteq> 0 \<and> operand_count z \<le> length (operands z) \<and>
     in_story z (pc z) \<and> version (header z) \<le> 3 \<and>
     (let r = uint (operands z ! 0) * 2; n = unat (story z r)
      in in_story z r \<and> n \<le> 15 \<and> in_story z (r + 2 * int n) \<and> sp z + 5 + n \<le> STACK_SIZE)"

definition routine :: "zmachine \<Rightarrow> int" where
  "routine z = uint (operands z ! 0) * 2"

definition num_locals :: "zmachine \<Rightarrow> nat" where
  "num_locals z = unat (story z (routine z))"

definition call_args :: "zmachine \<Rightarrow> u16 list" where
  "call_args z = take (min (operand_count z - 1) (num_locals z)) (tl (operands z))"

definition defaults :: "zmachine \<Rightarrow> u16 list" where
  "defaults z = map (\<lambda>i. get_word (story z) (routine z + 1 + 2 * int i)) [0..<num_locals z]"

definition frame_of :: "zmachine \<Rightarrow> u16 list" where
  "frame_of z = frame_words (story z (pc z)) (word_of_int (pc z + 1)) (bp z) (story z (routine z))"

lemma length_frame [simp]: "length (frame_words a b c d) = 5" "length (frame_of z) = 5"
  by (simp_all add: frame_words_def frame_of_def)

lemma length_defaults [simp]: "length (defaults z) = num_locals z"
  by (simp add: defaults_def)

lemma unpackAddress_v3 [zop_simps]:
  "version (header z) \<le> 3 \<Longrightarrow> unpackAddress a z = Inr (uint a * 2, z)"
  by (simp add: unpackAddress_def Let_def)

lemma laid_append: "laid (laid f k xs) (k + length xs) ys = laid f k (xs @ ys)"
  by (auto simp: laid_def fun_eq_iff nth_append)

lemma laid_frame:
  "f(k := a, Suc k := b, Suc (Suc k) := c, Suc (Suc (Suc k)) := d, Suc (Suc (Suc (Suc k))) := e) = laid f k [a, b, c, d, e]"
  by (simp add: laid_Cons [symmetric])

lemma opcode_call_ok:
  assumes "callable z"
  shows "opcode_call z = Inr ((), z\<lparr>logical_pc := word_of_int (routine z + 1),
    bp := of_nat (sp z + 5), sp := sp z + 5 + num_locals z,
    stack := laid (laid (stack z) (sp z) (frame_of z @ map swap16 (defaults z))) (sp z + 5) (map swap16 (call_args z)),
    pc := routine z + 1 + 2 * int (num_locals z)\<rparr>)"
proof -
  define r where "r = routine z"
  define n where "n = num_locals z"
  have c: "operand_count z \<noteq> 0" "operands z ! 0 \<noteq> 0" "in_story z (pc z)" "version (header z) \<le> 3"
    "in_story z r" "n \<le> 15" "in_story z (r + 2 * int n)" "sp z + 5 + n \<le> STACK_SIZE"
    using assms by (simp_all add: callable_def Let_def r_def n_def routine_def num_locals_def)
  have ins: "in_story z (r + 1 + int j)" if "j < 2 * n" for j
    using that c(5,7) by (simp add: in_story_def)
  have nl: "unat (story z r) = n" "\<not> 15 < story z r"
    using c(6) by (simp_all add: n_def r_def num_locals_def word_less_nat_alt)
  have small: "unat (word_of_nat (sp z + 5) :: u16) = sp z + 5"
    using c(8) unfolding unsigned_of_nat STACK_SIZE_def by (simp add: take_bit_nat_eq_self)
  define w where "w = z\<lparr>pc := pc z + 1, logical_pc := word_of_int (r + 1),
    stack := laid (stack z) (sp z) (frame_of z), sp := Suc (Suc (Suc (Suc (Suc (sp z))))),
    bp := of_nat (Suc (Suc (Suc (Suc (Suc (sp z))))))\<rparr>"
  have five: "Suc (Suc (Suc (Suc (Suc (sp z))))) = sp z + 5"
    by simp
  have "opcode_call z = zbind (read_locals n (r + 1)) (\<lambda>ws. zbind (push_words ws) (\<lambda>_.
       zbind (zget (\<lambda>z. unat (bp z))) (\<lambda>dst. zbind (store_args dst (call_args z)) (\<lambda>_.
       zmod (\<lambda>z. z\<lparr>pc := r + 1 + 2 * int n\<rparr>))))) w"
    using c(1-6,8) nl order_trans [OF c(4), of 4]
    by (simp add: opcode_call_def zop_simps Let_def w_def frame_of_def frame_words_def laid_frame [symmetric]
        routine_def [symmetric] r_def [symmetric] call_args_def n_def [symmetric])
  also have "\<dots> = Inr ((), z\<lparr>logical_pc := word_of_int (r + 1),
    bp := of_nat (sp z + 5), sp := sp z + 5 + n,
    stack := laid (laid (stack z) (sp z) (frame_of z @ map swap16 (defaults z))) (sp z + 5) (map swap16 (call_args z)),
    pc := r + 1 + 2 * int n\<rparr>)"
  proof -
    have rd: "read_locals n (r + 1) w = Inr (map swap16 (defaults z), w)"
      using ins by (subst read_locals_ok) (simp_all add: w_def in_story_def defaults_def comp_def r_def n_def)
    define u where "u = w\<lparr>stack := laid (stack w) (sp w) (map swap16 (defaults z)), sp := sp w + n\<rparr>"
    have pw: "push_words (map swap16 (defaults z)) w = Inr ((), u)"
      using c(8) by (subst push_words_ok) (simp_all add: u_def w_def n_def)
    have "length (call_args z) \<le> n"
      by (simp add: call_args_def n_def)
    then have sa: "store_args (sp z + 5) (call_args z) u =
        Inr ((), u\<lparr>stack := laid (stack u) (sp z + 5) (map swap16 (call_args z))\<rparr>)"
      using c(8) by (intro store_args_ok) simp
    have "unat (bp u) = sp z + 5"
      using small by (simp add: u_def w_def five del: of_nat_Suc of_nat_add)
    then show ?thesis
      using rd pw sa laid_append [of "stack z" "sp z" "frame_of z" "map swap16 (defaults z)"]
      by (simp add: zop_simps) (simp add: u_def w_def five del: of_nat_Suc)
  qed
  finally show ?thesis
    by (simp only: r_def n_def)
qed

text \<open>The state that a call leaves.\<close>

definition entered_state :: "zmachine \<Rightarrow> zmachine" where
  "entered_state z = z\<lparr>logical_pc := word_of_int (routine z + 1),
    bp := of_nat (sp z + 5), sp := sp z + 5 + num_locals z,
    stack := laid (laid (stack z) (sp z) (frame_of z @ map swap16 (defaults z))) (sp z + 5) (map swap16 (call_args z)),
    pc := routine z + 1 + 2 * int (num_locals z)\<rparr>"

lemma call_state: "callable z \<Longrightarrow> opcode_call z = Inr ((), entered_state z)"
  unfolding entered_state_def by (rule opcode_call_ok)

lemma callable_room: "callable z \<Longrightarrow> sp z + 5 + num_locals z \<le> STACK_SIZE \<and> num_locals z \<le> 15"
  by (simp add: callable_def Let_def num_locals_def routine_def)

lemma called_bp: "callable z \<Longrightarrow> unat (bp (entered_state z)) = sp z + 5"
  using callable_room [of z] unfolding entered_state_def STACK_SIZE_def
  by (simp add: unsigned_of_nat take_bit_nat_eq_self del: of_nat_add)

lemma called_frame: "k < 5 \<Longrightarrow> stack (entered_state z) (sp z + k) = frame_of z ! k"
  by (simp add: entered_state_def laid_def nth_append)

lemma return_address: "(ucast (ucast (p AND 0xFFFF) :: u16) :: u32) OR push_bit 16 (ucast (ucast (drop_bit 16 p AND 0xFFFF) :: u16)) = p"
    for p :: u32
proof -
  have m: "(0xFFFF :: u32) = mask 16"
    by (simp add: mask_eq_exp_minus_1)
  show ?thesis
    unfolding m by (rule bit_word_eqI) (auto simp: bit_simps)
qed

text \<open>C21. A routine returns to its caller: whatever it has done above its frame, a return from it
  gives the caller its stack and base pointer back, goes on behind the call, and stores the value
  in the variable the call named.\<close>

theorem call_returns:
  assumes z: "callable z" "pc z + 1 < 2 ^ 32"
    and z2: "bp z2 = bp (entered_state z)" "\<forall>k < sp z + 5. stack z2 k = stack (entered_state z) k"
  shows "opcode_call z = Inr ((), entered_state z) \<and>
    doReturn v z2 = zbind (varAddress (story z (pc z)) True) (\<lambda>store. st_var store v)
      (z2\<lparr>bp := bp z, pc := pc z + 1, sp := sp z\<rparr>)"
proof -
  have b: "unat (bp z2) = sp z + 5"
    using called_bp [OF z(1)] z2(1) by simp
  have f: "stack z2 (sp z + k) = frame_of z ! k" if "k < 5" for k
    using z2(2) called_frame [OF that, of z] that by simp
  have room: "sp z + 5 \<le> STACK_SIZE"
    using callable_room [OF z(1)] by simp
  have "0 \<le> pc z"
    using z(1) by (simp add: callable_def in_story_def)
  then have p: "uint (word_of_int (pc z + 1) :: u32) = pc z + 1"
    using z(2) unfolding uint_word_of_int by (subst mod_pos_pos_trivial) simp_all
  have w: "stack z2 (sp z) = ucast (story z (pc z))" "stack z2 (Suc (sp z)) = ucast (word_of_int (pc z + 1) AND (0xFFFF :: u32))"
    "stack z2 (Suc (Suc (sp z))) = ucast (drop_bit 16 (word_of_int (pc z + 1)) AND (0xFFFF :: u32))"
    "stack z2 (3 + sp z) = bp z"
    using f [of 0] f [of 1] f [of 2] f [of 3] by (simp_all add: frame_of_def frame_words_def numeral_nat)
  have p': "uint (word_of_int (pc z) + 1 :: u32) = pc z + 1"
    using p by simp
  show ?thesis
    using call_state [OF z(1)] b room
    by (simp add: doReturn_def zop_simps w return_address p' ucast_up_ucast_id is_up)
qed

definition call_machine :: zmachine where
  "call_machine = sample_machine (\<lambda>a. if a = 20 then 2 else if a = 24 then 9 else if a = 256 then 16 else 0) [10, 7]"

lemma callable_call_machine: "callable call_machine"
  by (simp add: callable_def call_machine_def sample_machine_def sample_header_def in_story_def Let_def STACK_SIZE_def)

lemma call_returns_witness:
  "opcode_call call_machine = Inr ((), entered_state call_machine) \<and>
   doReturn 5 (entered_state call_machine) = zbind (varAddress (story call_machine (pc call_machine)) True) (\<lambda>store. st_var store 5)
     ((entered_state call_machine)\<lparr>bp := bp call_machine, pc := pc call_machine + 1, sp := sp call_machine\<rparr>)"
proof (rule call_returns [OF callable_call_machine])
  show "pc call_machine + 1 < 2 ^ 32"
    by (simp add: call_machine_def sample_machine_def)
qed simp_all

text \<open>C22. A called routine finds its arguments in its first locals and the defaults of its header in the
  others; more arguments than locals are dropped.\<close>

theorem call_locals:
  assumes z: "callable z" and i: "i < num_locals z"
  shows "zbind (varAddress (of_nat (i + 1)) False) ld_var (entered_state z) =
    Inr (if i < length (call_args z) then call_args z ! i else defaults z ! i, entered_state z)"
proof -
  have b: "unat (bp (entered_state z)) = sp z + 5" and room: "sp z + 5 + num_locals z \<le> STACK_SIZE" "num_locals z \<le> 15"
    using called_bp [OF z] callable_room [OF z] by simp_all
  have n: "unat (stack (entered_state z) (sp z + 4)) = num_locals z"
    using called_frame [of 4 z]
    by (simp add: frame_of_def frame_words_def num_locals_def unsigned_ucast_eq take_bit_nat_eq_self unat_u8_bound
        less_trans [OF unat_u8_bound])
  have v: "unat (of_nat (i + 1) :: u8) = i + 1"
    using i room(2) unfolding unsigned_of_nat by (simp add: take_bit_nat_eq_self)
  have cond: "(of_nat (i + 1) :: u8) \<noteq> 0" "(of_nat (i + 1) :: u8) \<le> 0xF"
    using v i room(2) by (auto simp: word_le_nat_alt simp del: of_nat_add of_nat_Suc)
  have bz: "bp (entered_state z) \<noteq> 0"
    using b by auto
  have "varAddress (of_nat (i + 1)) False (entered_state z) = Inr (In_stack (sp z + 5 + i), entered_state z)"
    using cond bz b n [unfolded add.commute [of _ 4]] v i room
    by (simp add: varAddress_def zop_simps del: of_nat_add of_nat_Suc)
  moreover have "stack (entered_state z) (sp z + 5 + i) =
      swap16 (if i < length (call_args z) then call_args z ! i else defaults z ! i)"
    using i by (simp add: entered_state_def laid_def nth_append)
  ultimately show ?thesis
    using i room by (simp add: zop_simps ld_var_def)
qed

lemma call_locals_witness:
  "zbind (varAddress 1 False) ld_var (entered_state call_machine) = Inr (7, entered_state call_machine) \<and>
   zbind (varAddress 2 False) ld_var (entered_state call_machine) = Inr (9, entered_state call_machine)"
proof -
  have r: "routine call_machine = 20"
    by (simp add: routine_def call_machine_def sample_machine_def)
  have n: "num_locals call_machine = 2"
    by (simp add: num_locals_def r) (simp add: call_machine_def sample_machine_def)
  have "get_word (story call_machine) 23 = 9"
    by (simp add: get_word_def call_machine_def sample_machine_def u16_of_def)
  then have d: "defaults call_machine ! 1 = 9"
    by (simp add: defaults_def n r)
  have c: "call_args call_machine = [7]"
    by (simp add: call_args_def n) (simp add: call_machine_def sample_machine_def)
  show ?thesis
    using call_locals [OF callable_call_machine, of 0] call_locals [OF callable_call_machine, of 1] n c d
    by simp
qed

end
