(* ===== verification/ZArith.thy ===== *)
theory ZArith
  imports ZCall
begin

text \<open>
  Arithmetic, comparison, branches and variable accesses of the Z-machine
  (\<^verbatim>\<open>mojozork.c\<close>). Casts to \<^verbatim>\<open>sint16\<close> are \<open>sint\<close>; a result converted back to 16 bits is
  \<open>word_of_int\<close>.
\<close>

section \<open>Arithmetic\<close>

definition opcode_add :: "unit zop" where
  "opcode_add = zbind store_address (\<lambda>store. zbind (operand 0) (\<lambda>a. zbind (operand 1) (\<lambda>b.
     st_var store (word_of_int (int16 (sint a + sint b))))))"

definition opcode_sub :: "unit zop" where
  "opcode_sub = zbind store_address (\<lambda>store. zbind (operand 0) (\<lambda>a. zbind (operand 1) (\<lambda>b.
     st_var store (word_of_int (int16 (sint a - sint b))))))"

definition opcode_mul :: "unit zop" where
  "opcode_mul = zbind store_address (\<lambda>store. zbind (operand 0) (\<lambda>a. zbind (operand 1) (\<lambda>b.
     st_var store (word_of_int (sint a * sint b)))))"

definition opcode_div :: "unit zop" where
  "opcode_div = zbind store_address (\<lambda>store. zbind (operand 0) (\<lambda>a. zbind (operand 1) (\<lambda>b.
     if b = 0 then zdie else st_var store (word_of_int (sint a sdiv sint b)))))"

definition opcode_mod :: "unit zop" where
  "opcode_mod = zbind store_address (\<lambda>store. zbind (operand 0) (\<lambda>a. zbind (operand 1) (\<lambda>b.
     if b = 0 then zdie else st_var store (word_of_int (sint a smod sint b)))))"

definition opcode_or :: "unit zop" where
  "opcode_or = zbind store_address (\<lambda>store. zbind (operand 0) (\<lambda>a. zbind (operand 1) (\<lambda>b.
     st_var store (a OR b))))"

definition opcode_and :: "unit zop" where
  "opcode_and = zbind store_address (\<lambda>store. zbind (operand 0) (\<lambda>a. zbind (operand 1) (\<lambda>b.
     st_var store (a AND b))))"

definition opcode_not :: "unit zop" where
  "opcode_not = zbind store_address (\<lambda>store. zbind (operand 0) (\<lambda>a. st_var store (NOT a)))"

section \<open>Branches\<close>

definition doBranch :: "bool \<Rightarrow> unit zop" where
  "doBranch truth =
     zbind next_pc (\<lambda>branch.
     let farjump = \<not> bit branch 6; onTruth = bit branch 7 in
     zbind (if farjump then next_pc else zret 0) (\<lambda>byte2.
     if truth = onTruth then
       let offset = uint (branch AND 0x3F);
           offset = (if farjump then
                       let offset = (if bit offset 5 then offset OR 0xC0 else offset)
                       in int16 (push_bit 8 offset OR uint byte2)
                     else offset)
       in if offset = 0 then doReturn 0
          else if offset = 1 then doReturn 1
          else zmod (\<lambda>z. z\<lparr>pc := pc z + offset - 2\<rparr>)
     else zret ()))"

text \<open>Compares with each further operand in turn.\<close>

definition opcode_je :: "unit zop" where
  "opcode_je = zbind (operand 0) (\<lambda>a. zbind (zget (\<lambda>z. take (operand_count z - 1) (tl (operands z)))) (\<lambda>others.
     doBranch (list_ex (\<lambda>b. a = b) others)))"

definition opcode_jz :: "unit zop" where
  "opcode_jz = zbind (operand 0) (\<lambda>a. doBranch (a = 0))"

definition opcode_jl :: "unit zop" where
  "opcode_jl = zbind (operand 0) (\<lambda>a. zbind (operand 1) (\<lambda>b. doBranch (sint a < sint b)))"

definition opcode_jg :: "unit zop" where
  "opcode_jg = zbind (operand 0) (\<lambda>a. zbind (operand 1) (\<lambda>b. doBranch (sint b < sint a)))"

definition opcode_test :: "unit zop" where
  "opcode_test = zbind (operand 0) (\<lambda>a. zbind (operand 1) (\<lambda>b. doBranch (a AND b = b)))"

definition opcode_jump :: "unit zop" where
  "opcode_jump = zbind (operand 0) (\<lambda>a. zmod (\<lambda>z. z\<lparr>pc := pc z + sint a - 2\<rparr>))"

section \<open>Variables\<close>

definition change_var :: "int \<Rightarrow> u16 zop" where
  "change_var d = zbind (operand 0) (\<lambda>v. zbind (varAddress (ucast v) True) (\<lambda>store.
     zbind (ld_var store) (\<lambda>val. let val = word_of_int (int16 (sint val + d)) in
     zbind (st_var store val) (\<lambda>_. zret val))))"

definition opcode_inc_chk :: "unit zop" where
  "opcode_inc_chk = zbind (change_var 1) (\<lambda>val. zbind (operand 1) (\<lambda>b. doBranch (sint b < sint val)))"

definition opcode_inc :: "unit zop" where
  "opcode_inc = zbind (change_var 1) (\<lambda>_. zret ())"

definition opcode_dec_chk :: "unit zop" where
  "opcode_dec_chk = zbind (change_var (-1)) (\<lambda>val. zbind (operand 1) (\<lambda>b. doBranch (sint val < sint b)))"

definition opcode_dec :: "unit zop" where
  "opcode_dec = zbind (change_var (-1)) (\<lambda>_. zret ())"

definition opcode_load :: "unit zop" where
  "opcode_load = zbind (operand 0) (\<lambda>v. zbind (varAddress (ucast (v AND 0xFF)) False) (\<lambda>valptr.
     zbind (ld_var valptr) (\<lambda>val. zbind store_address (\<lambda>store. st_var store val))))"

definition opcode_store :: "unit zop" where
  "opcode_store = zbind (operand 0) (\<lambda>v. zbind (varAddress (ucast (v AND 0xFF)) True) (\<lambda>store.
     zbind (operand 1) (st_var store)))"

section \<open>The story as arrays\<close>

text \<open>The offsets wrap at 16 bits. A word is copied without a change of byte order.\<close>

definition opcode_loadw :: "unit zop" where
  "opcode_loadw = zbind store_address (\<lambda>store. zbind (operand 0) (\<lambda>a. zbind (operand 1) (\<lambda>b.
     zbind (READUI16 (get_virtualized_mem_ptr (a + b * 2))) (st_var store))))"

definition opcode_loadb :: "unit zop" where
  "opcode_loadb = zbind store_address (\<lambda>store. zbind (operand 0) (\<lambda>a. zbind (operand 1) (\<lambda>b.
     zbind (ld_byte (get_virtualized_mem_ptr (a + b))) (\<lambda>v. st_var store (ucast v)))))"

definition opcode_storew :: "unit zop" where
  "opcode_storew = zbind (operand 0) (\<lambda>a. zbind (operand 1) (\<lambda>b. zbind (operand 2) (\<lambda>src.
     WRITEUI16 (get_virtualized_mem_ptr (a + b * 2)) src)))"

definition opcode_storeb :: "unit zop" where
  "opcode_storeb = zbind (operand 0) (\<lambda>a. zbind (operand 1) (\<lambda>b. zbind (operand 2) (\<lambda>src.
     st_byte (get_virtualized_mem_ptr (a + b)) (ucast src))))"

section \<open>Arithmetic is that of 16-bit words\<close>

text \<open>An operation that only computes a value and stores it in the variable its code names.\<close>

definition store_result :: "u16 \<Rightarrow> unit zop" where
  "store_result w = zbind store_address (\<lambda>store. st_var store w)"

lemma word_of_int16 [simp]: "(word_of_int (int16 x) :: u16) = word_of_int x"
proof (rule bit_word_eqI)
  fix n assume "n < LENGTH(16)"
  then consider "n < 15" | "n = 15"
    by fastforce
  then show "bit (word_of_int (int16 x) :: u16) n = bit (word_of_int x :: u16) n"
    by cases (simp_all add: int16_def bit_simps)
qed

lemma word_of_sint [simp]: "(word_of_int (sint a) :: u16) = a"
  by simp

lemma varAddress_operands: "varAddress v w z = Inr (p, z') \<Longrightarrow> operands z' = operands z"
  by (auto simp: varAddress_def zbind_def zop_simps ld_stack_def bindR_eq_Inr split: if_splits)

lemma store_address_operands: "store_address z = Inr (p, z') \<Longrightarrow> operands z' = operands z"
  by (auto simp: store_address_def next_pc_def zbind_Inr zop_simps ld_byte_def split: if_splits
      dest!: varAddress_operands)

lemma alu_store:
  "zbind store_address (\<lambda>store. zbind (operand 0) (\<lambda>a. zbind (operand 1) (\<lambda>b. st_var store (f a b)))) z =
     store_result (f (operands z ! 0) (operands z ! 1)) z"
proof (cases "store_address z")
  case (Inr r)
  then show ?thesis
    using store_address_operands [of z "fst r" "snd r"]
    by (cases r) (simp add: store_result_def zop_simps operand_def)
qed (simp add: store_result_def zop_simps)

lemma alu_check:
  "zbind store_address (\<lambda>store. zbind (operand 0) (\<lambda>a. zbind (operand 1) (\<lambda>b.
      if b = 0 then zdie else st_var store (f a b)))) z =
     (if operands z ! 1 = 0 then zbind store_address (\<lambda>_. zdie) z
      else store_result (f (operands z ! 0) (operands z ! 1)) z)"
proof (cases "store_address z")
  case (Inr r)
  then show ?thesis
    using store_address_operands [of z "fst r" "snd r"]
    by (cases r) (simp add: store_result_def zop_simps operand_def)
qed (simp add: store_result_def zop_simps)

lemmas alu_result = alu_store [unfolded One_nat_def]
lemmas alu_checked = alu_check [unfolded One_nat_def]

text \<open>C28. Addition, subtraction and multiplication of the signed values are the word operations, modulo
  65536; division and remainder truncate towards zero, and stop the interpreter on a zero divisor.\<close>

theorem arithmetic_results:
  "opcode_add z = store_result (operands z ! 0 + operands z ! 1) z \<and>
   opcode_sub z = store_result (operands z ! 0 - operands z ! 1) z \<and>
   opcode_mul z = store_result (operands z ! 0 * operands z ! 1) z \<and>
   opcode_div z = (if operands z ! 1 = 0 then zbind store_address (\<lambda>_. zdie) z
     else store_result (word_of_int (sint (operands z ! 0) sdiv sint (operands z ! 1))) z) \<and>
   opcode_mod z = (if operands z ! 1 = 0 then zbind store_address (\<lambda>_. zdie) z
     else store_result (word_of_int (sint (operands z ! 0) smod sint (operands z ! 1))) z)"
  by (simp add: opcode_add_def opcode_sub_def opcode_mul_def opcode_div_def opcode_mod_def alu_result
      alu_checked)

section \<open>Branch offsets\<close>

text \<open>The operand of a branch, as the Z-machine standard gives it: one byte with an unsigned offset of 6
  bits, or two bytes with a signed offset of 14 bits.\<close>

definition branch_length :: "u8 \<Rightarrow> int" where
  "branch_length b1 = (if bit b1 6 then 1 else 2)"

definition branch_offset :: "u8 \<Rightarrow> u8 \<Rightarrow> int" where
  "branch_offset b1 b2 =
     (if bit b1 6 then uint (b1 AND 0x3F) else signed_take_bit 13 (uint (b1 AND 0x3F) * 256 + uint b2))"

lemma bit_C0: "bit (0xC0 :: int) n \<longleftrightarrow> n = 6 \<or> n = 7"
proof -
  have "(0xC0 :: int) = push_bit 6 (mask 2)"
    by (simp add: mask_eq_exp_minus_1 push_bit_eq_mult)
  then show ?thesis
    by (simp only: bit_push_bit_iff bit_mask_iff) auto
qed

lemma far_offset:
  "int16 (push_bit 8 (if bit (uint (b1 AND 0x3F)) 5 then uint (b1 AND 0x3F) OR 0xC0 else uint (b1 AND 0x3F)) OR uint b2) =
     signed_take_bit 13 (uint (b1 AND 0x3F) * 256 + uint b2)" for b1 b2 :: u8
proof -
  have o: "bit (uint (b1 AND 0x3F)) n \<longleftrightarrow> n < 6 \<and> bit b1 n" for n
  proof -
    have m: "(0x3F :: u8) = mask 6"
      by (simp add: mask_eq_exp_minus_1)
    show ?thesis
      unfolding m by (auto simp: bit_simps dest: bit_imp_le_length)
  qed
  have b: "bit (uint b2) n \<Longrightarrow> n < 8" for n
    by (auto simp: bit_simps dest: bit_imp_le_length)
  define x where "x = uint (b1 AND 0x3F)"
  have sum: "x * 256 + uint b2 = push_bit 8 x OR uint b2"
  proof -
    have "push_bit 8 x AND uint b2 = 0"
      by (rule bit_eqI) (auto simp: bit_simps dest: bit_imp_le_length)
    then show ?thesis
      by (simp add: disjunctive_add_eq_or push_bit_eq_mult flip: disjunctive_add_eq_or)
  qed
  show ?thesis
    unfolding x_def [symmetric] sum int16_def
  proof (rule bit_eqI)
    fix n :: nat
    consider "n < 13" | "n = 13" | "n = 14" | "15 \<le> n"
      by linarith
    then show "bit (signed_take_bit 15 (push_bit 8 (if bit x 5 then x OR 0xC0 else x) OR uint b2)) n =
        bit (signed_take_bit 13 (push_bit 8 x OR uint b2)) n"
      by cases (auto simp: bit_simps bit_C0 o [folded x_def] dest: bit_imp_le_length)
  qed
qed

text \<open>C25. A branch whose condition agrees with its first byte's top bit goes to its offset, an unsigned 6-bit
  or a signed 14-bit number, counted from behind the operand less 2; the offsets 0 and 1 return
  false and true instead; otherwise execution goes on behind the operand.\<close>

theorem branch_goes:
  assumes "in_story z (pc z)" "\<not> bit (story z (pc z)) 6 \<longrightarrow> in_story z (pc z + 1)"
  shows "let b1 = story z (pc z); behind = pc z + branch_length b1;
      offset = branch_offset b1 (story z (pc z + 1))
    in doBranch truth z =
      (if truth \<noteq> bit b1 7 then Inr ((), z\<lparr>pc := behind\<rparr>)
       else if offset = 0 then doReturn 0 (z\<lparr>pc := behind\<rparr>)
       else if offset = 1 then doReturn 1 (z\<lparr>pc := behind\<rparr>)
       else Inr ((), z\<lparr>pc := behind + offset - 2\<rparr>))"
  using assms far_offset [of "story z (pc z)" "story z (pc z + 1)"]
  by (cases "bit (story z (pc z)) 6")
    (simp_all add: doBranch_def zop_simps Let_def branch_length_def branch_offset_def algebra_simps)

lemma branch_goes_witness:
  "doBranch True (sample_machine (\<lambda>a. if a = 256 then 0xCA else 0) []) =
    Inr ((), (sample_machine (\<lambda>a. if a = 256 then 0xCA else 0) [])\<lparr>pc := 265\<rparr>)"
  using branch_goes [of "sample_machine (\<lambda>a. if a = 256 then 0xCA else 0) []" True]
  by (simp add: sample_machine_def in_story_def branch_length_def branch_offset_def Let_def)

text \<open>C31. Incrementing or decrementing variable 0 does not change the top of the stack: it leaves it
  and pushes a word made from whatever the array held above it.\<close>

theorem inc_stack_pushes:
  assumes "ucast (operands z ! 0) = (0 :: u8)" "sp z < STACK_SIZE"
  shows "opcode_inc z = Inr ((), z\<lparr>sp := sp z + 1, stack := (stack z)(sp z := swap16 (swap16 (stack z (sp z)) + 1))\<rparr>)"
  using assms
  by (simp add: opcode_inc_def change_var_def operand_def zop_simps varAddress_def ld_var_def st_var_def Let_def)

lemma inc_stack_pushes_witness:
  "opcode_inc (sample_machine (\<lambda>a. 0) [0]) =
    Inr ((), (sample_machine (\<lambda>a. 0) [0])\<lparr>sp := 1, stack := (\<lambda>k. 0)(0 := swap16 (swap16 0 + 1))\<rparr>)"
  using inc_stack_pushes [of "sample_machine (\<lambda>a. 0) [0]"]
  by (simp add: sample_machine_def STACK_SIZE_def)

end
