(* ===== verification/ZObjects.thy ===== *)
theory ZObjects
  imports ZArith
begin

text \<open>
  The object table of the Z-machine (\<^verbatim>\<open>mojozork.c\<close>): attributes, the tree of parents,
  siblings and children, and the property lists. Only version 3 stories have objects here; for
  later versions the code stops.
\<close>

section \<open>Objects\<close>

definition getObjectPtr :: "u16 \<Rightarrow> int zop" where
  "getObjectPtr objid =
     (if objid = 0 then zdie
      else zbind (zget (\<lambda>z. version (header z) \<le> 3)) (\<lambda>v3.
           if v3 \<and> 255 < objid then zdie
           else zget (\<lambda>z. uint (objtab_addr (header z)) + 31 * 2 + 9 * (uint objid - 1))))"

text \<open>\<^verbatim>\<open>if (version <= 3) \<dots> else die("write me")\<close>\<close>

definition v3_only :: "'a zop \<Rightarrow> 'a zop" where
  "v3_only m = zbind (zget (\<lambda>z. version (header z) \<le> 3)) (\<lambda>v3. if v3 then m else zdie)"

definition opcode_test_attr :: "unit zop" where
  "opcode_test_attr = zbind (operand 0) (\<lambda>objid. zbind (operand 1) (\<lambda>attrid.
     zbind (getObjectPtr objid) (\<lambda>ptr. v3_only (
     zbind (ld_byte (ptr + uint attrid div 8)) (\<lambda>v.
     doBranch (v AND drop_bit (unat (attrid AND 7)) 0x80 \<noteq> 0))))))"

definition opcode_set_attr :: "unit zop" where
  "opcode_set_attr = zbind (operand 0) (\<lambda>objid. zbind (operand 1) (\<lambda>attrid.
     zbind (getObjectPtr objid) (\<lambda>ptr. v3_only (
     zbind (ld_byte (ptr + uint attrid div 8)) (\<lambda>v.
     st_byte (ptr + uint attrid div 8) (v OR drop_bit (unat (attrid AND 7)) 0x80))))))"

definition opcode_clear_attr :: "unit zop" where
  "opcode_clear_attr = zbind (operand 0) (\<lambda>objid. zbind (operand 1) (\<lambda>attrid.
     if objid = 0 then zret ()
     else zbind (getObjectPtr objid) (\<lambda>ptr. v3_only (
       zbind (ld_byte (ptr + uint attrid div 8)) (\<lambda>v.
       st_byte (ptr + uint attrid div 8) (v AND NOT (drop_bit (unat (attrid AND 7)) 0x80)))))))"

section \<open>The tree\<close>

text \<open>The result is None for NULL.\<close>

definition getObjectPtrParent :: "int \<Rightarrow> int option zop" where
  "getObjectPtrParent objptr = v3_only (zbind (ld_byte (objptr + 4)) (\<lambda>parent.
     if parent = 0 then zret None else zbind (getObjectPtr (ucast parent)) (\<lambda>p. zret (Some p))))"

partial_function (option) find_link :: "u16 \<Rightarrow> int \<Rightarrow> zmachine \<Rightarrow> (int \<times> zmachine) run option" where
  "find_link objid ptr z =
     (case ld_byte ptr z of
        Inl e \<Rightarrow> Some (Inl e)
      | Inr (v, z1) \<Rightarrow>
          if ucast v = objid then Some (Inr (ptr, z1))
          else (case getObjectPtr (ucast v) z1 of
                  Inl e \<Rightarrow> Some (Inl e)
                | Inr (p, z2) \<Rightarrow> find_link objid (p + 5) z2))"

definition unparentObject :: "u16 \<Rightarrow> unit zop" where
  "unparentObject objid =
     (let objid = remap_objectid objid in
      zbind (getObjectPtr objid) (\<lambda>objptr.
      zbind (getObjectPtrParent objptr) (\<lambda>parentptr.
      case parentptr of
        None \<Rightarrow> zret ()
      | Some p \<Rightarrow> zbind (\<lambda>z. loop_result (find_link objid (p + 6) z)) (\<lambda>ptr.
          zbind (ld_byte (objptr + 5)) (\<lambda>sibling. st_byte ptr sibling)))))"

definition opcode_insert_obj :: "unit zop" where
  "opcode_insert_obj = zbind (operand 0) (\<lambda>a. zbind (operand 1) (\<lambda>b.
     let objid = remap_objectid a; dstid = remap_objectid b in
     zbind (getObjectPtr objid) (\<lambda>objptr.
     zbind (getObjectPtr dstid) (\<lambda>dstptr. v3_only (
     zbind (unparentObject objid) (\<lambda>_.
     zbind (st_byte (objptr + 4) (ucast dstid)) (\<lambda>_.
     zbind (ld_byte (dstptr + 6)) (\<lambda>child.
     zbind (st_byte (objptr + 5) child) (\<lambda>_.
     st_byte (dstptr + 6) (ucast objid))))))))))"

definition opcode_remove_obj :: "unit zop" where
  "opcode_remove_obj = zbind (operand 0) (\<lambda>objid.
     zbind (getObjectPtr objid) (\<lambda>objptr. v3_only (
     zbind (unparentObject objid) (\<lambda>_.
     zbind (st_byte (objptr + 4) 0) (\<lambda>_. st_byte (objptr + 5) 0)))))"

definition opcode_jin :: "unit zop" where
  "opcode_jin = zbind (operand 0) (\<lambda>objid. zbind (operand 1) (\<lambda>parentid.
     if objid = 0 then zret ()
     else zbind (getObjectPtr objid) (\<lambda>objptr. v3_only (
       zbind (ld_byte (objptr + 4)) (\<lambda>parent. doBranch (ucast parent = parentid))))))"

definition getObjectRelationship :: "u16 \<Rightarrow> int \<Rightarrow> u16 zop" where
  "getObjectRelationship objid relationship = zbind (getObjectPtr objid) (\<lambda>objptr.
     v3_only (zbind (ld_byte (objptr + relationship)) (\<lambda>v. zret (ucast v))))"

definition opcode_get_parent :: "unit zop" where
  "opcode_get_parent = zbind store_address (\<lambda>store. zbind (operand 0) (\<lambda>objid.
     zbind (getObjectRelationship objid 4) (st_var store)))"

definition opcode_get_sibling :: "unit zop" where
  "opcode_get_sibling = zbind store_address (\<lambda>store. zbind (operand 0) (\<lambda>objid.
     zbind (getObjectRelationship objid 5) (\<lambda>result.
     zbind (st_var store result) (\<lambda>_. doBranch (result \<noteq> 0)))))"

definition opcode_get_child :: "unit zop" where
  "opcode_get_child = zbind store_address (\<lambda>store. zbind (operand 0) (\<lambda>objid.
     zbind (getObjectRelationship objid 6) (\<lambda>result.
     zbind (st_var store result) (\<lambda>_. doBranch (result \<noteq> 0)))))"

section \<open>Properties\<close>

datatype prop_query = First_property | Property u16

text \<open>The search through a property list; each round moves on by at least two bytes, and stops at
  the end of the story at the latest. The result is the data and its size, None for NULL.\<close>

function find_property :: "zmachine \<Rightarrow> prop_query \<Rightarrow> int \<Rightarrow> (int \<times> nat) option run" where
  "find_property z propid ptr =
     (if \<not> in_story z ptr then Inl (Undefined OutOfBounds)
      else
        let info = story z ptr; num = ucast (info AND 0x1F) :: u16;
            len = unat (drop_bit 5 info AND 0x7) + 1
        in case propid of
             First_property \<Rightarrow> Inr (Some (ptr + 1, len))
           | Property p \<Rightarrow>
               if num = p then Inr (Some (ptr + 1, len))
               else if num < p then Inr None
               else find_property z propid (ptr + 1 + int len))"
  by pat_completeness auto
termination
  by (relation "measure (\<lambda>(z, p, ptr). nat (int (story_len z) - ptr))")
    (auto simp: in_story_def intro: le_less_trans [of _ 0])

declare find_property.simps [simp del]

definition getObjectProperty :: "u16 \<Rightarrow> prop_query \<Rightarrow> (int \<times> nat) option zop" where
  "getObjectProperty objid propid = zbind (getObjectPtr objid) (\<lambda>ptr. v3_only (
     zbind (READUI16 (ptr + 7)) (\<lambda>addr.
     zbind (ld_byte (uint addr)) (\<lambda>n.
     zbind (zget (\<lambda>z. find_property z propid (uint addr + (uint n * 2 + 1)))) (\<lambda>r.
     case r of Inl e \<Rightarrow> zfail e | Inr p \<Rightarrow> zret p)))))"

definition getObjectShortName :: "u16 \<Rightarrow> int zop" where
  "getObjectShortName objid = zbind (getObjectPtr objid) (\<lambda>ptr. v3_only (
     zbind (READUI16 (ptr + 7)) (\<lambda>addr. zret (uint addr + 1))))"

definition opcode_put_prop :: "unit zop" where
  "opcode_put_prop = zbind (operand 0) (\<lambda>objid. zbind (operand 1) (\<lambda>propid. zbind (operand 2) (\<lambda>val.
     zbind (getObjectProperty objid (Property propid)) (\<lambda>r.
     case r of
       None \<Rightarrow> zdie
     | Some (ptr, len) \<Rightarrow> if len = 1 then st_byte ptr (ucast (val AND 0xFF)) else WRITEUI16 ptr val))))"

definition getDefaultObjectProperty :: "u16 \<Rightarrow> u16 zop" where
  "getDefaultObjectProperty propid = zbind (zget (\<lambda>z. version (header z))) (\<lambda>v.
     if v \<le> 3 \<and> 31 < propid \<or> 4 \<le> v \<and> 63 < propid then zret 0
     else zbind (zget (\<lambda>z. uint (objtab_addr (header z)))) (\<lambda>a. READUI16 (a + (uint propid - 1) * 2)))"

definition opcode_get_prop :: "unit zop" where
  "opcode_get_prop = zbind store_address (\<lambda>store. zbind (operand 0) (\<lambda>objid. zbind (operand 1) (\<lambda>propid.
     zbind (getObjectProperty objid (Property propid)) (\<lambda>r.
     zbind (case r of
         None \<Rightarrow> getDefaultObjectProperty propid
       | Some (ptr, len) \<Rightarrow> if len = 1 then zbind (ld_byte ptr) (\<lambda>v. zret (ucast v)) else READUI16 ptr)
       (st_var store)))))"

definition opcode_get_prop_addr :: "unit zop" where
  "opcode_get_prop_addr = zbind store_address (\<lambda>store. zbind (operand 0) (\<lambda>objid. zbind (operand 1) (\<lambda>propid.
     zbind (getObjectProperty objid (Property propid)) (\<lambda>r.
     st_var store (case r of None \<Rightarrow> 0 | Some (ptr, len) \<Rightarrow> word_of_int ptr)))))"

definition opcode_get_prop_len :: "unit zop" where
  "opcode_get_prop_len = zbind store_address (\<lambda>store. zbind (operand 0) (\<lambda>offset.
     if offset = 0 then st_var store 0
     else v3_only (zbind (ld_byte (get_virtualized_mem_ptr offset - 1)) (\<lambda>info.
       st_var store (ucast (drop_bit 5 info AND 0x7) + 1)))))"

definition opcode_get_next_prop :: "unit zop" where
  "opcode_get_next_prop = zbind store_address (\<lambda>store. zbind (operand 0) (\<lambda>objid. zbind (operand 1) (\<lambda>propid.
     zbind (getObjectProperty objid (if propid = 0 then First_property else Property propid)) (\<lambda>r.
     case r of
       None \<Rightarrow> zdie
     | Some (ptr, len) \<Rightarrow> v3_only (
         zbind (ld_byte (if propid = 0 then ptr - 1 else ptr + int len)) (\<lambda>info.
         st_var store (ucast (info AND 0x1F))))))))"

end
