(* ===== verification/ZTree.thy ===== *)
theory ZTree
  imports ZObjects
begin

text \<open>
  The object tree as lists of children: what the parent, sibling and child fields of the table
  represent, and that inserting and removing objects does on the lists what it should.
\<close>

section \<open>Chains of siblings\<close>

datatype link = Parent | Sibling | Child

fun chain :: "(u8 \<Rightarrow> u8) \<Rightarrow> u8 \<Rightarrow> u8 list \<Rightarrow> bool" where
  "chain next_of x [] \<longleftrightarrow> x = 0"
| "chain next_of x (a # as) \<longleftrightarrow> x = a \<and> a \<noteq> 0 \<and> chain next_of (next_of a) as"

lemma chain_unique: "chain S x as \<Longrightarrow> chain S x bs \<Longrightarrow> as = bs"
proof (induction as arbitrary: x bs)
  case Nil
  then show ?case by (cases bs) auto
next
  case (Cons a as)
  then show ?case by (cases bs) auto
qed

lemma chain_append: "chain S x (as @ bs) \<Longrightarrow> bs \<noteq> [] \<Longrightarrow> chain S (hd bs) bs"
  by (induction as arbitrary: x) (auto simp: neq_Nil_conv)

lemma chain_distinct: "chain S x as \<Longrightarrow> distinct as"
proof (induction as arbitrary: x)
  case (Cons a as)
  have "a \<notin> set as"
  proof
    assume "a \<in> set as"
    then obtain us vs where "as = us @ a # vs"
      by (meson split_list)
    with Cons.prems have "chain S a (a # vs)"
      using chain_append [of S x "a # us" "a # vs"] by simp
    moreover have "chain S a (a # as)"
      using Cons.prems by simp
    ultimately have "a # vs = a # as"
      by (rule chain_unique)
    with \<open>as = us @ a # vs\<close> show False
      by simp
  qed
  with Cons show ?case by auto
qed simp

lemma chain_cong: "(\<And>a. a \<in> set as \<Longrightarrow> S a = T a) \<Longrightarrow> chain S x as = chain T x as"
  by (induction as arbitrary: x) auto

lemma chain_update:
  "a \<notin> set as \<Longrightarrow> chain (S(a := v)) x as = chain S x as"
  "a \<notin> set as \<Longrightarrow> chain (\<lambda>c. if c = a then v else S c) x as = chain S x as"
  by (auto intro!: chain_cong)

text \<open>The element before \<open>b\<close>.\<close>

fun pred_in :: "'a list \<Rightarrow> 'a \<Rightarrow> 'a" where
  "pred_in (a # b # as) c = (if b = c then a else pred_in (b # as) c)"
| "pred_in as c = c"

lemma chain_remove:
  "chain S x as \<Longrightarrow> b \<in> set as \<Longrightarrow> x \<noteq> b \<Longrightarrow>
     pred_in as b \<in> set as \<and> pred_in as b \<noteq> b \<and> S (pred_in as b) = b \<and>
     chain (S(pred_in as b := S b)) x (remove1 b as)"
proof (induction as arbitrary: x)
  case (Cons a as)
  then have x: "x = a" "a \<noteq> b" "b \<in> set as" and c: "chain S (S a) as" "a \<noteq> 0"
    by auto
  have d: "distinct (a # as)"
    using chain_distinct [OF Cons.prems(1)] .
  obtain h t where as: "as = h # t"
    using x(3) by (cases as) auto
  show ?case
  proof (cases "h = b")
    case True
    then have "S a = b" "chain S (S b) t"
      using c as by auto
    then show ?thesis
      using True as x d c(2) by (auto simp: chain_update)
  next
    case False
    then have "S a \<noteq> b"
      using c as by auto
    have IH: "pred_in as b \<in> set as" "pred_in as b \<noteq> b" "S (pred_in as b) = b"
      "chain (S(pred_in as b := S b)) (S a) (remove1 b as)"
      using Cons.IH [OF c(1) x(3) \<open>S a \<noteq> b\<close>] by blast+
    have "pred_in (a # as) b = pred_in as b"
      using False as by simp
    moreover have "pred_in as b \<noteq> a"
      using IH(1) d by auto
    ultimately show ?thesis
      using IH x d c(2) by (auto simp: fun_upd_def)
  qed
qed simp

section \<open>Trees\<close>

definition represents :: "(u8 \<Rightarrow> bool) \<Rightarrow> (link \<Rightarrow> u8 \<Rightarrow> u8) \<Rightarrow> (u8 \<Rightarrow> u8 list) \<Rightarrow> bool" where
  "represents obj F ch \<longleftrightarrow> \<not> obj 0 \<and>
     (\<forall>p. obj p \<longrightarrow> chain (F Sibling) (F Child p) (ch p) \<and> (\<forall>x \<in> set (ch p). obj x \<and> F Parent x = p)) \<and>
     (\<forall>x. obj x \<longrightarrow> F Parent x = 0 \<or> obj (F Parent x) \<and> x \<in> set (ch (F Parent x)))"

text \<open>The same with one object taken out of every list, whatever its own fields hold.\<close>

definition loose :: "u8 \<Rightarrow> (u8 \<Rightarrow> bool) \<Rightarrow> (link \<Rightarrow> u8 \<Rightarrow> u8) \<Rightarrow> (u8 \<Rightarrow> u8 list) \<Rightarrow> bool" where
  "loose b obj F ch \<longleftrightarrow> \<not> obj 0 \<and>
     (\<forall>p. obj p \<longrightarrow> chain (F Sibling) (F Child p) (ch p) \<and> b \<notin> set (ch p) \<and>
        (\<forall>x \<in> set (ch p). obj x \<and> F Parent x = p)) \<and>
     (\<forall>x. obj x \<longrightarrow> x \<noteq> b \<longrightarrow> F Parent x = 0 \<or> obj (F Parent x) \<and> x \<in> set (ch (F Parent x)))"

lemma represents_cong:
  "(\<And>f x. obj x \<Longrightarrow> F f x = G f x) \<Longrightarrow> represents obj F ch \<Longrightarrow> represents obj G ch"
  unfolding represents_def by (metis (no_types, lifting) chain_cong)

definition set_link :: "link \<Rightarrow> u8 \<Rightarrow> u8 \<Rightarrow> (link \<Rightarrow> u8 \<Rightarrow> u8) \<Rightarrow> link \<Rightarrow> u8 \<Rightarrow> u8" where
  "set_link f a v F = F(f := (F f)(a := v))"

lemma set_link_simps [simp]:
  "set_link f a v F g b = (if f = g \<and> a = b then v else F g b)"
  by (simp add: set_link_def)

definition unlink :: "u8 \<Rightarrow> (u8 \<Rightarrow> u8 list) \<Rightarrow> (link \<Rightarrow> u8 \<Rightarrow> u8) \<Rightarrow> link \<Rightarrow> u8 \<Rightarrow> u8" where
  "unlink b ch F =
     (let p = F Parent b in
      if p = 0 then F
      else if F Child p = b then set_link Child p (F Sibling b) F
      else set_link Sibling (pred_in (ch p) b) (F Sibling b) F)"

definition without :: "u8 \<Rightarrow> (u8 \<Rightarrow> u8 list) \<Rightarrow> u8 \<Rightarrow> u8 list" where
  "without b ch p = remove1 b (ch p)"

lemma other_lists: "represents obj F ch \<Longrightarrow> obj p \<Longrightarrow> F Parent b \<noteq> p \<Longrightarrow> b \<notin> set (ch p)"
  by (auto simp: represents_def)

lemma chain_set_link: "a \<notin> set as \<Longrightarrow> chain (set_link Sibling a v F Sibling) x as = chain (F Sibling) x as"
  by (rule chain_cong) auto

lemma unlink_loose:
  assumes R: "represents obj F ch" and b: "obj b"
  shows "loose b obj (unlink b ch F) (without b ch)"
proof (cases "F Parent b = 0")
  case True
  have "b \<notin> set (ch p)" if "obj p" for p
    using other_lists [OF R that, of b] R that True by (metis represents_def)
  moreover from this have "remove1 b (ch p) = ch p" if "obj p" for p
    using that by (simp add: remove1_idem)
  moreover have "unlink b ch F = F"
    using True by (simp add: unlink_def Let_def)
  ultimately show ?thesis
    using R unfolding loose_def represents_def without_def by simp
next
  case False
  define p where "p = F Parent b"
  have p: "obj p" "b \<in> set (ch p)" and c: "chain (F Sibling) (F Child p) (ch p)"
    using R b False by (auto simp: represents_def p_def)
  have dist: "distinct (ch q)" if "obj q" for q
    using R that chain_distinct by (auto simp: represents_def)
  have apart: "b \<notin> set (ch q)" if "obj q" "q \<noteq> p" for q
    using other_lists [OF R that(1)] that(2) by (simp add: p_def)
  have sep: "y \<notin> set (ch q)" if "y \<in> set (ch p)" "obj q" "q \<noteq> p" for y q
    using R p(1) that unfolding represents_def by metis
  show ?thesis
  proof (cases "F Child p = b")
    case True
    then have rest: "chain (F Sibling) (F Sibling b) (remove1 b (ch p))"
      using c p(2) by (cases "ch p") auto
    have u: "unlink b ch F = set_link Child p (F Sibling b) F"
      using False True by (simp add: unlink_def p_def [symmetric] Let_def)
    have chains: "chain (F Sibling) (unlink b ch F Child q) (remove1 b (ch q))" if "obj q" for q
      using R that rest apart by (cases "q = p") (simp_all add: u remove1_idem represents_def)
    have same: "unlink b ch F Sibling = F Sibling" "unlink b ch F Parent = F Parent"
      by (simp_all add: u fun_eq_iff)
    show ?thesis
      unfolding loose_def without_def same
      using R chains dist by (auto simp: represents_def dest: notin_set_remove1)
  next
    case False2: False
    have u: "unlink b ch F = set_link Sibling (pred_in (ch p) b) (F Sibling b) F"
      using False False2 by (simp add: unlink_def p_def [symmetric] Let_def)
    note r = chain_remove [OF c p(2) False2]
    have chains: "chain (unlink b ch F Sibling) (F Child q) (remove1 b (ch q))" if "obj q" for q
    proof (cases "q = p")
      case True
      then show ?thesis
        using r by (simp add: u set_link_def)
    next
      case q: False
      then show ?thesis
        using R that apart sep [of "pred_in (ch p) b" q] r
        by (simp add: u chain_set_link remove1_idem represents_def)
    qed
    have same: "unlink b ch F Child = F Child" "unlink b ch F Parent = F Parent"
      by (simp_all add: u fun_eq_iff)
    show ?thesis
      unfolding loose_def without_def same
      using R chains dist by (auto simp: represents_def dest: notin_set_remove1)
  qed
qed

text \<open>Setting the fields of the loose object, and putting it back.\<close>

lemma loose_own_fields:
  "loose b obj F ch \<Longrightarrow> f \<noteq> Child \<Longrightarrow> loose b obj (set_link f b v F) ch"
  unfolding loose_def by (cases f) (auto simp: chain_set_link set_link_def chain_update)

lemma loose_removed:
  "loose b obj F ch \<Longrightarrow> F Parent b = 0 \<Longrightarrow> represents obj F ch"
  unfolding loose_def represents_def by metis

lemma loose_inserted:
  assumes L: "loose b obj F ch" and b: "obj b" and d: "obj d" "F Parent b = d" "F Sibling b = F Child d"
  shows "represents obj (set_link Child d b F) (ch(d := b # ch d))"
proof -
  let ?G = "set_link Child d b F" and ?ch = "ch(d := b # ch d)"
  have b0: "b \<noteq> 0" "\<not> obj 0"
    using L b unfolding loose_def by metis+
  have same: "?G Sibling = F Sibling" "?G Parent = F Parent"
    by (simp_all add: fun_eq_iff)
  have c: "chain (F Sibling) (F Child p) (ch p)" "\<forall>x \<in> set (ch p). obj x \<and> F Parent x = p" if "obj p" for p
    using L that unfolding loose_def by metis+
  have "chain (F Sibling) (?G Child p) (?ch p) \<and> (\<forall>x \<in> set (?ch p). obj x \<and> F Parent x = p)" if "obj p" for p
    using c [OF that] b b0(1) d(2,3) by (cases "p = d") simp_all
  moreover have "F Parent x = 0 \<or> obj (F Parent x) \<and> x \<in> set (?ch (F Parent x))" if "obj x" for x
  proof (cases "x = b")
    case True
    then show ?thesis using d by simp
  next
    case False
    then have "F Parent x = 0 \<or> obj (F Parent x) \<and> x \<in> set (ch (F Parent x))"
      using L that unfolding loose_def by metis
    then show ?thesis by (cases "F Parent x = d") auto
  qed
  ultimately show ?thesis
    unfolding represents_def same using b0(2) by blast
qed

section \<open>The object table\<close>

definition obj_addr :: "zmachine \<Rightarrow> u8 \<Rightarrow> int" where
  "obj_addr z x = uint (objtab_addr (header z)) + 62 + 9 * (uint x - 1)"

fun link_offset :: "link \<Rightarrow> int" where
  "link_offset Parent = 4" | "link_offset Sibling = 5" | "link_offset Child = 6"

definition links :: "zmachine \<Rightarrow> link \<Rightarrow> u8 \<Rightarrow> u8" where
  "links z f x = story z (obj_addr z x + link_offset f)"

text \<open>A version 3 story with objects 1 to \<open>n\<close>.\<close>

definition is_obj :: "nat \<Rightarrow> u8 \<Rightarrow> bool" where
  "is_obj n x \<longleftrightarrow> 1 \<le> unat x \<and> unat x \<le> n"

definition objects_ok :: "nat \<Rightarrow> zmachine \<Rightarrow> bool" where
  "objects_ok n z \<longleftrightarrow> version (header z) \<le> 3 \<and>
     uint (objtab_addr (header z)) + 62 + 9 * int n \<le> int (story_len z)"

definition tree :: "nat \<Rightarrow> zmachine \<Rightarrow> (u8 \<Rightarrow> u8 list) \<Rightarrow> bool" where
  "tree n z ch \<longleftrightarrow> objects_ok n z \<and> represents (is_obj n) (links z) ch"

definition put_link :: "link \<Rightarrow> u8 \<Rightarrow> u8 \<Rightarrow> zmachine \<Rightarrow> zmachine" where
  "put_link f x v z = z\<lparr>story := (story z)(obj_addr z x + link_offset f := v)\<rparr>"

lemma put_link_simps [simp]:
  "obj_addr (put_link f x v z) y = obj_addr z y" "objects_ok n (put_link f x v z) = objects_ok n z"
  "header (put_link f x v z) = header z" "operands (put_link f x v z) = operands z"
  by (simp_all add: put_link_def obj_addr_def objects_ok_def)

lemma obj_addr_inj: "obj_addr z x + link_offset f = obj_addr z y + link_offset g \<longleftrightarrow> x = y \<and> f = g"
proof
  assume "obj_addr z x + link_offset f = obj_addr z y + link_offset g"
  then have *: "9 * uint x + link_offset f = 9 * uint y + link_offset g"
    by (simp add: obj_addr_def)
  have "uint x = uint y \<and> link_offset f = link_offset g"
    using * by (cases f; cases g) (simp_all, presburger+)
  then show "x = y \<and> f = g"
    by (cases f; cases g) (simp_all add: word_uint_eq_iff)
qed simp

lemma links_put_link [simp]: "links (put_link f x v z) = set_link f x v (links z)"
  by (auto simp: fun_eq_iff links_def) (simp_all add: put_link_def obj_addr_inj obj_addr_def [of "story_update _ _"])

lemma ucast_obj [simp]:
  "ucast x = (ucast y :: u16) \<longleftrightarrow> x = y" "(ucast x :: u16) = 0 \<longleftrightarrow> x = 0" "\<not> 255 < (ucast x :: u16)"
  "uint (ucast x :: u16) = uint x" "(ucast (ucast x :: u16) :: u8) = x" for x y :: u8
proof -
  have u: "uint (ucast w :: u16) = uint w" for w :: u8
    using uint_u8_bound [of w] by (simp add: unsigned_ucast_eq take_bit_int_eq_self)
  show "uint (ucast x :: u16) = uint x"
    by (rule u)
  show "ucast x = (ucast y :: u16) \<longleftrightarrow> x = y" "(ucast x :: u16) = 0 \<longleftrightarrow> x = 0"
    using u by (metis word_uint_eq_iff, metis u uint_0_iff)
  show "\<not> 255 < (ucast x :: u16)"
    using uint_u8_bound [of x] u [of x] by (simp add: word_less_def)
  show "(ucast (ucast x :: u16) :: u8) = x"
    by (simp add: ucast_up_ucast_id is_up)
qed

lemma obj_in_story: "is_obj n x \<Longrightarrow> objects_ok n z \<Longrightarrow> in_story z (obj_addr z x + link_offset f)"
proof -
  assume x: "is_obj n x" and ok: "objects_ok n z"
  obtain k t where k: "unat x = k" "uint x = int k" and t: "uint (objtab_addr (header z)) = t" "0 \<le> t"
    using of_nat_unat [of x] uint_u16_bound by metis
  show ?thesis
    using x ok unfolding is_obj_def objects_ok_def in_story_def obj_addr_def k t(1)
    using t(2) by (cases f) simp_all
qed

lemma getObjectPtr_ok: "is_obj n x \<Longrightarrow> objects_ok n z \<Longrightarrow> getObjectPtr (ucast x) z = Inr (obj_addr z x, z)"
  by (auto simp: getObjectPtr_def zop_simps objects_ok_def is_obj_def obj_addr_def)

lemma ld_link: "is_obj n x \<Longrightarrow> objects_ok n z \<Longrightarrow>
    ld_byte (obj_addr z x + link_offset f) z = Inr (links z f x, z)"
  by (simp add: ld_byte_ok obj_in_story links_def)

lemma st_link: "is_obj n x \<Longrightarrow> objects_ok n z \<Longrightarrow>
    st_byte (obj_addr z x + link_offset f) v z = Inr ((), put_link f x v z)"
  by (simp add: st_byte_ok obj_in_story put_link_def)

lemmas ld_links = ld_link [where f = Parent, simplified] ld_link [where f = Sibling, simplified]
  ld_link [where f = Child, simplified]
lemmas st_links = st_link [where f = Parent, simplified] st_link [where f = Sibling, simplified]
  st_link [where f = Child, simplified]

lemma find_link_ok:
  assumes ok: "objects_ok n z"
  shows "chain (links z Sibling) x as \<Longrightarrow> \<forall>a \<in> set as. is_obj n a \<Longrightarrow> b \<in> set as \<Longrightarrow>
    in_story z ptr \<Longrightarrow> story z ptr = x \<Longrightarrow>
    find_link (ucast b) ptr z = Some (Inr (if x = b then ptr else obj_addr z (pred_in as b) + 5, z))"
proof (induction as arbitrary: x ptr)
  case (Cons a as)
  show ?case
  proof (cases "x = b")
    case True
    then show ?thesis
      using Cons.prems by (subst find_link.simps) (simp add: ld_byte_ok)
  next
    case False
    have x: "x = a" "is_obj n a" "b \<in> set as"
      using Cons.prems False by auto
    have next_ptr: "in_story z (obj_addr z a + 5)" "story z (obj_addr z a + 5) = links z Sibling a"
      using obj_in_story [OF x(2) ok, of Sibling] by (simp_all add: links_def)
    have "find_link (ucast b) ptr z = find_link (ucast b) (obj_addr z a + 5) z"
      using Cons.prems(4,5) False x getObjectPtr_ok [OF x(2) ok] by (subst find_link.simps) (simp add: ld_byte_ok)
    also have "\<dots> = Some (Inr (if links z Sibling a = b then obj_addr z a + 5 else obj_addr z (pred_in as b) + 5, z))"
      using Cons.prems(1,2) x(3) next_ptr by (intro Cons.IH) auto
    finally show ?thesis
      using False x Cons.prems(1) by (cases as) auto
  qed
qed simp

section \<open>Moving objects\<close>

text \<open>Only the story changes.\<close>

definition only_story :: "zmachine \<Rightarrow> zmachine \<Rightarrow> bool" where
  "only_story z z' \<longleftrightarrow> z' = z\<lparr>story := story z'\<rparr>"

lemma only_story_put_link: "only_story z z' \<Longrightarrow> only_story z (put_link f x v z')"
  unfolding only_story_def put_link_def by (cases z, cases z') simp

lemma only_story_refl [simp]: "only_story z z"
  by (simp add: only_story_def)

lemma unparent_ok:
  assumes t: "tree n z ch" and b: "is_obj n b"
  shows "\<exists>z'. unparentObject (ucast b) z = Inr ((), z') \<and> only_story z z' \<and>
    links z' = unlink b ch (links z) \<and> objects_ok n z' \<and> (\<forall>x. obj_addr z' x = obj_addr z x)"
proof -
  have ok: "objects_ok n z" and R: "represents (is_obj n) (links z) ch"
    using t by (simp_all add: tree_def)
  define p where "p = links z Parent b"
  have v3: "version (header z) \<le> 3"
    using ok by (simp add: objects_ok_def)
  note ptr = getObjectPtr_ok [OF b ok] ld_links [OF b ok]
  show ?thesis
  proof (cases "p = 0")
    case True
    then show ?thesis
      using ptr v3 ok
      by (intro exI [of _ z]) (simp add: unparentObject_def remap_objectid_def Let_def zop_simps
          getObjectPtrParent_def v3_only_def p_def unlink_def)
  next
    case False
    then have p: "is_obj n p" "b \<in> set (ch p)"
      using R b by (auto simp: represents_def p_def)
    have c: "chain (links z Sibling) (links z Child p) (ch p)" "\<forall>a \<in> set (ch p). is_obj n a"
      using R p(1) by (auto simp: represents_def)
    define place where "place = (if links z Child p = b then obj_addr z p + 6 else obj_addr z (pred_in (ch p) b) + 5)"
    have "find_link (ucast b) (obj_addr z p + 6) z = Some (Inr (place, z))"
      unfolding place_def using obj_in_story [OF p(1) ok, of Child]
      by (intro find_link_ok [OF ok c p(2)]) (simp_all add: links_def)
    then have "unparentObject (ucast b) z = st_byte place (links z Sibling b) z"
      using ptr v3 False getObjectPtr_ok [OF p(1) ok]
      by (simp add: unparentObject_def remap_objectid_def Let_def zop_simps getObjectPtrParent_def v3_only_def
          p_def)
    moreover define w where "w = (if links z Child p = b then put_link Child p (links z Sibling b) z
        else put_link Sibling (pred_in (ch p) b) (links z Sibling b) z)"
    have "st_byte place (links z Sibling b) z = Inr ((), w)"
    proof (cases "links z Child p = b")
      case True
      then show ?thesis
        by (simp add: w_def place_def st_links [OF p(1) ok])
    next
      case False
      then have "is_obj n (pred_in (ch p) b)"
        using chain_remove [OF c(1) p(2) False] c(2) by blast
      then show ?thesis
        using False by (simp add: w_def place_def st_links [OF _ ok])
    qed
    ultimately show ?thesis
      using False ok only_story_put_link [OF only_story_refl, of z]
      by (intro exI [of _ w]) (simp add: w_def unlink_def Let_def p_def [symmetric])
  qed
qed

section \<open>A concrete tree\<close>

text \<open>Three objects, the second and the third in the first.\<close>

definition family :: "u16 list \<Rightarrow> zmachine" where
  "family ops = sample_machine (\<lambda>a. if a = 68 then 2 else if a = 75 then 1 else if a = 76 then 3
     else if a = 84 then 1 else 0) ops"

definition family_lists :: "u8 \<Rightarrow> u8 list" where
  "family_lists p = (if p = 1 then [2, 3] else [])"

lemma is_obj_3: "is_obj 3 x \<longleftrightarrow> x = 1 \<or> x = 2 \<or> x = 3"
proof -
  have "1 \<le> k \<and> k \<le> 3 \<longleftrightarrow> k = 1 \<or> k = 2 \<or> k = (3 :: nat)" for k
    by auto
  then show ?thesis
    by (simp add: is_obj_def word_unat_eq_iff)
qed

lemma tree_family: "tree 3 (family ops) family_lists"
  by (simp add: tree_def objects_ok_def represents_def is_obj_3 family_lists_def links_def obj_addr_def family_def
      sample_machine_def sample_header_def)

text \<open>C23. Inserting an object makes it the first child of its destination and takes it out of the list
  it was in; all other lists of children keep their order. (The object tree of a version 3 story.)\<close>

theorem insert_moves_object:
  assumes t: "tree n z ch" and b: "is_obj n b" and d: "is_obj n d"
    and ops: "operands z ! 0 = ucast b" "operands z ! 1 = ucast d"
  shows "\<exists>z'. opcode_insert_obj z = Inr ((), z') \<and> only_story z z' \<and>
    tree n z' ((without b ch)(d := b # without b ch d))"
proof -
  have ok: "objects_ok n z" and v3: "version (header z) \<le> 3"
    using t by (simp_all add: tree_def objects_ok_def)
  obtain u where u: "unparentObject (ucast b) z = Inr ((), u)" "only_story z u"
    "links u = unlink b ch (links z)" "objects_ok n u" "\<And>x. obj_addr u x = obj_addr z x"
    using unparent_ok [OF t b] by auto
  have L: "loose b (is_obj n) (links u) (without b ch)"
    unfolding u(3) by (rule unlink_loose) (use t b in \<open>simp_all add: tree_def\<close>)
  define u1 where "u1 = put_link Parent b d u"
  define u2 where "u2 = put_link Sibling b (links u1 Child d) u1"
  define z' where "z' = put_link Child d b u2"
  have oks: "objects_ok n u1" "objects_ok n u2" "objects_ok n z'"
    using u(4) by (simp_all add: u1_def u2_def z'_def)
  have addrs: "obj_addr u1 x = obj_addr z x" "obj_addr u2 x = obj_addr z x" for x
    using u(5) by (simp_all add: u1_def u2_def)
  have "opcode_insert_obj z = Inr ((), z')"
    using ops u(1) v3 getObjectPtr_ok [OF b ok] getObjectPtr_ok [OF d ok]
      st_links(1) [OF b u(4), of d] ld_links(3) [OF d oks(1)] st_links(2) [OF b oks(1)] st_links(3) [OF d oks(2)]
    by (simp add: opcode_insert_obj_def operand_def remap_objectid_def Let_def zop_simps v3_only_def
        u(5) addrs u1_def [symmetric] u2_def [symmetric] z'_def [symmetric])
  moreover have "loose b (is_obj n) (links u2) (without b ch)"
    unfolding u2_def u1_def links_put_link by (intro loose_own_fields L) simp_all
  then have "represents (is_obj n) (links z') ((without b ch)(d := b # without b ch d))"
    unfolding z'_def links_put_link by (rule loose_inserted) (use b d in \<open>simp_all add: u2_def u1_def\<close>)
  moreover have "only_story z z'"
    unfolding z'_def u2_def u1_def by (intro only_story_put_link u(2))
  ultimately show ?thesis
    using oks(3) by (auto simp: tree_def)
qed

lemma insert_moves_object_witness:
  "\<exists>z'. opcode_insert_obj (family [3, 2]) = Inr ((), z') \<and> only_story (family [3, 2]) z' \<and>
     tree 3 z' ((without 3 family_lists)(2 := [3]))"
  using insert_moves_object [OF tree_family, of 3 2 "[3, 2]"]
  by (simp add: is_obj_3 without_def [of _ _ 2] family_lists_def) (simp add: family_def sample_machine_def)



end
