(* ===== verification/ZAttributes.thy ===== *)
theory ZAttributes
  imports ZTree
begin

text \<open>
  Attributes and properties of objects: the attributes as a set, the property list as a list of
  numbers and data.
\<close>

section \<open>Attributes\<close>

definition has_attr :: "zmachine \<Rightarrow> u8 \<Rightarrow> nat \<Rightarrow> bool" where
  "has_attr z x a \<longleftrightarrow> bit (story z (obj_addr z x + int (a div 8))) (7 - a mod 8)"

lemma attr_mask: "(drop_bit (unat (of_nat a AND (7 :: u16))) (0x80 :: u8)) = push_bit (7 - a mod 8) 1"
proof -
  have "of_nat a AND (7 :: u16) = take_bit 3 (of_nat a)"
    by (simp add: take_bit_eq_mask mask_eq_exp_minus_1)
  then have "unat (of_nat a AND (7 :: u16)) = a mod 8"
    by (simp add: unsigned_take_bit_eq unsigned_of_nat take_bit_take_bit) (simp add: take_bit_eq_mod)
  moreover have "(0x80 :: u8) = push_bit 7 1"
    by simp
  moreover have "drop_bit k (push_bit 7 1 :: u8) = push_bit (7 - k) 1" if "k < 8" for k
    by (rule bit_word_eqI) (use that in \<open>simp only: bit_simps o_apply; auto\<close>)
  ultimately show ?thesis
    by simp
qed

lemma attr_byte: "a < 65536 \<Longrightarrow> uint (of_nat a :: u16) div 8 = int (a div 8)"
proof -
  assume "a < 65536"
  then have "unat (of_nat a :: u16) = a"
    by (simp add: unsigned_of_nat take_bit_nat_eq_self)
  then have "uint (of_nat a :: u16) = int a"
    by (metis of_nat_unat)
  then show ?thesis
    by (simp only: zdiv_int of_nat_numeral)
qed

lemma obj_attr_in_story:
  assumes "is_obj n x" "objects_ok n z" "k < 4"
  shows "in_story z (obj_addr z x + int k)"
proof -
  obtain j t where "unat x = j" "uint x = int j" "uint (objtab_addr (header z)) = t" "0 \<le> t"
    using of_nat_unat [of x] uint_u16_bound by metis
  then show ?thesis
    using assms unfolding is_obj_def objects_ok_def in_story_def obj_addr_def by simp
qed

definition put_attr :: "u8 \<Rightarrow> nat \<Rightarrow> bool \<Rightarrow> zmachine \<Rightarrow> zmachine" where
  "put_attr x a on z =
     (let p = obj_addr z x + int (a div 8); m = push_bit (7 - a mod 8) 1
      in z\<lparr>story := (story z)(p := (if on then story z p OR m else story z p AND NOT m))\<rparr>)"

lemma attr_addr_inj:
  assumes "a div 8 < 4" "c div 8 < 4"
  shows "obj_addr z x + int (a div 8) = obj_addr z y + int (c div 8) \<longleftrightarrow> x = y \<and> a div 8 = c div 8"
proof
  assume "obj_addr z x + int (a div 8) = obj_addr z y + int (c div 8)"
  then have *: "9 * uint x + int (a div 8) = 9 * uint y + int (c div 8)"
    by (simp add: obj_addr_def)
  have nine: "9 * p + i = 9 * q + j \<Longrightarrow> 0 \<le> i \<Longrightarrow> i < 9 \<Longrightarrow> 0 \<le> j \<Longrightarrow> j < 9 \<Longrightarrow> p = q \<and> i = j" for p q i j :: int
    by presburger
  have "uint x = uint y \<and> int (a div 8) = int (c div 8)"
    by (rule nine [OF *]) (use assms in linarith)+
  then show "x = y \<and> a div 8 = c div 8"
    by (simp add: word_uint_eq_iff)
qed simp

lemma has_put_attr:
  assumes "a < 32" "c < 32"
  shows "has_attr (put_attr x a on z) y c = (if x = y \<and> a = c then on else has_attr z y c)"
proof -
  have ac: "a div 8 < 4" "c div 8 < 4"
    using assms by simp_all
  have addr: "obj_addr (put_attr x a on z) y = obj_addr z y"
    by (simp add: put_attr_def obj_addr_def Let_def)
  have same: "7 - c mod 8 = 7 - a mod 8 \<longleftrightarrow> a = c" if "a div 8 = c div 8"
  proof -
    have "a mod 8 < 8" "c mod 8 < 8"
      by simp_all
    then have "7 - c mod 8 = 7 - a mod 8 \<longleftrightarrow> a mod 8 = c mod 8"
      by linarith
    also have "\<dots> \<longleftrightarrow> a = c"
      using that by (metis div_mult_mod_eq)
    finally show ?thesis .
  qed
  define p where "p = obj_addr z x + int (a div 8)"
  define q where "q = obj_addr z y + int (c div 8)"
  have st: "story (put_attr x a on z) q = (if q = p then
      if on then story z p OR push_bit (7 - a mod 8) 1 else story z p AND NOT (push_bit (7 - a mod 8) 1)
    else story z q)"
    by (simp add: put_attr_def Let_def p_def)
  have eq: "p = q \<longleftrightarrow> x = y \<and> a div 8 = c div 8"
    unfolding p_def q_def by (rule attr_addr_inj [OF ac])
  have small: "7 - c mod 8 < LENGTH(8)"
    by simp
  show ?thesis
    unfolding has_attr_def addr q_def [symmetric] st
    using eq same by (cases "p = q") (auto simp: bit_simps)
qed

text \<open>C29. The attributes of an object are a set: setting or clearing one changes it and no other
  attribute of any object, and a test branches on whether it is in.\<close>

theorem attributes_are_sets:
  assumes ok: "objects_ok n z" and x: "is_obj n x" and a: "a < 32"
    and ops: "operands z ! 0 = ucast x" "operands z ! 1 = of_nat a"
  shows "opcode_set_attr z = Inr ((), put_attr x a True z) \<and>
    opcode_clear_attr z = Inr ((), put_attr x a False z) \<and>
    opcode_test_attr z = doBranch (has_attr z x a) z \<and>
    (\<forall>y c on. c < 32 \<longrightarrow> has_attr (put_attr x a on z) y c = (if x = y \<and> a = c then on else has_attr z y c))"
proof -
  have v3: "version (header z) \<le> 3" and x0: "x \<noteq> 0"
    using ok x by (auto simp: objects_ok_def is_obj_def)
  have ins: "in_story z (obj_addr z x + int (a div 8))"
    using a by (intro obj_attr_in_story [OF x ok]) simp
  show ?thesis
    using getObjectPtr_ok [OF x ok] ops v3 x0 ins a has_put_attr [OF a]
    by (simp add: opcode_set_attr_def opcode_clear_attr_def opcode_test_attr_def operand_def zop_simps v3_only_def
        attr_byte attr_mask and_exp_eq_0_iff_not_bit has_attr_def put_attr_def Let_def)
qed

lemma attributes_are_sets_witness:
  "opcode_set_attr (family [2, 9]) = Inr ((), put_attr 2 9 True (family [2, 9])) \<and>
   opcode_test_attr (family [2, 9]) = doBranch (has_attr (family [2, 9]) 2 9) (family [2, 9]) \<and>
   has_attr (put_attr 2 9 True (family [2, 9])) 2 9 \<and>
   has_attr (put_attr 2 9 True (family [2, 9])) 2 10 = has_attr (family [2, 9]) 2 10"
proof -
  have "objects_ok 3 (family [2, 9])"
    using tree_family by (simp add: tree_def)
  moreover have "operands (family [2, 9]) ! 0 = ucast (2 :: u8)" "operands (family [2, 9]) ! 1 = of_nat 9"
    by (simp_all add: family_def sample_machine_def)
  ultimately show ?thesis
    using attributes_are_sets [of 3 "family [2, 9]" 2 9] by (simp add: is_obj_3)
qed

section \<open>Properties\<close>

text \<open>A property list in the story: descending numbers from 1 to 31, each with 1 to 8 bytes of data,
  and a zero byte at the end.\<close>

definition size_byte :: "nat \<Rightarrow> nat \<Rightarrow> u8" where
  "size_byte num len = of_nat (32 * (len - 1) + num)"

fun props_at :: "zmachine \<Rightarrow> int \<Rightarrow> (nat \<times> u8 list) list \<Rightarrow> bool" where
  "props_at z ptr [] \<longleftrightarrow> in_story z ptr \<and> story z ptr = 0"
| "props_at z ptr ((num, d) # ps) \<longleftrightarrow>
     in_story z ptr \<and> story z ptr = size_byte num (length d) \<and>
     1 \<le> num \<and> num \<le> 31 \<and> 1 \<le> length d \<and> length d \<le> 8 \<and>
     (\<forall>i < length d. in_story z (ptr + 1 + int i) \<and> story z (ptr + 1 + int i) = d ! i) \<and>
     (\<forall>q \<in> set ps. fst q < num) \<and> props_at z (ptr + 1 + int (length d)) ps"

lemma size_byte_fields:
  assumes "num \<le> 31" "1 \<le> len" "len \<le> 8"
  shows "unat (size_byte num len AND 0x1F) = num" "unat (drop_bit 5 (size_byte num len) AND 0x7) + 1 = len"
proof -
  have u: "unat (size_byte num len) = 32 * (len - 1) + num"
    using assms unfolding size_byte_def unsigned_of_nat by (simp add: take_bit_nat_eq_self)
  have m: "(0x1F :: u8) = mask 5" "(0x7 :: u8) = mask 3"
    by (simp_all add: mask_eq_exp_minus_1)
  have "unat (size_byte num len AND 0x1F) = take_bit 5 (unat (size_byte num len))"
    unfolding m by (simp add: unsigned_take_bit_eq flip: take_bit_eq_mask)
  also have "\<dots> = num"
    unfolding u take_bit_eq_mod using assms by simp
  finally show "unat (size_byte num len AND 0x1F) = num" .
  have "unat (drop_bit 5 (size_byte num len) AND 0x7) = take_bit 3 (drop_bit 5 (unat (size_byte num len)))"
    unfolding m by (simp add: unsigned_take_bit_eq unat_drop_bit_eq flip: take_bit_eq_mask)
  also have "\<dots> = len - 1"
    unfolding u take_bit_eq_mod drop_bit_eq_div using assms by simp
  finally show "unat (drop_bit 5 (size_byte num len) AND 0x7) + 1 = len"
    using assms by simp
qed

lemma find_property_step:
  assumes "in_story z ptr" "story z ptr = size_byte num len" "num \<le> 31" "1 \<le> len" "len \<le> 8" "p < 65536"
  shows "find_property z (Property (of_nat p)) ptr =
    (if num = p then Inr (Some (ptr + 1, len)) else if num < p then Inr None
     else find_property z (Property (of_nat p)) (ptr + 1 + int len))"
proof -
  note f = size_byte_fields [OF assms(3-5)]
  have n: "unat (ucast (size_byte num len AND 0x1F) :: u16) = num"
    using f(1) assms(3) by (simp add: unsigned_ucast_eq take_bit_nat_eq_self)
  have p: "unat (of_nat p :: u16) = p"
    using assms(6) by (simp add: unsigned_of_nat take_bit_nat_eq_self)
  have "(ucast (size_byte num len AND 0x1F) :: u16) = of_nat p \<longleftrightarrow> num = p"
    "(ucast (size_byte num len AND 0x1F) :: u16) < of_nat p \<longleftrightarrow> num < p"
    using n p by (metis word_unat_eq_iff, simp add: word_less_nat_alt)
  then show ?thesis
    using assms(1,2) f(2) by (subst find_property.simps) (auto simp: Let_def)
qed

text \<open>C30. Looking up a property finds the data of its entry, if the list has one, and nothing otherwise;
  the search always ends.\<close>

theorem property_lookup:
  assumes "props_at z ptr ps" "1 \<le> p" "p < 65536"
  shows "case map_of ps p of
      None \<Rightarrow> find_property z (Property (of_nat p)) ptr = Inr None
    | Some d \<Rightarrow> \<exists>a. find_property z (Property (of_nat p)) ptr = Inr (Some (a, length d)) \<and>
        (\<forall>i < length d. in_story z (a + int i) \<and> story z (a + int i) = d ! i)"
  using assms(1)
proof (induction ps arbitrary: ptr)
  case Nil
  have "(0 :: u16) \<noteq> of_nat p" "(0 :: u16) < of_nat p"
    using assms(2,3) by (simp_all add: word_less_nat_alt unsigned_of_nat take_bit_nat_eq_self word_unat_eq_iff)
  with Nil show ?case
    by (subst find_property.simps) (simp add: Let_def)
next
  case (Cons e ps)
  obtain num d where e: "e = (num, d)" by (cases e)
  with Cons.prems have q: "in_story z ptr" "story z ptr = size_byte num (length d)" "num \<le> 31" "1 \<le> length d" "length d \<le> 8"
    and dat: "\<forall>i < length d. in_story z (ptr + 1 + int i) \<and> story z (ptr + 1 + int i) = d ! i"
    and desc: "\<forall>q \<in> set ps. fst q < num" and rest: "props_at z (ptr + 1 + int (length d)) ps"
    by simp_all
  note step = find_property_step [OF q assms(3)]
  consider "num = p" | "num < p" | "p < num" by linarith
  then show ?case
  proof cases
    case 1
    then show ?thesis
      using e dat step by (simp add: exI [of _ "ptr + 1"])
  next
    case 2
    then have "map_of ps p = None"
      using desc by (force simp: map_of_eq_None_iff)
    with 2 show ?thesis
      using e step by simp
  next
    case 3
    then have eq: "find_property z (Property (of_nat p)) ptr = find_property z (Property (of_nat p)) (ptr + 1 + int (length d))"
      using step by simp
    have "map_of (e # ps) p = map_of ps p"
      using e 3 by simp
    then show ?thesis
      unfolding eq by (simp only: Cons.IH [OF rest])
  qed
qed

text \<open>Property 5 of two bytes, property 2 of one.\<close>

definition listed :: zmachine where
  "listed = sample_machine (\<lambda>a. if a = 100 then 37 else if a = 101 then 1 else if a = 102 then 2
     else if a = 103 then 2 else if a = 104 then 7 else 0) []"

lemma property_lookup_witness:
  "(\<exists>a. find_property listed (Property 2) 100 = Inr (Some (a, 1)) \<and> story listed a = 7) \<and>
   find_property listed (Property 4) 100 = Inr None"
proof -
  have p: "props_at listed 100 [(5, [1, 2]), (2, [7])]"
    by (auto simp: listed_def sample_machine_def in_story_def size_byte_def less_Suc_eq numeral_2_eq_2)
  show ?thesis
    using property_lookup [OF p, of 2] property_lookup [OF p, of 4] by auto
qed

end
