(* ===== verification/ZText.thy ===== *)
theory ZText
  imports ZObjects
begin

text \<open>
  Text of the Z-machine (\<^verbatim>\<open>mojozork.c\<close>): decoding packed strings of 5-bit characters with
  shifts, abbreviations and 10-bit codes into a buffer of bounded length, and printing. What is
  printed is appended to \<open>printed\<close>. Characters are bytes.
\<close>

section \<open>The alphabet table\<close>

definition alphabet_A2 :: "u8 \<Rightarrow> u8 list" where
  "alphabet_A2 v = [0] @ (if v \<noteq> 1 then [10] else []) @ map (\<lambda>i. 48 + of_nat i) [0..<10] @
     [46, 44, 33, 63, 95, 35, 39, 34, 47, 92] @ (if v = 1 then [60] else []) @ [45, 58, 40, 41]"

definition initAlphabetTable :: "zmachine \<Rightarrow> zmachine" where
  "initAlphabetTable z = z\<lparr>alphabet_table :=
     map (\<lambda>i. 97 + of_nat i) [0..<26] @ map (\<lambda>i. 65 + of_nat i) [0..<26] @ alphabet_A2 (version (header z))\<rparr>"

fun find_index :: "u8 \<Rightarrow> u8 list \<Rightarrow> nat option" where
  "find_index c [] = None"
| "find_index c (x # xs) = (if x = c then Some 0 else map_option Suc (find_index c xs))"

section \<open>Decoding\<close>

text \<open>The result 0 is no character.\<close>

definition decode_zscii_char :: "u16 \<Rightarrow> u8" where
  "decode_zscii_char val =
     (if 32 \<le> val \<and> val \<le> 126 then ucast val
      else if val = 13 then 10
      else if val = 0 then 0
      else if 155 \<le> val \<and> val \<le> 251 then 63
      else 63)"

text \<open>The local variables of the decoder: the room left in the buffer, what has been written to it,
  the count of decoded characters, and the state of shifts and codes.\<close>

record decoder =
  room :: nat
  written :: "u8 list"
  decoded_chars :: nat
  alphabet :: nat
  useAbbrTable :: nat
  zscii_collector :: nat
  zscii_code :: u16

definition put_char :: "u8 \<Rightarrow> decoder \<Rightarrow> decoder" where
  "put_char c t =
     (if c = 0 then t
      else if room t = 0 then t\<lparr>decoded_chars := decoded_chars t + 1\<rparr>
      else t\<lparr>decoded_chars := decoded_chars t + 1, written := written t @ [c], room := room t - 1\<rparr>)"

text \<open>One character; \<open>sub\<close> decodes an abbreviation into the given room, None where abbreviations
  are not allowed.\<close>

definition expand_abbreviation :: "zmachine \<Rightarrow> (int \<Rightarrow> nat \<Rightarrow> (u8 list \<times> nat) run) option \<Rightarrow> nat \<Rightarrow> decoder \<Rightarrow> decoder run" where
  "expand_abbreviation z sub ch t =
     (case sub of
        None \<Rightarrow> Inl (Exited 1)
      | Some dec \<Rightarrow>
          let ptr = uint (abbrtab_addr (header z)) + int (32 * (useAbbrTable t - 1) + ch) * 2
          in if \<not> in_story z ptr \<or> \<not> in_story z (ptr + 1) then Inl (Undefined OutOfBounds)
             else bindR (dec (uint (get_word (story z) ptr) * 2) (room t)) (\<lambda>(out, n).
                    Inr (t\<lparr>decoded_chars := decoded_chars t + n, written := written t @ out,
                           room := room t - length out, useAbbrTable := 0, alphabet := 0\<rparr>)))"

definition decode_char ::
  "zmachine \<Rightarrow> (int \<Rightarrow> nat \<Rightarrow> (u8 list \<times> nat) run) option \<Rightarrow> nat \<Rightarrow> decoder \<Rightarrow> decoder run" where
  "decode_char z sub ch t =
     (if zscii_collector t \<noteq> 0 then
        let code = zscii_code t OR (if zscii_collector t = 2 then push_bit 5 (of_nat ch) else of_nat ch);
            t1 = t\<lparr>zscii_code := code, zscii_collector := zscii_collector t - 1\<rparr>
        in if zscii_collector t1 = 0
           then Inr ((put_char (decode_zscii_char code) t1)\<lparr>alphabet := 0, useAbbrTable := 0, zscii_code := 0\<rparr>)
           else Inr t1
      else if useAbbrTable t \<noteq> 0 then expand_abbreviation z sub ch t
      else
        let v = version (header z);
            unshift = (\<lambda>t. t\<lparr>alphabet := 0\<rparr>)
        in if ch = 0 then Inr (unshift (put_char 32 t))
           else if ch = 1 then
             if v = 1 then Inr (unshift (put_char 10 t)) else Inr (unshift (t\<lparr>useAbbrTable := 1\<rparr>))
           else if ch = 2 \<or> ch = 3 then
             if v \<le> 2 then Inl (Exited 1) else Inr (unshift (t\<lparr>useAbbrTable := ch\<rparr>))
           else if ch = 4 \<or> ch = 5 then
             if v \<le> 2 then Inl (Exited 1) else Inr (t\<lparr>alphabet := ch - 3\<rparr>)
           else if ch = 6 \<and> alphabet t = 2 then Inr (unshift (t\<lparr>zscii_collector := 2\<rparr>))
           else Inr (unshift (put_char (alphabet_table z ! (alphabet t * 26 + (ch - 6))) t)))"

definition zchar :: "u16 \<Rightarrow> nat \<Rightarrow> nat" where
  "zchar code i = unat (drop_bit i code AND 0x1F)"

function decode_words ::
  "zmachine \<Rightarrow> (int \<Rightarrow> nat \<Rightarrow> (u8 list \<times> nat) run) option \<Rightarrow> int \<Rightarrow> decoder \<Rightarrow> (decoder \<times> int) run" where
  "decode_words z sub str t =
     (if \<not> in_story z str \<or> \<not> in_story z (str + 1) then Inl (Undefined OutOfBounds)
      else
        let code = get_word (story z) str
        in bindR (decode_char z sub (zchar code 10) t) (\<lambda>t.
           bindR (decode_char z sub (zchar code 5) t) (\<lambda>t.
           bindR (decode_char z sub (zchar code 0) t) (\<lambda>t.
             if bit code 15 then Inr (t, str + 2) else decode_words z sub (str + 2) t))))"
  by pat_completeness auto
termination
  by (relation "measure (\<lambda>(z, sub, str, t). nat (int (story_len z) - str))") (auto simp: in_story_def)

declare decode_words.simps [simp del]

definition start_decoder :: "nat \<Rightarrow> decoder" where
  "start_decoder buflen = \<lparr>room = buflen, written = [], decoded_chars = 0, alphabet = 0, useAbbrTable = 0,
     zscii_collector = 0, zscii_code = 0\<rparr>"

definition decode_abbreviation :: "zmachine \<Rightarrow> int \<Rightarrow> nat \<Rightarrow> (u8 list \<times> nat) run" where
  "decode_abbreviation z str buflen =
     bindR (decode_words z None str (start_decoder buflen)) (\<lambda>(t, p). Inr (written t, decoded_chars t))"

text \<open>The result: the contents of the buffer, the number of characters of the whole text, the number
  of bytes consumed.\<close>

definition decode_zscii :: "zmachine \<Rightarrow> int \<Rightarrow> bool \<Rightarrow> nat \<Rightarrow> (u8 list \<times> nat \<times> int) run" where
  "decode_zscii z str abbr buflen =
     bindR (decode_words z (if abbr then None else Some (decode_abbreviation z)) str (start_decoder buflen))
       (\<lambda>(t, p). Inr (written t, decoded_chars t, p - str))"

section \<open>Printing\<close>

definition writestr :: "u8 list \<Rightarrow> unit zop" where
  "writestr s = zmod (\<lambda>z. z\<lparr>printed := printed z @ s\<rparr>)"

text \<open>Decodes into a buffer of 512 bytes, and again into a block from \<^verbatim>\<open>malloc\<close> where that
  was too small.\<close>

definition print_zscii :: "host \<Rightarrow> int \<Rightarrow> int zop" where
  "print_zscii H str =
     zbind (zget (\<lambda>z. decode_zscii z str False 512)) (\<lambda>r.
     case r of
       Inl e \<Rightarrow> zfail e
     | Inr (buf, n, used) \<Rightarrow>
         if n \<le> 512 then zbind (writestr (take n buf)) (\<lambda>_. zret used)
         else zbind (\<lambda>z. let (p, z') = syscall H (Malloc (int n)) z in Inr (os_ret p, z')) (\<lambda>p.
           if p = 0 then zdie
           else zbind (zget (\<lambda>z. decode_zscii z str False n)) (\<lambda>r.
             case r of
               Inl e \<Rightarrow> zfail e
             | Inr (buf, n, used) \<Rightarrow> zbind (writestr (take n buf)) (\<lambda>_. zret used))))"

definition opcode_new_line :: "unit zop" where
  "opcode_new_line = writestr [10]"

definition opcode_print :: "host \<Rightarrow> unit zop" where
  "opcode_print H = zbind (zget pc) (\<lambda>p. zbind (print_zscii H p) (\<lambda>used. zmod (\<lambda>z. z\<lparr>pc := p + used\<rparr>)))"

definition opcode_print_ret :: "host \<Rightarrow> unit zop" where
  "opcode_print_ret H = zbind (opcode_print H) (\<lambda>_. zbind (writestr [10]) (\<lambda>_. doReturn 1))"

definition decimal :: "int \<Rightarrow> u8 list" where
  "decimal n = (if n < 0 then 45 # digits (nat (- n)) else digits (nat n))"

definition opcode_print_num :: "unit zop" where
  "opcode_print_num = zbind (operand 0) (\<lambda>v. writestr (decimal (sint v)))"

definition opcode_print_char :: "unit zop" where
  "opcode_print_char = zbind (operand 0) (\<lambda>v. let ch = decode_zscii_char v in
     if ch = 0 then zret () else writestr [ch])"

definition opcode_print_obj :: "host \<Rightarrow> unit zop" where
  "opcode_print_obj H = zbind (operand 0) (\<lambda>objid. zbind (getObjectPtr objid) (\<lambda>ptr. v3_only (
     zbind (READUI16 (ptr + 7)) (\<lambda>addr. zbind (print_zscii H (uint addr + 1)) (\<lambda>_. zret ())))))"

definition opcode_print_addr :: "host \<Rightarrow> unit zop" where
  "opcode_print_addr H = zbind (operand 0) (\<lambda>a. zbind (print_zscii H (uint a)) (\<lambda>_. zret ()))"

definition opcode_print_paddr :: "host \<Rightarrow> unit zop" where
  "opcode_print_paddr H = zbind (operand 0) (\<lambda>a. zbind (unpackAddress a) (\<lambda>p.
     zbind (print_zscii H p) (\<lambda>_. zret ())))"

end
