(* ===== verification/ZRead.thy ===== *)
theory ZRead
  imports ZText
begin

text \<open>
  Input of the Z-machine (\<^verbatim>\<open>mojozork.c\<close>): random numbers, reading a line from the terminal
  or from a script, and splitting it into words that are looked up in the story's dictionary. The
  program is built by \<^verbatim>\<open>cl65\<close>, so \<^verbatim>\<open>int\<close> has 16 bits and signed arithmetic wraps.
\<close>

section \<open>Random numbers\<close>

definition randomNumber :: "u16 zop" where
  "randomNumber z =
     (let seed = int32 (random_seed z * 1103515245 + 12345)
      in Inr (word_of_int (seed sdiv 65536) mod 32768, z\<lparr>random_seed := seed\<rparr>))"

definition doRandom :: "host \<Rightarrow> int \<Rightarrow> u16 zop" where
  "doRandom H rng =
     (if rng = 0 then
        zbind (\<lambda>z. let (r, z') = syscall H Time z in Inr (os_ret r, z')) (\<lambda>t.
        zbind (zmod (\<lambda>z. z\<lparr>random_seed := int16 t\<rparr>)) (\<lambda>_. zret 0))
      else if rng < 0 then
        zbind (zmod (\<lambda>z. z\<lparr>random_seed := int16 (- rng)\<rparr>)) (\<lambda>_. zret 0)
      else
        let lo = 1; hi = word_of_int rng
        in zbind randomNumber (\<lambda>r.
           let result = r mod (hi + 1 - lo) + lo in zret (if result = 0 then 1 else result)))"

definition opcode_random :: "host \<Rightarrow> unit zop" where
  "opcode_random H = zbind store_address (\<lambda>store. zbind (operand 0) (\<lambda>rng.
     zbind (doRandom H (sint rng)) (st_var store)))"

section \<open>Words of the input\<close>

definition table_a2 :: "u8 \<Rightarrow> u8 list" where
  "table_a2 v =
     (if v \<le> 1 then bytes_of ''0123456789.,!?_#'' @ [39, 34, 47, 92] @ bytes_of ''<-:()''
      else [10] @ bytes_of ''0123456789.,!?_#'' @ [39, 34, 47, 92] @ bytes_of ''-:()'')"

text \<open>The Z-characters of one character of a word; upper case is looked up as lower case.\<close>

definition token_zchars :: "u8 \<Rightarrow> u8 \<Rightarrow> nat list" where
  "token_zchars v ch =
     (if 97 \<le> ch \<and> ch \<le> 122 then [unat (ch - 97) + 6]
      else if 65 \<le> ch \<and> ch \<le> 90 then [unat (ch - 65) + 6]
      else case find_index ch (table_a2 v) of None \<Rightarrow> [] | Some k \<Rightarrow> [3, k + 1 + 6])"

text \<open>\<^verbatim>\<open>zchars\<close> has 12 entries; the loop stops when they are full, and a shifted character at the
  last one writes behind the array.\<close>

fun collect_zchars :: "u8 \<Rightarrow> nat list \<Rightarrow> u8 list \<Rightarrow> nat list run" where
  "collect_zchars v zs [] = Inr zs"
| "collect_zchars v zs (ch # chs) =
     (let zs = zs @ token_zchars v ch
      in if 12 < length zs then Inl (Undefined OutOfBounds)
         else if 12 \<le> length zs then Inr zs
         else collect_zchars v zs chs)"

definition zchar_at :: "nat list \<Rightarrow> nat \<Rightarrow> u16" where
  "zchar_at zs k = (if k < length zs then of_nat (zs ! k) else 5)"

definition pack_word :: "nat list \<Rightarrow> nat \<Rightarrow> u16" where
  "pack_word zs k = push_bit 10 (zchar_at zs k) OR push_bit 5 (zchar_at zs (k + 1)) OR zchar_at zs (k + 2)"

definition encode_token :: "u8 \<Rightarrow> nat list \<Rightarrow> u16 list" where
  "encode_token v zs =
     (if v \<le> 3 then [pack_word zs 0, pack_word zs 3 OR 0x8000]
      else [pack_word zs 0, pack_word zs 3, pack_word zs 6 OR 0x8000])"

section \<open>The dictionary\<close>

fun read_words :: "nat \<Rightarrow> int \<Rightarrow> u16 list zop" where
  "read_words 0 ptr = zret []"
| "read_words (Suc n) ptr = zbind (READUI16 ptr) (\<lambda>w. zbind (read_words n (ptr + 2)) (\<lambda>ws. zret (w # ws)))"

text \<open>The search, one entry after the other; None is NULL.\<close>

fun search_dict :: "nat \<Rightarrow> u16 list \<Rightarrow> int \<Rightarrow> int \<Rightarrow> int option zop" where
  "search_dict 0 encoded entrylen dictptr = zret None"
| "search_dict (Suc n) encoded entrylen dictptr =
     zbind (read_words (length encoded) dictptr) (\<lambda>ws.
     if encoded = ws then zret (Some dictptr) else search_dict n encoded entrylen (dictptr + entrylen))"

fun read_bytes :: "nat \<Rightarrow> int \<Rightarrow> u8 list zop" where
  "read_bytes 0 ptr = zret []"
| "read_bytes (Suc n) ptr = zbind (ld_byte ptr) (\<lambda>b. zbind (read_bytes n (ptr + 1)) (\<lambda>bs. zret (b # bs)))"

text \<open>What the tokeniser reads once at its start: the text and parse buffers and the dictionary's
  header.\<close>

record dictionary =
  input_start :: int
  parselen :: u8
  seps :: int
  numseps :: u8
  dict_start :: int
  entrylen :: u8
  numentries :: u16

definition read_dictionary :: "dictionary zop" where
  "read_dictionary =
     zbind (operand 0) (\<lambda>input. zbind (operand 1) (\<lambda>parse.
     zbind (ld_byte (uint parse)) (\<lambda>plen.
     zbind (zget (\<lambda>z. uint (dict_addr (header z)))) (\<lambda>d.
     zbind (ld_byte d) (\<lambda>nseps.
     zbind (ld_byte (d + 1 + uint nseps)) (\<lambda>elen.
     zbind (READUI16 (d + 1 + uint nseps + 1)) (\<lambda>n.
     zret \<lparr>input_start = uint input + 1, parselen = plen, seps = d + 1, numseps = nseps, dict_start = d + 1 + uint nseps + 3,
       entrylen = elen, numentries = n\<rparr>)))))))"

text \<open>One word, from \<open>strstart\<close> up to \<open>ptr\<close>, to the parse buffer.\<close>

definition store_token :: "dictionary \<Rightarrow> int \<Rightarrow> int \<Rightarrow> int \<Rightarrow> unit zop" where
  "store_token d strstart ptr parse =
     zbind (zget (\<lambda>z. version (header z))) (\<lambda>v.
     let toklen = word_of_int (ptr - strstart) :: u8 in
     zbind (read_bytes (unat toklen) strstart) (\<lambda>chs.
     case collect_zchars v [] chs of
       Inl e \<Rightarrow> zfail e
     | Inr zs \<Rightarrow>
         zbind (search_dict (unat (numentries d)) (encode_token v zs) (uint (entrylen d)) (dict_start d)) (\<lambda>dictptr.
         zbind (WRITEUI16 parse (case dictptr of None \<Rightarrow> 0 | Some p \<Rightarrow> word_of_int p)) (\<lambda>_.
         zbind (st_byte (parse + 2) toklen) (\<lambda>_.
         st_byte (parse + 3) (word_of_int (strstart - input_start d + 1)))))))"

definition is_separator :: "dictionary \<Rightarrow> u8 \<Rightarrow> bool zop" where
  "is_separator d ch =
     (if ch = 32 \<or> ch = 0 then zret True
      else zbind (read_bytes (unat (numseps d)) (seps d)) (\<lambda>ss. zret (ch \<in> set ss)))"

lemma zkeeps_read [zkeeps_rules]:
  "zkeeps P (read_words n p)" "zkeeps P (read_bytes n p)" "zkeeps P (search_dict m ws e p)" "zkeeps P (is_separator d ch)"
proof -
  show w: "zkeeps P (read_words n p)" for n p
    by (induction n arbitrary: p) (auto intro!: zkeeps_rules)
  show "zkeeps P (read_bytes n p)" for n p
    by (induction n arbitrary: p) (auto intro!: zkeeps_rules)
  then show "zkeeps P (is_separator d ch)"
    by (auto simp: is_separator_def intro!: zkeeps_rules)
  show "zkeeps P (search_dict m ws e p)"
    by (induction m arbitrary: p) (auto intro!: zkeeps_rules w)
qed

lemma zkeeps_store_token [zkeeps_rules]:
  "(\<And>z a v. P z \<Longrightarrow> in_story z a \<Longrightarrow> P (z\<lparr>story := (story z)(a := v)\<rparr>)) \<Longrightarrow> zkeeps P (store_token d s p q)"
  unfolding store_token_def Let_def WRITEUI16_def by (intro zkeeps_rules)

lemma store_token_len: "store_token d s p q z = Inr (x, z') \<Longrightarrow> story_len z' = story_len z"
  using zkeepsD [OF zkeeps_store_token [of "\<lambda>y. story_len y = story_len z"]] by simp

text \<open>The loop over the input; it moves on by one byte in every round.\<close>

function tokenize :: "dictionary \<Rightarrow> u8 \<Rightarrow> int \<Rightarrow> int \<Rightarrow> int \<Rightarrow> zmachine \<Rightarrow> (u8 \<times> zmachine) run" where
  "tokenize d numtoks strstart ptr parse z =
     (case ld_byte ptr z of
        Inl e \<Rightarrow> Inl e
      | Inr (ch, _) \<Rightarrow>
          (case is_separator d ch z of
             Inl e \<Rightarrow> Inl e
           | Inr (False, _) \<Rightarrow> tokenize d numtoks strstart (ptr + 1) parse z
           | Inr (True, _) \<Rightarrow>
               if (word_of_int (ptr - strstart) :: u8) = 0 then Inr (numtoks, z)
               else (case store_token d strstart ptr parse z of
                       Inl e \<Rightarrow> Inl e
                     | Inr (_, z1) \<Rightarrow>
                         if parselen d \<le> numtoks + 1 \<or> ch = 0 then Inr (numtoks + 1, z1)
                         else tokenize d (numtoks + 1) (ptr + 1) (ptr + 1) (parse + 4) z1)))"
  by pat_completeness auto
termination
  by (relation "measure (\<lambda>(d, n, s, ptr, p, z). nat (int (story_len z) - ptr))")
    (auto simp: ld_byte_def in_story_def dest: store_token_len split: if_splits)

declare tokenize.simps [simp del]

definition tokenizeUserInput :: "unit zop" where
  "tokenizeUserInput = zbind read_dictionary (\<lambda>d. zbind (operand 1) (\<lambda>parse.
     zbind (tokenize d 0 (input_start d) (input_start d) (uint parse + 2)) (\<lambda>numtoks.
     st_byte (uint parse + 1) numtoks)))"

section \<open>Reading a line\<close>

definition call_host :: "host \<Rightarrow> event \<Rightarrow> osres zop" where
  "call_host H e z = Inr (syscall H e z)"

definition zlift :: "(zmachine \<Rightarrow> 'a run) \<Rightarrow> 'a zop" where
  "zlift f z = bindR (f z) (\<lambda>x. Inr (x, z))"

lemma call_host_run [zop_simps]: "call_host H e z = Inr (os_call H (trace z) e, snd (syscall H e z))"
  by (simp add: call_host_def syscall_def Let_def)

lemma zkeeps_zlift [zkeeps_rules]: "zkeeps P (zlift f)"
  by (auto simp: zkeeps_def zlift_def bindR_eq_Inr)

lemma zlift_Inr: "zlift f z = Inr (x, z') \<longleftrightarrow> f z = Inr x \<and> z' = z"
  by (cases "f z") (auto simp: zlift_def)

fun store_bytes :: "int \<Rightarrow> u8 list \<Rightarrow> unit zop" where
  "store_bytes a [] = zret ()"
| "store_bytes a (b # bs) = zbind (st_byte a b) (\<lambda>_. store_bytes (a + 1) bs)"

text \<open>A C string in the story, without its terminator.\<close>

function zstring :: "int \<Rightarrow> zmachine \<Rightarrow> u8 list run" where
  "zstring a z =
     (if \<not> in_story z a then Inl (Undefined OutOfBounds)
      else if story z a = 0 then Inr []
      else bindR (zstring (a + 1) z) (\<lambda>s. Inr (story z a # s)))"
  by pat_completeness auto
termination
  by (relation "measure (\<lambda>(a, z). nat (int (story_len z) - a))") (auto simp: in_story_def)

declare zstring.simps [simp del]

text \<open>The next line of the script; the block it is in has no terminator of its own, and reading on
  behind its end is undefined. The result: the line, and the block from the next line on.\<close>

fun script_line :: "nat \<Rightarrow> u8 list \<Rightarrow> u8 list \<Rightarrow> (u8 list \<times> u8 list) run" where
  "script_line inputlen line block =
     (if inputlen \<le> length line then Inr (line, block)
      else case block of
        [] \<Rightarrow> Inl (Undefined OutOfBounds)
      | ch # scriptptr \<Rightarrow>
          if ch = 0 then Inr (line, block)
          else if ch = 10 then Inr (line, scriptptr)
          else if ch = 13 then script_line inputlen line scriptptr
          else script_line inputlen (line @ [ch]) scriptptr)"

declare script_line.simps [simp del]

text \<open>\<^verbatim>\<open>memmove(script, scriptptr, strlen(scriptptr) + 1)\<close>.\<close>

definition rest_of_script :: "u8 list \<Rightarrow> u8 list \<Rightarrow> u8 list option run" where
  "rest_of_script block scriptptr =
     (let s = takeWhile (\<lambda>c. c \<noteq> 0) scriptptr
      in if length s = length scriptptr then Inl (Undefined OutOfBounds)
         else if s = [] then Inr None
         else Inr (Some (s @ [0] @ drop (length s + 1) block)))"

definition read_startup :: "int \<Rightarrow> nat \<Rightarrow> u8 list \<Rightarrow> unit zop" where
  "read_startup input inputlen name =
     zbind (store_bytes input (take (inputlen - 2) (bytes_of ''#script '' @ name @ [10]) @ [0])) (\<lambda>_.
     zbind (st_byte (input + int inputlen - 1) 0) (\<lambda>_.
     zbind (zmod (\<lambda>z. z\<lparr>startup_script := None\<rparr>)) (\<lambda>_.
     zbind (zlift (zstring input)) writestr)))"

definition read_terminal :: "host \<Rightarrow> int \<Rightarrow> nat \<Rightarrow> unit zop" where
  "read_terminal H input inputlen =
     zbind (call_host H (Fgets (int inputlen))) (\<lambda>r.
     if os_ret r = 0 then zdie else store_bytes input (os_data r @ [0]))"

definition read_script :: "int \<Rightarrow> nat \<Rightarrow> u8 list \<Rightarrow> unit zop" where
  "read_script input inputlen block =
     zbind (zlift (\<lambda>_. script_line inputlen [] block)) (\<lambda>(line, scriptptr).
     zbind (store_bytes input (line @ [0])) (\<lambda>_.
     zbind (zlift (zstring input)) (\<lambda>s.
     zbind (writestr (s @ [10])) (\<lambda>_.
     zbind (zlift (\<lambda>_. rest_of_script block scriptptr)) (\<lambda>sc.
     zbind (zmod (\<lambda>z. z\<lparr>script := sc\<rparr>)) (\<lambda>_.
     if sc = None then writestr (bytes_of ''*** Done running script.\<newline>'') else zret ()))))))"

definition read_input :: "host \<Rightarrow> int \<Rightarrow> nat \<Rightarrow> unit zop" where
  "read_input H input inputlen =
     zbind (zget startup_script) (\<lambda>su. zbind (zget script) (\<lambda>sc.
     case su of
       Some name \<Rightarrow> read_startup input inputlen name
     | None \<Rightarrow> (case sc of
           None \<Rightarrow> read_terminal H input inputlen
         | Some block \<Rightarrow> read_script input inputlen block)))"

text \<open>To lower case, up to the end of the line.\<close>

function lower_line :: "int \<Rightarrow> unit zop" where
  "lower_line ptr z =
     (if \<not> in_story z ptr then Inl (Undefined OutOfBounds)
      else
        let ch = story z ptr
        in if ch = 0 then Inr ((), z)
           else if 65 \<le> ch \<and> ch \<le> 90 then lower_line (ptr + 1) (z\<lparr>story := (story z)(ptr := ch + 32)\<rparr>)
           else if ch = 10 \<or> ch = 13 then Inr ((), z\<lparr>story := (story z)(ptr := 0)\<rparr>)
           else lower_line (ptr + 1) z)"
  by pat_completeness auto
termination
  by (relation "measure (\<lambda>(a, z). nat (int (story_len z) - a))") (auto simp: in_story_def)

declare lower_line.simps [simp del]

text \<open>\<^verbatim>\<open>#script\<close>: the whole file in one block.\<close>

definition load_script :: "host \<Rightarrow> u8 list \<Rightarrow> unit zop" where
  "load_script H fname =
     zbind (zget script) (\<lambda>sc. if sc \<noteq> None then zdie else
     zbind (call_host H (Fopen fname ''rb'')) (\<lambda>io. if os_ret io = 0 then zdie else
     zbind (call_host H (Fseek (os_ret io) 2)) (\<lambda>e. if os_ret e = -1 then zdie else
     zbind (call_host H (Ftell (os_ret io))) (\<lambda>len. if os_ret len = -1 then zdie else
     zbind (call_host H (Malloc (os_ret len))) (\<lambda>p. if os_ret p = 0 then zdie else
     zbind (call_host H (Fseek (os_ret io) 0)) (\<lambda>e. if os_ret e = -1 then zdie else
     zbind (call_host H (Fread (os_ret io) (nat (os_ret len)))) (\<lambda>r. if os_ret r \<noteq> 1 then zdie else
     zbind (zmod (\<lambda>z. z\<lparr>script := Some (os_data r)\<rparr>)) (\<lambda>_.
     zbind (call_host H (Fclose (os_ret io))) (\<lambda>_.
     writestr (bytes_of ''*** Running script '' @ [39] @ fname @ [39] @ bytes_of ''...\<newline>'')))))))))) "

definition is_space :: "u8 \<Rightarrow> bool" where
  "is_space c \<longleftrightarrow> c = 32 \<or> 9 \<le> c \<and> c \<le> 13"

fun digits_value :: "int \<Rightarrow> u8 list \<Rightarrow> int" where
  "digits_value n [] = n"
| "digits_value n (c # cs) = (if 48 \<le> c \<and> c \<le> 57 then digits_value (10 * n + uint (c - 48)) cs else n)"

definition atoi :: "u8 list \<Rightarrow> int" where
  "atoi s = (case dropWhile is_space s of
     [] \<Rightarrow> 0
   | c # cs \<Rightarrow> if c = 45 then - digits_value 0 cs else if c = 43 then digits_value 0 cs else digits_value 0 (c # cs))"

text \<open>No status bar is allocated in this program.\<close>

definition updateStatusBar :: "unit zop" where
  "updateStatusBar = zret ()"

definition opcode_show_status :: "unit zop" where
  "opcode_show_status = updateStatusBar"

text \<open>One round of \<^verbatim>\<open>opcode_read\<close>; the result says whether it calls itself again.\<close>

definition read_step :: "host \<Rightarrow> bool zop" where
  "read_step H =
     zbind (operand 0) (\<lambda>t. zbind (ld_byte (uint t)) (\<lambda>inputlen.
     if inputlen < 3 then zdie else
     zbind (operand 1) (\<lambda>p. zbind (ld_byte (uint p)) (\<lambda>plen.
     if plen = 0 then zdie else
     zbind updateStatusBar (\<lambda>_.
     zbind (read_input H (uint t + 1) (unat inputlen)) (\<lambda>_.
     zbind (lower_line (uint t + 1)) (\<lambda>_.
     zbind (zlift (zstring (uint t + 1))) (\<lambda>s.
     if take 8 s = bytes_of ''#script '' then zbind (load_script H (drop 8 s)) (\<lambda>_. zret True)
     else if take 8 s = bytes_of ''#random '' then
       zbind (doRandom H (int16 (atoi (drop 8 s)))) (\<lambda>val.
       zbind (writestr (bytes_of ''*** random replied: '' @ decimal (uint val) @ [10])) (\<lambda>_. zret True))
     else zbind tokenizeUserInput (\<lambda>_. zret False)))))))))"

partial_function (option) read_loop :: "host \<Rightarrow> zmachine \<Rightarrow> (unit \<times> zmachine) run option" where
  "read_loop H z =
     (case read_step H z of
        Inl e \<Rightarrow> Some (Inl e)
      | Inr (again, z1) \<Rightarrow> if again then read_loop H z1 else Some (Inr ((), z1)))"

definition opcode_read :: "host \<Rightarrow> unit zop" where
  "opcode_read H z = loop_result (read_loop H z)"

end
