(* ===== verification/ZFiles.thy ===== *)
theory ZFiles
  imports ZRead
begin

text \<open>
  Files and start-up of the Z-machine (\<^verbatim>\<open>mojozork.c\<close>): saving and restoring, loading a
  story and setting the machine up for it, with the table of opcodes; and the small operations
  around them. Files are written and read in the host's byte order, which is little-endian.
\<close>

section \<open>Saving\<close>

definition bytes32 :: "u32 \<Rightarrow> u8 list" where
  "bytes32 w = [ucast w, ucast (drop_bit 8 w), ucast (drop_bit 16 w), ucast (drop_bit 24 w)]"

definition u32_of :: "u8 list \<Rightarrow> u32" where
  "u32_of bs = ucast (bs ! 0) OR push_bit 8 (ucast (bs ! 1)) OR push_bit 16 (ucast (bs ! 2)) OR push_bit 24 (ucast (bs ! 3))"

definition stack_bytes :: "(nat \<Rightarrow> u16) \<Rightarrow> u8 list" where
  "stack_bytes st = bytes16 (map st [0..<STACK_SIZE])"

definition stack_of :: "u8 list \<Rightarrow> (nat \<Rightarrow> u16) \<Rightarrow> nat \<Rightarrow> u16" where
  "stack_of bs st k = (if k < STACK_SIZE then u16_of (bs ! (2 * k)) (bs ! Suc (2 * k)) else st k)"

text \<open>\<^verbatim>\<open>okay &= fwrite(\<dots>) == 1\<close>; the call is made whatever \<open>okay\<close> is, also with a null stream.\<close>

definition file_write :: "host \<Rightarrow> int \<Rightarrow> u8 list \<Rightarrow> bool zop" where
  "file_write H io bs =
     (if io = 0 then zfail (Undefined NullPointer)
      else zbind (call_host H (Fwrite io bs)) (\<lambda>r. zret (os_ret r = 1)))"

definition file_read :: "host \<Rightarrow> int \<Rightarrow> nat \<Rightarrow> (bool \<times> u8 list) zop" where
  "file_read H io n =
     (if io = 0 then zfail (Undefined NullPointer)
      else zbind (call_host H (Fread io n)) (\<lambda>r. zret (os_ret r = 1, os_data r)))"

definition opcode_save :: "host \<Rightarrow> unit zop" where
  "opcode_save H =
     zbind (zget (\<lambda>z. word_of_int (pc z))) (\<lambda>addr. zbind (zget (\<lambda>z. of_nat (sp z))) (\<lambda>k.
     zbind (call_host H (Fopen (bytes_of ''save.dat'') ''wb'')) (\<lambda>f. let io = os_ret f in
     zbind (zget (\<lambda>z. unat (staticmem_addr (header z)))) (\<lambda>n.
     zbind (read_bytes n 0) (\<lambda>mem.
     zbind (file_write H io mem) (\<lambda>ok1.
     zbind (file_write H io (bytes32 addr)) (\<lambda>ok2.
     zbind (file_write H io (bytes32 k)) (\<lambda>ok3.
     zbind (zget (\<lambda>z. stack_bytes (stack z))) (\<lambda>st.
     zbind (file_write H io st) (\<lambda>ok4.
     zbind (zget (\<lambda>z. bytes16 [bp z])) (\<lambda>b.
     zbind (file_write H io b) (\<lambda>ok5.
     zbind (call_host H (Fclose io)) (\<lambda>_.
     doBranch (ok1 \<and> ok2 \<and> ok3 \<and> ok4 \<and> ok5))))))))))))))"

text \<open>What a read leaves in a buffer.\<close>

definition overlay :: "u8 list \<Rightarrow> u8 list \<Rightarrow> u8 list" where
  "overlay d bs = d @ drop (length d) bs"

definition opcode_restore :: "host \<Rightarrow> unit zop" where
  "opcode_restore H =
     zbind (call_host H (Fopen (bytes_of ''save.dat'') ''rb'')) (\<lambda>f. let io = os_ret f in
     zbind (zget (\<lambda>z. unat (staticmem_addr (header z)))) (\<lambda>n.
     zbind (file_read H io n) (\<lambda>(ok1, mem). zbind (store_bytes 0 mem) (\<lambda>_.
     zbind (file_read H io 4) (\<lambda>(ok2, d). let x = overlay d [0, 0, 0, 0] in
     zbind (zmod (\<lambda>z. z\<lparr>logical_pc := u32_of x, pc := uint (u32_of x)\<rparr>)) (\<lambda>_.
     zbind (file_read H io 4) (\<lambda>(ok3, d). let x = overlay d x in
     zbind (zmod (\<lambda>z. z\<lparr>sp := unat (u32_of x)\<rparr>)) (\<lambda>_.
     zbind (file_read H io (2 * STACK_SIZE)) (\<lambda>(ok4, d).
     zbind (zmod (\<lambda>z. z\<lparr>stack := stack_of (overlay d (stack_bytes (stack z))) (stack z)\<rparr>)) (\<lambda>_.
     zbind (file_read H io 2) (\<lambda>(ok5, d).
     zbind (zmod (\<lambda>z. let bs = overlay d (bytes16 [bp z]) in z\<lparr>bp := u16_of (bs ! 0) (bs ! 1)\<rparr>)) (\<lambda>_.
     zbind (call_host H (Fclose io)) (\<lambda>_.
     if ok1 \<and> ok2 \<and> ok3 \<and> ok4 \<and> ok5 then doBranch True else zdie)))))))))))))"

section \<open>Small operations\<close>

text \<open>Only the core build, which reports no support for windows, is modelled; there are no hooks.\<close>

definition opcode_split_window :: "unit zop" where
  "opcode_split_window = zbind (zget (\<lambda>z. bit (flags1 (header z)) 5)) (\<lambda>w.
     if \<not> w then zdie else zbind (operand 0) (\<lambda>n. zmod (\<lambda>z. z\<lparr>upper_window_line_count := n\<rparr>)))"

definition opcode_set_window :: "unit zop" where
  "opcode_set_window = zbind (zget (\<lambda>z. bit (flags1 (header z)) 5)) (\<lambda>w.
     if \<not> w then zdie else zbind (operand 0) (\<lambda>n. zmod (\<lambda>z. z\<lparr>current_window := n\<rparr>)))"

definition checksum :: "u8 list \<Rightarrow> u32" where
  "checksum bs = foldl (\<lambda>c b. c + ucast b) 0 bs"

definition opcode_verify :: "unit zop" where
  "opcode_verify = zbind (zget (\<lambda>z. unat (hdr_story_len (header z)))) (\<lambda>total.
     zbind (read_bytes (total - 0x40) 0x40) (\<lambda>bs.
     zbind (zget (\<lambda>z. story_checksum (header z))) (\<lambda>sum.
     doBranch (ucast (checksum bs mod 0x10000) = sum))))"

definition opcode_quit :: "unit zop" where
  "opcode_quit = zmod (\<lambda>z. z\<lparr>quit := True, step_completed := True\<rparr>)"

definition opcode_nop :: "unit zop" where
  "opcode_nop = zret ()"

section \<open>The table of opcodes\<close>

definition set_ops :: "(nat \<times> opcode_entry) list \<Rightarrow> (nat \<Rightarrow> opcode_entry) \<Rightarrow> nat \<Rightarrow> opcode_entry" where
  "set_ops ops t = foldl (\<lambda>t (k, e). t(k := e)) t ops"

text \<open>\<^verbatim>\<open>OPCODE_WRITEME\<close> sets the name only: an entry that had a function keeps it.\<close>

definition write_me :: "nat list \<Rightarrow> (nat \<Rightarrow> opcode_entry) \<Rightarrow> nat \<Rightarrow> opcode_entry" where
  "write_me ks t = foldl (\<lambda>t k. t(k := (case t k of Unknown \<Rightarrow> Unimplemented | e \<Rightarrow> e))) t ks"

definition base_ops :: "(nat \<times> opcode_entry) list" where
  "base_ops = map (\<lambda>(k, f). (k, Implemented f))
    [(1, Op_je), (2, Op_jl), (3, Op_jg), (4, Op_dec_chk), (5, Op_inc_chk), (6, Op_jin), (7, Op_test), (8, Op_or),
     (9, Op_and), (10, Op_test_attr), (11, Op_set_attr), (12, Op_clear_attr), (13, Op_store), (14, Op_insert_obj),
     (15, Op_loadw), (16, Op_loadb), (17, Op_get_prop), (18, Op_get_prop_addr), (19, Op_get_next_prop), (20, Op_add),
     (21, Op_sub), (22, Op_mul), (23, Op_div), (24, Op_mod),
     (128, Op_jz), (129, Op_get_sibling), (130, Op_get_child), (131, Op_get_parent), (132, Op_get_prop_len),
     (133, Op_inc), (134, Op_dec), (135, Op_print_addr), (137, Op_remove_obj), (138, Op_print_obj), (139, Op_ret),
     (140, Op_jump), (141, Op_print_paddr), (142, Op_load), (143, Op_not),
     (176, Op_rtrue), (177, Op_rfalse), (178, Op_print), (179, Op_print_ret), (180, Op_nop), (181, Op_save),
     (182, Op_restore), (183, Op_restart), (184, Op_ret_popped), (185, Op_pop), (186, Op_quit), (187, Op_new_line),
     (224, Op_call), (225, Op_storew), (226, Op_storeb), (227, Op_put_prop), (228, Op_read), (229, Op_print_char),
     (230, Op_print_num), (231, Op_random), (232, Op_push), (233, Op_pull)]"

definition v3_ops :: "(nat \<times> opcode_entry) list" where
  "v3_ops = [(188, Implemented Op_show_status), (189, Implemented Op_verify), (234, Implemented Op_split_window),
     (235, Implemented Op_set_window)]"

definition v4_names :: "nat list" where
  "v4_names = [25, 180, 224, 228, 236, 237, 238, 239, 240, 241, 242, 246, 247]"

definition v5_names :: "nat list" where
  "v5_names = [26, 27, 28, 136, 143, 185, 191, 228, 243, 245, 248, 249, 250, 251, 252, 253, 254, 255]"

definition v5_ext_names :: "nat list" where
  "v5_ext_names = [0, 1, 2, 3, 4, 9, 10, 11, 12, 13]"

definition v6_names :: "nat list" where
  "v6_names = [27, 27, 185, 233, 238, 239, 243, 248]"

definition v6_ext_names :: "nat list" where
  "v6_ext_names = [4, 5, 6, 7, 8, 13, 16, 17, 18, 19, 20, 21, 22, 23, 24, 25, 26, 27, 28, 29]"

definition inititialOpcodeTableSetup :: "zmachine \<Rightarrow> zmachine" where
  "inititialOpcodeTableSetup z =
     (let v = version (header z);
          t1 = set_ops base_ops (\<lambda>_. Unknown);
          t3 = write_me [243, 244, 245] (set_ops v3_ops t1);
          t4 = write_me v4_names (t3(188 := Implemented Op_nop));
          t5 = (write_me v5_names t4)(180 := Unknown, 181 := Unknown, 190 := Unimplemented);
          x5 = write_me v5_ext_names (\<lambda>_. Unknown)
      in if v < 3 then z\<lparr>opcodes := t1, extended_opcodes := (\<lambda>_. Unknown)\<rparr>
         else if v < 4 then z\<lparr>opcodes := t3, extended_opcodes := (\<lambda>_. Unknown)\<rparr>
         else if v < 5 then z\<lparr>opcodes := t4, extended_opcodes := (\<lambda>_. Unknown)\<rparr>
         else if v < 6 then z\<lparr>opcodes := t5, extended_opcodes := x5\<rparr>
         else z\<lparr>opcodes := write_me v6_names t5, extended_opcodes := write_me v6_ext_names x5\<rparr>)"

definition initOpcodeTable :: "zmachine \<Rightarrow> zmachine" where
  "initOpcodeTable z =
     (let z = inititialOpcodeTableSetup z; t = opcodes z
      in z\<lparr>opcodes := (\<lambda>k. if 32 \<le> k \<and> k \<le> 127 then t (k mod 32)
           else if 144 \<le> k \<and> k \<le> 175 then t (128 + k mod 16)
           else if 192 \<le> k \<and> k \<le> 223 then t (k mod 32) else t k)\<rparr>)"

section \<open>Loading a story\<close>

definition read_header :: "zheader zop" where
  "read_header =
     zbind (ld_byte 0) (\<lambda>ver. zbind (ld_byte 1) (\<lambda>f1. zbind (READUI16 2) (\<lambda>rel. zbind (READUI16 4) (\<lambda>hi.
     zbind (READUI16 6) (\<lambda>start. zbind (READUI16 8) (\<lambda>dict. zbind (READUI16 10) (\<lambda>objtab. zbind (READUI16 12) (\<lambda>glob.
     zbind (READUI16 14) (\<lambda>static. zbind (READUI16 16) (\<lambda>f2. zbind (read_bytes 6 18) (\<lambda>serial. zbind (READUI16 24) (\<lambda>abbr.
     zbind (READUI16 26) (\<lambda>len. zbind (READUI16 28) (\<lambda>sum.
     zret \<lparr>version = ver, flags1 = f1, release = rel, himem_addr = hi, pc_start = start, dict_addr = dict,
       objtab_addr = objtab, globals_addr = glob, staticmem_addr = static, flags2 = f2, serial_code = serial @ [0],
       abbrtab_addr = abbr, hdr_story_len = len, story_checksum = sum\<rparr>))))))))))))))"

definition initStory :: "u8 list option \<Rightarrow> u8 list \<Rightarrow> unit zop" where
  "initStory fname data =
     zbind (zmod (\<lambda>z. z\<lparr>story_filename := fname, story := (\<lambda>a. if 0 \<le> a \<and> nat a < length data then data ! nat a else 0),
       story_len := length data, instructions_run := 0, pc := 0, logical_pc := 0, quit := False,
       stack := (\<lambda>_. 0), operands := replicate 8 0, operand_count := 0, sp := 0, bp := 0\<rparr>)) (\<lambda>_.
     zbind (ld_byte 1) (\<lambda>f1. zbind (st_byte 1 (f1 OR 0x10)) (\<lambda>_.
     zbind read_header (\<lambda>h.
     zbind (zmod (\<lambda>z. z\<lparr>header := h\<rparr>)) (\<lambda>_.
     if version h \<noteq> 3 then zdie
     else zmod (\<lambda>z. (initOpcodeTable (initAlphabetTable z))
       \<lparr>pc := uint (pc_start h), logical_pc := ucast (pc_start h), bp := 0, sp := 0\<rparr>))))))"

definition loadStory :: "host \<Rightarrow> u8 list option \<Rightarrow> unit zop" where
  "loadStory H fname =
     (case fname of None \<Rightarrow> zdie
      | Some name \<Rightarrow>
     zbind (call_host H (Fopen name ''rb'')) (\<lambda>io. if os_ret io = 0 then zdie else
     zbind (call_host H (Fseek (os_ret io) 2)) (\<lambda>e. if os_ret e = -1 then zdie else
     zbind (call_host H (Ftell (os_ret io))) (\<lambda>len. if os_ret len = -1 then zdie else
     zbind (call_host H (Malloc (os_ret len))) (\<lambda>p. if os_ret p = 0 then zdie else
     zbind (call_host H (Fseek (os_ret io) 0)) (\<lambda>e. if os_ret e = -1 then zdie else
     zbind (call_host H (Fread (os_ret io) (nat (os_ret len)))) (\<lambda>r. if os_ret r \<noteq> 1 then zdie else
     zbind (call_host H (Fclose (os_ret io))) (\<lambda>_.
     initStory fname (os_data r)))))))))"

definition opcode_restart :: "host \<Rightarrow> unit zop" where
  "opcode_restart H = zbind (zget story_filename) (loadStory H)"

section \<open>What was saved comes back\<close>

definition calls :: "host \<Rightarrow> event list \<Rightarrow> zmachine \<Rightarrow> zmachine" where
  "calls H es z = foldl (\<lambda>z e. snd (syscall H e z)) z es"

lemma calls_simps [simp]: "calls H [] z = z" "calls H (e # es) z = calls H es (snd (syscall H e z))"
  by (simp_all add: calls_def)

lemma syscall_frame [simp]:
  "story (snd (syscall H e z)) = story z" "story_len (snd (syscall H e z)) = story_len z"
  "header (snd (syscall H e z)) = header z" "pc (snd (syscall H e z)) = pc z" "sp (snd (syscall H e z)) = sp z"
  "bp (snd (syscall H e z)) = bp z" "stack (snd (syscall H e z)) = stack z" "operands (snd (syscall H e z)) = operands z"
  "in_story (snd (syscall H e z)) a = in_story z a"
  by (simp_all add: syscall_def emit_def in_story_def Let_def)

lemma syscall_commutes [simp]:
  "snd (syscall H e (z\<lparr>story := m\<rparr>)) = (snd (syscall H e z))\<lparr>story := m\<rparr>"
  "snd (syscall H e (z\<lparr>pc := p\<rparr>)) = (snd (syscall H e z))\<lparr>pc := p\<rparr>"
  "snd (syscall H e (z\<lparr>logical_pc := l\<rparr>)) = (snd (syscall H e z))\<lparr>logical_pc := l\<rparr>"
  "snd (syscall H e (z\<lparr>sp := k\<rparr>)) = (snd (syscall H e z))\<lparr>sp := k\<rparr>"
  "snd (syscall H e (z\<lparr>bp := b\<rparr>)) = (snd (syscall H e z))\<lparr>bp := b\<rparr>"
  "snd (syscall H e (z\<lparr>stack := st\<rparr>)) = (snd (syscall H e z))\<lparr>stack := st\<rparr>"
  by (rule zmachine.equality; simp add: syscall_def emit_def Let_def split: option.split)+

text \<open>The five pieces of the file.\<close>

definition saved_image :: "zmachine \<Rightarrow> u8 list list" where
  "saved_image z = [map (\<lambda>i. story z (int i)) [0..<unat (staticmem_addr (header z))],
     bytes32 (word_of_int (pc z)), bytes32 (of_nat (sp z)), stack_bytes (stack z), bytes16 [bp z]]"

fun accepts :: "host \<Rightarrow> event list \<Rightarrow> int \<Rightarrow> u8 list list \<Rightarrow> bool" where
  "accepts H tr io [] \<longleftrightarrow> True"
| "accepts H tr io (d # ds) \<longleftrightarrow> os_ret (os_call H tr (Fwrite io d)) = 1 \<and> accepts H (Fwrite io d # tr) io ds"

fun serves_file :: "host \<Rightarrow> event list \<Rightarrow> int \<Rightarrow> u8 list list \<Rightarrow> bool" where
  "serves_file H tr io [] \<longleftrightarrow> True"
| "serves_file H tr io (d # ds) \<longleftrightarrow> os_ret (os_call H tr (Fread io (length d))) = 1 \<and>
     os_data (os_call H tr (Fread io (length d))) = d \<and> serves_file H (Fread io (length d) # tr) io ds"

lemma read_bytes_ok:
  "(\<And>i. i < n \<Longrightarrow> in_story z (a + int i)) \<Longrightarrow> read_bytes n a z = Inr (map (\<lambda>i. story z (a + int i)) [0..<n], z)"
proof (induction n arbitrary: a)
  case (Suc n)
  have "in_story z a"
    using Suc.prems [of 0] by simp
  moreover have "read_bytes n (a + 1) z = Inr (map (\<lambda>i. story z (a + 1 + int i)) [0..<n], z)"
    using Suc.prems [of "Suc i" for i] by (intro Suc.IH) (simp add: algebra_simps)
  ultimately show ?case
    by (simp add: zop_simps map_upt_Suc algebra_simps del: upt_Suc)
qed (simp add: zop_simps)

lemma store_bytes_ok:
  "(\<And>i. i < length bs \<Longrightarrow> in_story z (a + int i)) \<Longrightarrow>
     store_bytes a bs z = Inr ((), z\<lparr>story := (\<lambda>b. if a \<le> b \<and> b < a + int (length bs) then bs ! nat (b - a) else story z b)\<rparr>)"
proof (induction bs arbitrary: a z)
  case (Cons b bs)
  have 1: "in_story z a"
    using Cons.prems [of 0] by simp
  have 2: "in_story (z\<lparr>story := (story z)(a := b)\<rparr>) (a + 1 + int i)" if "i < length bs" for i
    using Cons.prems [of "Suc i"] that by (simp add: algebra_simps)
  have "nat (c - a) = Suc (nat (c - (a + 1)))" if "a + 1 \<le> c" for c
    using that by simp
  then show ?case
    by (simp add: zop_simps 1 Cons.IH [OF 2]) (auto simp: fun_eq_iff)
next
  case Nil
  have "(\<lambda>b. if a \<le> b \<and> b < a then [] ! nat (b - a) else story z b) = story z"
    by (rule ext) auto
  then show ?case
    by (simp add: zop_simps)
qed

lemma u32_of_bytes32 [simp]: "u32_of (bytes32 w) = w"
proof (rule bit_word_eqI)
  fix n assume "n < LENGTH(32)"
  then consider "n < 8" | "8 \<le> n" "n < 16" | "16 \<le> n" "n < 24" | "24 \<le> n" "n < 32"
    by fastforce
  then show "bit (u32_of (bytes32 w)) n = bit w n"
    unfolding u32_of_def bytes32_def by cases (auto simp: bit_simps nth_Cons' dest: bit_imp_le_length)
qed

lemma lengths [simp]: "length (bytes32 w) = 4" "length (stack_bytes st) = 2 * STACK_SIZE" "length (bytes16 [b]) = 2"
  using length_bytes16 [of "map st [0..<STACK_SIZE]"] by (simp_all add: bytes32_def stack_bytes_def bytes16_def)

lemma stack_of_bytes: "stack_of (stack_bytes st) st2 = (\<lambda>k. if k < STACK_SIZE then st k else st2 k)"
proof
  fix k show "stack_of (stack_bytes st) st2 k = (if k < STACK_SIZE then st k else st2 k)"
    using bytes16_nth [of k "map st [0..<STACK_SIZE]"] by (simp add: stack_of_def stack_bytes_def)
qed

lemma overlay_all [simp]: "length d = length bs \<Longrightarrow> overlay d bs = d"
  by (simp add: overlay_def)

lemma file_write_ok [zop_simps]:
  "io \<noteq> 0 \<Longrightarrow> file_write H io d z = Inr (os_ret (os_call H (trace z) (Fwrite io d)) = 1, snd (syscall H (Fwrite io d) z))"
  by (simp add: file_write_def zop_simps)

lemma file_read_ok [zop_simps]:
  "io \<noteq> 0 \<Longrightarrow> file_read H io n z = Inr ((os_ret (os_call H (trace z) (Fread io n)) = 1, os_data (os_call H (trace z) (Fread io n))),
     snd (syscall H (Fread io n) z))"
  by (simp add: file_read_def zop_simps)

text \<open>The machine that restoring the state of \<open>z\<close> makes of \<open>z2\<close>.\<close>

definition brought_back :: "zmachine \<Rightarrow> zmachine \<Rightarrow> zmachine" where
  "brought_back z z2 = z2\<lparr>
     story := (\<lambda>a. if 0 \<le> a \<and> a < uint (staticmem_addr (header z)) then story z a else story z2 a),
     logical_pc := word_of_int (pc z), pc := pc z, sp := sp z,
     stack := (\<lambda>k. if k < STACK_SIZE then stack z k else stack z2 k), bp := bp z\<rparr>"

lemma calls_frame [simp]: "story (calls H es z) = story z" "stack (calls H es z) = stack z"
  by (induction es arbitrary: z) simp_all

lemma bytes16_single [simp]: "bytes16 [b] ! 0 = lo8 b" "bytes16 [b] ! Suc 0 = hi8 b"
  by (simp_all add: bytes16_def)

definition read_sizes :: "zmachine \<Rightarrow> nat list" where
  "read_sizes z = [unat (staticmem_addr (header z)), 4, 4, 2 * STACK_SIZE, 2]"

text \<open>C20. Saving writes the dynamic memory, the program counter, the stack pointer, the stack and the base
  pointer to the file, and branches on true where every write succeeded. Restoring the same file,
  whatever the machine has done since, brings all of them back, leaves the static memory alone, and
  goes on at the branch of the save with true.\<close>

theorem save_restore:
  assumes sizes: "staticmem_addr (header z2) = staticmem_addr (header z)"
      "uint (staticmem_addr (header z)) \<le> int (story_len z)" "uint (staticmem_addr (header z)) \<le> int (story_len z2)"
      "0 \<le> pc z" "pc z < 2 ^ 32" "sp z \<le> STACK_SIZE"
    and w: "w = Fopen (bytes_of ''save.dat'') ''wb''" "io = os_ret (os_call H (trace z) w)" "io \<noteq> 0"
      "accepts H (w # trace z) io (saved_image z)"
    and r: "r = Fopen (bytes_of ''save.dat'') ''rb''" "io2 = os_ret (os_call H (trace z2) r)" "io2 \<noteq> 0"
      "serves_file H (r # trace z2) io2 (saved_image z)"
  shows "opcode_save H z = doBranch True (calls H ([w] @ map (Fwrite io) (saved_image z) @ [Fclose io]) z) \<and>
    opcode_restore H z2 =
      doBranch True (brought_back z (calls H ([r] @ map (Fread io2) (read_sizes z) @ [Fclose io2]) z2))"
proof -
  let ?n = "unat (staticmem_addr (header z))"
  have n: "int ?n = uint (staticmem_addr (header z))"
    by simp
  have mem: "read_bytes ?n 0 y = Inr (map (\<lambda>i. story z (int i)) [0..<?n], y)" if "story y = story z" "story_len y = story_len z" for y
    using read_bytes_ok [of ?n y 0] that sizes(2) n by (simp add: in_story_def)
  have k: "unat (of_nat (sp z) :: u32) = sp z"
    using sizes(6) unfolding unsigned_of_nat STACK_SIZE_def by (simp add: take_bit_nat_eq_self)
  have p: "uint (word_of_int (pc z) :: u32) = pc z"
    using sizes(4,5) unfolding uint_word_of_int by (subst mod_pos_pos_trivial) simp_all
  have "opcode_save H z = doBranch True (calls H ([w] @ map (Fwrite io) (saved_image z) @ [Fclose io]) z)"
    using w(3,4) unfolding opcode_save_def w(1,2)
    by (simp add: zop_simps mem saved_image_def Let_def)
  moreover have "opcode_restore H z2 =
      doBranch True (brought_back z (calls H ([r] @ map (Fread io2) (read_sizes z) @ [Fclose io2]) z2))"
  proof -
    have n2: "?n \<le> story_len z2"
      using sizes(3) n by linarith
    define m where "m = map (\<lambda>i. story z (int i)) [0..<?n]"
    define f where "f st = (\<lambda>a. if 0 \<le> a \<and> a < uint (staticmem_addr (header z)) then story z a else st a)" for st
    have sb: "store_bytes 0 m y = Inr ((), y\<lparr>story := f (story y)\<rparr>)" if "story_len y = story_len z2" for y
    proof -
      have "store_bytes 0 m y = Inr ((), y\<lparr>story := (\<lambda>b. if 0 \<le> b \<and> b < 0 + int (length m) then m ! nat (b - 0) else story y b)\<rparr>)"
        using that n2 by (intro store_bytes_ok) (simp add: in_story_def m_def)
      moreover have "(\<lambda>b. if 0 \<le> b \<and> b < 0 + int (length m) then m ! nat (b - 0) else story y b) = f (story y)"
        using n by (auto simp: fun_eq_iff f_def m_def nat_less_unat)
      ultimately show ?thesis
        by simp
    qed
    have len: "length m = ?n"
      by (simp add: m_def)
    have io: "os_ret (os_call H (trace z2) (Fopen (bytes_of ''save.dat'') ''rb'')) = io2"
      using r(1,2) by simp
    have "serves_file H (r # trace z2) io2 [m, bytes32 (word_of_int (pc z)), bytes32 (of_nat (sp z)), stack_bytes (stack z), bytes16 [bp z]]"
      using r(4) by (simp add: saved_image_def m_def)
    then show ?thesis
      using r(3) unfolding opcode_restore_def r(1) brought_back_def f_def [symmetric] calls_frame
      by (simp add: zop_simps sb io len sizes(1) read_sizes_def Let_def stack_of_bytes k p cong: if_cong)
  qed
  ultimately show ?thesis ..
qed

text \<open>A host that keeps one file: what was written is read back in the same order.\<close>

definition save_host :: "u8 list list \<Rightarrow> host" where
  "save_host ds = null_host\<lparr>os_call := (\<lambda>tr e. case e of
     Fread io n \<Rightarrow> \<lparr>os_ret = 1, os_errno = None, os_data = ds ! (length tr - 1)\<rparr>
   | _ \<Rightarrow> \<lparr>os_ret = 1, os_errno = None, os_data = []\<rparr>)\<rparr>"

definition saving :: zmachine where
  "saving = (sample_machine (\<lambda>a. if a = 5 then 7 else if a = 256 then 0xCA else 0) [])
     \<lparr>header := sample_header\<lparr>staticmem_addr := 8\<rparr>, sp := 1, stack := (\<lambda>k. 0)(0 := 9)\<rparr>"

definition later :: zmachine where
  "later = saving\<lparr>story := (\<lambda>a. 3), pc := 700, sp := 0, stack := (\<lambda>k. 1)\<rparr>"

lemma save_restore_witness:
  "opcode_restore (save_host (saved_image saving)) later =
     doBranch True (brought_back saving (calls (save_host (saved_image saving))
       ([Fopen (bytes_of ''save.dat'') ''rb''] @ map (Fread 1) (read_sizes saving) @ [Fclose 1]) later))"
proof -
  let ?H = "save_host (saved_image saving)" and ?w = "Fopen (bytes_of ''save.dat'') ''wb''"
    and ?r = "Fopen (bytes_of ''save.dat'') ''rb''"
  have h: "trace saving = []" "trace later = []" "header later = header saving"
    by (simp_all add: saving_def later_def sample_machine_def)
  have io: "os_ret (os_call ?H tr ?w) = 1" "os_ret (os_call ?H tr ?r) = 1" for tr
    by (simp_all add: save_host_def)
  have a: "accepts ?H tr 1 ds" for ds tr
    by (induction ds arbitrary: tr) (simp_all add: save_host_def)
  have s: "serves_file ?H [?r] 1 (saved_image saving)"
    by (simp add: save_host_def saved_image_def numeral_nat)
  have b: "uint (staticmem_addr (header saving)) \<le> int (story_len saving)" "story_len later = story_len saving"
    "0 \<le> pc saving" "pc saving < 2 ^ 32" "sp saving \<le> STACK_SIZE"
    by (simp_all add: saving_def later_def sample_machine_def STACK_SIZE_def)
  show ?thesis
    using save_restore [of later saving ?w 1 ?H ?r 1] a io s b h by simp
qed

end
