(* ===== verification/ZDecode.thy ===== *)
theory ZDecode
  imports ZText
begin

text \<open>
  What packed text says: a reference reading of a string as one list of 5-bit characters, and
  that the streaming decoder with its bounded buffer and the printing around it agree with it.
\<close>

section \<open>The reference\<close>

definition zchars :: "u16 \<Rightarrow> nat list" where
  "zchars w = [zchar w 10, zchar w 5, zchar w 0]"

text \<open>The words of a string, the last one marked by its top bit.\<close>

function string_words :: "zmachine \<Rightarrow> int \<Rightarrow> u16 list option" where
  "string_words z str =
     (if \<not> in_story z str \<or> \<not> in_story z (str + 1) then None
      else let w = get_word (story z) str
           in if bit w 15 then Some [w] else map_option (Cons w) (string_words z (str + 2)))"
  by pat_completeness auto
termination
  by (relation "measure (\<lambda>(z, str). nat (int (story_len z) - str))") (auto simp: in_story_def)

declare string_words.simps [simp del]

definition output_char :: "nat \<Rightarrow> u8 list" where
  "output_char c = (if c = 0 then [] else if c = 13 then [10] else if 32 \<le> c \<and> c \<le> 126 then [of_nat c] else [63])"

definition table_char :: "u8 list \<Rightarrow> nat \<Rightarrow> nat \<Rightarrow> u8 list" where
  "table_char tab sh c = (let x = tab ! (sh * 26 + (c - 6)) in if x = 0 then [] else [x])"

definition append_text :: "u8 list option \<Rightarrow> u8 list option \<Rightarrow> u8 list option" where
  "append_text a b = (case a of None \<Rightarrow> None | Some x \<Rightarrow> map_option (\<lambda>y. x @ y) b)"

fun zscii_text :: "u8 list \<Rightarrow> (nat \<Rightarrow> u8 list option) \<Rightarrow> nat \<Rightarrow> nat list \<Rightarrow> u8 list option" where
  "zscii_text tab sub sh [] = Some []"
| "zscii_text tab sub sh (c # cs) =
     (if c = 0 then append_text (Some [32]) (zscii_text tab sub 0 cs)
      else if c \<le> 3 then
        (case cs of [] \<Rightarrow> Some [] | k # r \<Rightarrow> append_text (sub (32 * (c - 1) + k)) (zscii_text tab sub 0 r))
      else if c \<le> 5 then zscii_text tab sub (c - 3) cs
      else if c = 6 \<and> sh = 2 then
        (case cs of [] \<Rightarrow> Some [] | hi # r \<Rightarrow>
          (case r of [] \<Rightarrow> Some [] | lo # r \<Rightarrow>
            append_text (Some (output_char (32 * hi + lo))) (zscii_text tab sub 0 r)))
      else append_text (Some (table_char tab sh c)) (zscii_text tab sub 0 cs))"

definition abbr_text :: "zmachine \<Rightarrow> nat \<Rightarrow> u8 list option" where
  "abbr_text z k =
     (let ptr = uint (abbrtab_addr (header z)) + int k * 2
      in if in_story z ptr \<and> in_story z (ptr + 1)
         then Option.bind (string_words z (uint (get_word (story z) ptr) * 2))
                (\<lambda>ws. zscii_text (alphabet_table z) (\<lambda>_. None) 0 (concat (map zchars ws)))
         else None)"

text \<open>The text at an address and the number of bytes it takes.\<close>

definition text_at :: "zmachine \<Rightarrow> int \<Rightarrow> (u8 list \<times> int) option" where
  "text_at z str = Option.bind (string_words z str) (\<lambda>ws.
     map_option (\<lambda>t. (t, 2 * int (length ws))) (zscii_text (alphabet_table z) (abbr_text z) 0 (concat (map zchars ws))))"

section \<open>One character\<close>

text \<open>What is still to come from a state of the decoder.\<close>

definition rest :: "u8 list \<Rightarrow> (nat \<Rightarrow> u8 list option) \<Rightarrow> decoder \<Rightarrow> nat list \<Rightarrow> u8 list option" where
  "rest tab sub t cs =
     (if zscii_collector t = 2 then zscii_text tab sub 2 (6 # cs)
      else if zscii_collector t = 1 then
        (case cs of [] \<Rightarrow> Some [] | lo # r \<Rightarrow>
           append_text (Some (output_char (unat (zscii_code t) + lo))) (zscii_text tab sub 0 r))
      else if useAbbrTable t \<noteq> 0 then zscii_text tab sub 0 (useAbbrTable t # cs)
      else zscii_text tab sub (alphabet t) cs)"

definition sound :: "decoder \<Rightarrow> bool" where
  "sound t \<longleftrightarrow> zscii_collector t \<le> 2 \<and> useAbbrTable t \<le> 3 \<and> alphabet t \<le> 2 \<and>
     (zscii_collector t \<noteq> 1 \<longrightarrow> zscii_code t = 0) \<and>
     (zscii_collector t = 1 \<longrightarrow> (\<exists>hi < 32. zscii_code t = push_bit 5 (of_nat hi)))"

text \<open>The decoder has put out more text: as much of it as fits, and counted all of it.\<close>

definition puts_out :: "u8 list \<Rightarrow> decoder \<Rightarrow> decoder \<Rightarrow> bool" where
  "puts_out out t t' \<longleftrightarrow> written t' = written t @ take (room t) out \<and> room t' = room t - length out \<and>
     decoded_chars t' = decoded_chars t + length out"

lemma puts_out_trans: "puts_out a t t1 \<Longrightarrow> puts_out b t1 t2 \<Longrightarrow> puts_out (a @ b) t t2"
  by (auto simp: puts_out_def)

lemma put_char_out: "puts_out (if c = 0 then [] else [c]) t (put_char c t)"
  by (auto simp: puts_out_def put_char_def)

lemma put_char_state [simp]:
  "alphabet (put_char c t) = alphabet t" "useAbbrTable (put_char c t) = useAbbrTable t"
  "zscii_collector (put_char c t) = zscii_collector t" "zscii_code (put_char c t) = zscii_code t"
  by (simp_all add: put_char_def)

lemma puts_out_state [simp]:
  "puts_out out t (t'\<lparr>alphabet := a\<rparr>) = puts_out out t t'" "puts_out out t (t'\<lparr>useAbbrTable := u\<rparr>) = puts_out out t t'"
  "puts_out out t (t'\<lparr>zscii_collector := c\<rparr>) = puts_out out t t'" "puts_out out t (t'\<lparr>zscii_code := d\<rparr>) = puts_out out t t'"
  "puts_out out (t\<lparr>zscii_collector := c\<rparr>) t' = puts_out out t t'" "puts_out out (t\<lparr>zscii_code := d\<rparr>) t' = puts_out out t t'"
  "puts_out [] t t"
  by (simp_all add: puts_out_def)

lemma code_sum:
  assumes "hi < 32" "lo < 32"
  shows "unat (push_bit 5 (of_nat hi) OR of_nat lo :: u16) = 32 * hi + lo"
    "unat (push_bit 5 (of_nat hi) :: u16) = 32 * hi"
proof -
  have u: "unat (push_bit 5 (of_nat hi) :: u16) = 32 * hi" "unat (of_nat lo :: u16) = lo"
    using assms by (simp_all add: push_bit_eq_mult unat_word_ariths unsigned_of_nat take_bit_nat_eq_self)
  then show "unat (push_bit 5 (of_nat hi) :: u16) = 32 * hi" by simp
  have "push_bit 5 hi AND take_bit 5 lo = 0"
    by (rule bit_eqI) (auto simp: bit_simps)
  then have "push_bit 5 hi AND lo = 0"
    using assms(2) by (simp add: take_bit_nat_eq_self)
  then have "push_bit 5 hi OR lo = push_bit 5 hi + lo"
    by (rule disjunctive_add_eq_or [symmetric])
  then show "unat (push_bit 5 (of_nat hi) OR of_nat lo :: u16) = 32 * hi + lo"
    using u by (simp only: unsigned_or_eq) (simp add: push_bit_eq_mult mult.commute)
qed

lemma decode_zscii_char_nat:
  "c < 65536 \<Longrightarrow> unat (w :: u16) = c \<Longrightarrow>
     (if decode_zscii_char w = 0 then [] else [decode_zscii_char w]) = output_char c"
proof -
  assume w: "unat w = c"
  have u: "ucast w = (of_nat c :: u8)"
    unfolding w [symmetric] by simp
  have "32 \<le> w \<and> w \<le> 126 \<longleftrightarrow> 32 \<le> c \<and> c \<le> 126" "w = 13 \<longleftrightarrow> c = 13" "w = 0 \<longleftrightarrow> c = 0"
    using w by (simp_all add: word_le_nat_alt word_unat_eq_iff)
  moreover have "(of_nat c :: u8) \<noteq> 0" if "32 \<le> c" "c \<le> 126"
    using that by (simp add: word_unat_eq_iff unsigned_of_nat take_bit_nat_eq_self)
  ultimately show ?thesis
    unfolding decode_zscii_char_def output_char_def using u by auto
qed

lemma append_text_Some: "append_text a b = Some txt \<longleftrightarrow> (\<exists>x y. a = Some x \<and> b = Some y \<and> txt = x @ y)"
  by (auto simp: append_text_def split: option.splits)

text \<open>What the decoder needs of the function for abbreviations.\<close>

definition expands :: "zmachine \<Rightarrow> (int \<Rightarrow> nat \<Rightarrow> (u8 list \<times> nat) run) option \<Rightarrow> (nat \<Rightarrow> u8 list option) \<Rightarrow> bool" where
  "expands z sub spec \<longleftrightarrow> (\<forall>k txt. spec k = Some txt \<longrightarrow>
     (\<exists>dec. sub = Some dec \<and>
       (let ptr = uint (abbrtab_addr (header z)) + int k * 2
        in in_story z ptr \<and> in_story z (ptr + 1) \<and>
           (\<forall>n. dec (uint (get_word (story z) ptr) * 2) n = Inr (take n txt, length txt)))))"

definition advances :: "u8 list \<Rightarrow> (nat \<Rightarrow> u8 list option) \<Rightarrow> decoder \<Rightarrow> nat list \<Rightarrow> u8 list \<Rightarrow> decoder \<Rightarrow> bool" where
  "advances tab spec t cs txt t' \<longleftrightarrow> (\<exists>a b. txt = a @ b \<and> puts_out a t t' \<and> sound t' \<and> rest tab spec t' cs = Some b)"

lemma advancesI:
  "puts_out a t t' \<Longrightarrow> sound t' \<Longrightarrow> rest tab spec t' cs = Some b \<Longrightarrow> txt = a @ b \<Longrightarrow> advances tab spec t cs txt t'"
  by (auto simp: advances_def)

lemma step_code:
  assumes z: "sound t" "zscii_collector t \<noteq> 0" and c: "c < 32" and r: "rest tab spec t (c # cs) = Some txt"
  shows "\<exists>t'. decode_char z sub c t = Inr t' \<and> advances tab spec t cs txt t'"
proof -
  consider "zscii_collector t = 2" | "zscii_collector t = 1"
    using z by (force simp: sound_def)
  then show ?thesis
  proof cases
    case 1
    let ?t = "t\<lparr>zscii_code := push_bit 5 (of_nat c), zscii_collector := 1\<rparr>"
    have "zscii_code t = 0"
      using z 1 by (simp add: sound_def)
    then have "decode_char z sub c t = Inr ?t"
      using 1 by (simp add: decode_char_def Let_def)
    moreover have "sound ?t"
      using z c by (auto simp: sound_def)
    moreover have "rest tab spec ?t cs = Some txt"
      using r 1 code_sum(2) [OF c c] by (auto simp: rest_def split: list.splits)
    ultimately show ?thesis
      by (auto intro!: advancesI [of "[]"])
  next
    case 2
    then obtain hi where hi: "hi < 32" "zscii_code t = push_bit 5 (of_nat hi)"
      using z by (auto simp: sound_def)
    let ?w = "push_bit 5 (of_nat hi) OR of_nat c :: u16"
    let ?t = "(put_char (decode_zscii_char ?w) (t\<lparr>zscii_code := ?w, zscii_collector := 0\<rparr>))
        \<lparr>alphabet := 0, useAbbrTable := 0, zscii_code := 0\<rparr>"
    have w: "unat ?w = 32 * hi + c"
      by (rule code_sum(1) [OF hi(1) c])
    have o: "(if decode_zscii_char ?w = 0 then [] else [decode_zscii_char ?w]) = output_char (32 * hi + c)"
      by (rule decode_zscii_char_nat [OF _ w]) (use hi c in simp)
    obtain b where b: "txt = output_char (32 * hi + c) @ b" "zscii_text tab spec 0 cs = Some b"
      using r 2 hi(2) code_sum(2) [OF hi(1) c] by (auto simp: rest_def append_text_Some)
    have "decode_char z sub c t = Inr ?t"
      using 2 hi(2) by (simp add: decode_char_def Let_def)
    moreover have "puts_out (output_char (32 * hi + c)) t ?t"
      using put_char_out [of "decode_zscii_char ?w" "t\<lparr>zscii_code := ?w, zscii_collector := 0\<rparr>"] o by simp
    moreover have "sound ?t" "rest tab spec ?t cs = Some b"
      using b(2) by (simp_all add: sound_def rest_def)
    ultimately show ?thesis
      using b(1) by (auto intro!: advancesI)
  qed
qed

lemma step_abbreviation:
  assumes z: "sound t" "zscii_collector t = 0" "useAbbrTable t \<noteq> 0" and e: "expands z sub spec"
    and r: "rest tab spec t (c # cs) = Some txt"
  shows "\<exists>t'. decode_char z sub c t = Inr t' \<and> advances tab spec t cs txt t'"
proof -
  have u: "useAbbrTable t \<le> 3"
    using z(1) by (simp add: sound_def)
  let ?k = "32 * (useAbbrTable t - 1) + c"
  obtain a b where ab: "spec ?k = Some a" "zscii_text tab spec 0 cs = Some b" "txt = a @ b"
    using r z u by (auto simp: rest_def append_text_Some)
  let ?p = "uint (abbrtab_addr (header z)) + int ?k * 2"
  obtain dec where d: "sub = Some dec" "in_story z ?p" "in_story z (?p + 1)"
    "dec (uint (get_word (story z) ?p) * 2) (room t) = Inr (take (room t) a, length a)"
    using e [unfolded expands_def Let_def, rule_format, OF ab(1)] by blast
  let ?t = "t\<lparr>decoded_chars := decoded_chars t + length a, written := written t @ take (room t) a,
      room := room t - length (take (room t) a), useAbbrTable := 0, alphabet := 0\<rparr>"
  have "decode_char z sub c t = Inr ?t"
    using z d by (simp add: decode_char_def expand_abbreviation_def Let_def)
  moreover have "puts_out a t ?t"
    by (simp add: puts_out_def)
  moreover have "sound ?t" "rest tab spec ?t cs = Some b"
    using z ab(2) by (simp_all add: sound_def rest_def)
  ultimately show ?thesis
    using ab(3) by (auto intro!: advancesI)
qed

lemma step_plain:
  assumes z: "sound t" "zscii_collector t = 0" "useAbbrTable t = 0" "2 < version (header z)"
    and r: "rest (alphabet_table z) spec t (c # cs) = Some txt"
  shows "\<exists>t'. decode_char z sub c t = Inr t' \<and> advances (alphabet_table z) spec t cs txt t'"
proof -
  have v: "version (header z) \<noteq> 1" "\<not> version (header z) \<le> 2"
    using z(4) by (auto simp: not_le)
  note st = z(2,3) sound_def rest_def
  have s: "alphabet t \<le> 2" "zscii_code t = 0"
    using z by (simp_all add: sound_def)
  have r': "zscii_text (alphabet_table z) spec (alphabet t) (c # cs) = Some txt"
    using r z by (simp add: rest_def)
  consider "c = 0" | "c = 1" | "c = 2 \<or> c = 3" | "c = 4 \<or> c = 5" | "c = 6" "alphabet t = 2" | "6 \<le> c" "\<not> (c = 6 \<and> alphabet t = 2)"
    by linarith
  then show ?thesis
  proof cases
    case 1
    then obtain b where "zscii_text (alphabet_table z) spec 0 cs = Some b" "txt = [32] @ b"
      using r' by (auto simp: append_text_Some)
    then show ?thesis
      using 1 z v s put_char_out [of 32 t] by (auto simp: decode_char_def st Let_def intro!: advancesI [of "[32]"])
  next
    case 6
    let ?x = "alphabet_table z ! (alphabet t * 26 + (c - 6))"
    obtain b where "zscii_text (alphabet_table z) spec 0 cs = Some b" "txt = (if ?x = 0 then [] else [?x]) @ b"
      using r' 6 by (auto simp: append_text_Some table_char_def Let_def)
    then show ?thesis
      using 6 z v s put_char_out [of ?x t]
      by (auto simp: decode_char_def st Let_def simp del: append.append_Cons intro!: advancesI [of "if ?x = 0 then [] else [?x]"])
  qed (use r' z v s in \<open>auto simp: decode_char_def st Let_def intro!: advancesI [of "[]"]\<close>)
qed


lemma decode_char_ok:
  assumes "sound t" "expands z sub spec" "2 < version (header z)" "c < 32"
    "rest (alphabet_table z) spec t (c # cs) = Some txt"
  obtains t' a b where "decode_char z sub c t = Inr t'" "txt = a @ b" "puts_out a t t'" "sound t'"
    "rest (alphabet_table z) spec t' cs = Some b"
  using step_code [of t] step_abbreviation [of t z sub spec] step_plain [of t z spec] assms that
  unfolding advances_def by metis

section \<open>Whole strings\<close>

lemma zchar_eq: "zchar w i = unat w div 2 ^ i mod 32"
proof -
  have "drop_bit i w AND 0x1F = take_bit 5 (drop_bit i w)"
    by (simp add: take_bit_eq_mask mask_eq_exp_minus_1)
  then have "zchar w i = take_bit 5 (unat (drop_bit i w))"
    unfolding zchar_def by (simp only: unsigned_take_bit_eq)
  then show ?thesis
    unfolding unat_drop_bit_eq by (simp add: take_bit_eq_mod drop_bit_eq_div)
qed

lemma zchar_less: "zchar w i < 32"
  by (simp add: zchar_eq)

lemma rest_Nil: "rest tab spec t [] = Some b \<Longrightarrow> sound t \<Longrightarrow> b = []"
  by (auto simp: rest_def sound_def split: if_splits)

lemma string_words_Some:
  "string_words z str = Some ws \<longleftrightarrow> in_story z str \<and> in_story z (str + 1) \<and>
     (let w = get_word (story z) str in if bit w 15 then ws = [w] else \<exists>vs. string_words z (str + 2) = Some vs \<and> ws = w # vs)"
  by (subst string_words.simps) (auto simp: Let_def)

lemma decode_words_ok:
  assumes e: "expands z sub spec" and v: "2 < version (header z)"
  shows "string_words z str = Some ws \<Longrightarrow> sound t \<Longrightarrow>
    rest (alphabet_table z) spec t (concat (map zchars ws)) = Some txt \<Longrightarrow>
    \<exists>t'. decode_words z sub str t = Inr (t', str + 2 * int (length ws)) \<and> puts_out txt t t'"
proof (induction ws arbitrary: str t "txt")
  case Nil
  then show ?case by (auto simp: string_words_Some Let_def split: if_splits)
next
  case (Cons w ws)
  from Cons.prems(1) have ins: "in_story z str" "in_story z (str + 1)" and w: "get_word (story z) str = w"
    and more: "bit w 15 \<and> ws = [] \<or> \<not> bit w 15 \<and> string_words z (str + 2) = Some ws"
    by (subst (asm) string_words_Some; auto simp: Let_def split: if_splits)+
  have r: "rest (alphabet_table z) spec t (zchar w 10 # zchar w 5 # zchar w 0 # concat (map zchars ws)) = Some txt"
    using Cons.prems(3) by (simp add: zchars_def [of w])
  obtain t1 a1 b1 where 1: "decode_char z sub (zchar w 10) t = Inr t1" "txt = a1 @ b1" "puts_out a1 t t1" "sound t1"
    "rest (alphabet_table z) spec t1 (zchar w 5 # zchar w 0 # concat (map zchars ws)) = Some b1"
    using decode_char_ok [OF Cons.prems(2) e v zchar_less r] by metis
  obtain t2 a2 b2 where 2: "decode_char z sub (zchar w 5) t1 = Inr t2" "b1 = a2 @ b2" "puts_out a2 t1 t2" "sound t2"
    "rest (alphabet_table z) spec t2 (zchar w 0 # concat (map zchars ws)) = Some b2"
    using decode_char_ok [OF 1(4) e v zchar_less 1(5)] by metis
  obtain t3 a3 b3 where 3: "decode_char z sub (zchar w 0) t2 = Inr t3" "b2 = a3 @ b3" "puts_out a3 t2 t3" "sound t3"
    "rest (alphabet_table z) spec t3 (concat (map zchars ws)) = Some b3"
    using decode_char_ok [OF 2(4) e v zchar_less 2(5)] by metis
  have out: "puts_out (a1 @ a2 @ a3) t t3"
    using puts_out_trans [OF 1(3) puts_out_trans [OF 2(3) 3(3)]] by simp
  have step: "decode_words z sub str t = (if bit w 15 then Inr (t3, str + 2) else decode_words z sub (str + 2) t3)"
    by (subst decode_words.simps) (simp add: ins w 1(1) 2(1) 3(1))
  show ?case
  proof (cases "bit w 15")
    case True
    with more 3(4,5) have "ws = []" "b3 = []"
      by (auto dest: rest_Nil)
    with True step out 1(2) 2(2) 3(2) show ?thesis
      by simp
  next
    case False
    with more obtain t' where "decode_words z sub (str + 2) t3 = Inr (t', str + 2 + 2 * int (length ws))" "puts_out b3 t3 t'"
      using Cons.IH [OF _ 3(4,5)] by blast
    with False step puts_out_trans [OF out] 1(2) 2(2) 3(2) show ?thesis
      by auto
  qed
qed

lemma sound_start [simp]: "sound (start_decoder n)" "room (start_decoder n) = n" "written (start_decoder n) = []"
    "decoded_chars (start_decoder n) = 0" "rest tab spec (start_decoder n) cs = zscii_text tab spec 0 cs"
  by (simp_all add: sound_def start_decoder_def rest_def)

lemma expands_abbr:
  assumes v: "2 < version (header z)"
  shows "expands z (Some (decode_abbreviation z)) (abbr_text z)"
  unfolding expands_def
proof (intro allI impI exI conjI, rule refl)
  fix k x assume "abbr_text z k = Some x"
  then obtain ws where a: "in_story z (uint (abbrtab_addr (header z)) + int k * 2)"
    "in_story z (uint (abbrtab_addr (header z)) + int k * 2 + 1)"
    "string_words z (uint (get_word (story z) (uint (abbrtab_addr (header z)) + int k * 2)) * 2) = Some ws"
    "zscii_text (alphabet_table z) (\<lambda>_. None) 0 (concat (map zchars ws)) = Some x"
    by (auto simp: abbr_text_def Let_def bind_eq_Some_conv split: if_splits)
  define w where "w = uint (get_word (story z) (uint (abbrtab_addr (header z)) + int k * 2)) * 2"
  have "expands z None (\<lambda>_. None)"
    by (simp add: expands_def)
  note ok = decode_words_ok [OF this v a(3) [folded w_def] sound_start(1), unfolded sound_start(5), OF a(4)]
  have "decode_abbreviation z w n = Inr (take n x, length x)" for n
  proof -
    obtain t where "decode_words z None w (start_decoder n) = Inr (t, w + 2 * int (length ws))" "puts_out x (start_decoder n) t"
      using ok [of n] by blast
    then show ?thesis
      by (simp add: decode_abbreviation_def puts_out_def)
  qed
  then show "let ptr = uint (abbrtab_addr (header z)) + int k * 2 in in_story z ptr \<and> in_story z (ptr + 1) \<and>
      (\<forall>n. decode_abbreviation z (uint (get_word (story z) ptr) * 2) n = Inr (take n x, length x))"
    unfolding w_def using a(1,2) by (simp add: Let_def)
qed

lemma decode_zscii_text:
  assumes "2 < version (header z)" "text_at z str = Some (txt, used)"
  shows "decode_zscii z str False n = Inr (take n txt, length txt, used)"
proof -
  obtain ws where w: "string_words z str = Some ws" "used = 2 * int (length ws)"
    "zscii_text (alphabet_table z) (abbr_text z) 0 (concat (map zchars ws)) = Some txt"
    using assms(2) by (auto simp: text_at_def bind_eq_Some_conv)
  from decode_words_ok [OF expands_abbr [OF assms(1)] assms(1) w(1) sound_start(1)] w(3)
  obtain t where "decode_words z (Some (decode_abbreviation z)) str (start_decoder n) = Inr (t, str + 2 * int (length ws))"
    "puts_out txt (start_decoder n) t"
    by fastforce
  then show ?thesis
    using w(2) by (simp add: decode_zscii_def puts_out_def)
qed

lemma string_words_cong:
  "story z' = story z \<Longrightarrow> story_len z' = story_len z \<Longrightarrow> string_words z' str = string_words z str"
proof (induction z str rule: string_words.induct)
  case (1 z str)
  then show ?case
    by (subst (1 2) string_words.simps) (auto simp: in_story_def Let_def)
qed

lemma text_at_cong:
  assumes "story z' = story z" "story_len z' = story_len z" "header z' = header z" "alphabet_table z' = alphabet_table z"
  shows "text_at z' str = text_at z str"
proof -
  have "abbr_text z' = abbr_text z"
    by (rule ext) (simp only: abbr_text_def in_story_def Let_def assms string_words_cong [OF assms(1,2)])
  then show ?thesis
    by (simp only: text_at_def assms(4) string_words_cong [OF assms(1,2)])
qed

lemma print_zscii_text:
  assumes "2 < version (header z)" "text_at z str = Some (txt, used)"
    and "512 < length txt \<longrightarrow> os_ret (os_call H (trace z) (Malloc (int (length txt)))) \<noteq> 0"
  shows "print_zscii H str z = Inr (used,
    (if length txt \<le> 512 then z else snd (syscall H (Malloc (int (length txt))) z))\<lparr>printed := printed z @ txt\<rparr>)"
proof (cases "length txt \<le> 512")
  case True
  then show ?thesis
    using decode_zscii_text [OF assms(1,2), of 512]
    by (simp add: print_zscii_def zop_simps writestr_def)
next
  case False
  let ?p = "fst (syscall H (Malloc (int (length txt))) z)"
  define u where "u = snd (syscall H (Malloc (int (length txt))) z)"
  have same: "header u = header z" "story u = story z" "story_len u = story_len z"
    "alphabet_table u = alphabet_table z" "printed u = printed z"
    by (simp_all add: u_def syscall_def emit_def Let_def)
  have sys: "syscall H (Malloc (int (length txt))) z = (?p, u)"
    unfolding u_def by (rule surjective_pairing)
  have "text_at u str = Some (txt, used)"
    using assms(2) text_at_cong [OF same(2,3,1,4)] by simp
  then have "decode_zscii u str False (length txt) = Inr (txt, length txt, used)"
    using decode_zscii_text [of u str "txt" used "length txt"] assms(1) same(1) by simp
  moreover have "os_ret ?p \<noteq> 0" "\<not> length txt \<le> 512"
    using False assms(3) by simp_all
  ultimately show ?thesis
    using decode_zscii_text [OF assms(1,2), of 512] sys same(5)
    by (simp add: print_zscii_def zop_simps writestr_def u_def [symmetric])
qed

text \<open>C18. Printing a string of a version 3 story writes exactly the text it encodes, however long: shifts,
  abbreviations and 10-bit codes as the reference reads them, and the whole of it also where it does
  not fit the buffer on the stack and the block comes from \<^verbatim>\<open>malloc\<close>.\<close>

theorem prints_text:
  assumes "2 < version (header z)" "text_at z str = Some (txt, used)"
    and "512 < length txt \<longrightarrow> os_ret (os_call H (trace z) (Malloc (int (length txt)))) \<noteq> 0"
  shows "print_zscii H str z = Inr (used,
    (if length txt \<le> 512 then z else snd (syscall H (Malloc (int (length txt))) z))\<lparr>printed := printed z @ txt\<rparr>)"
  by (rule print_zscii_text [OF assms])

text \<open>A shift, letters, and an abbreviation from the table at 640.\<close>

definition greeting :: zmachine where
  "greeting = initAlphabetTable (sample_machine (\<lambda>a. if a = 100 then 0x11 else if a = 101 then 0xAE
     else if a = 102 then 0x84 else if a = 103 then 0x05 else if a = 641 then 60
     else if a = 120 then 0xFA else if a = 121 then 0x9A else 0) [])"

lemma text_greeting: "text_at greeting 100 = Some (bytes_of ''Hiyou'', 4)"
  by code_simp

lemma prints_text_witness:
  "print_zscii null_host 100 greeting = Inr (4, greeting\<lparr>printed := bytes_of ''Hiyou''\<rparr>)"
proof -
  have "2 < version (header greeting)" "length (bytes_of ''Hiyou'') = 5" "printed greeting = []"
    by (simp_all add: greeting_def initAlphabetTable_def sample_machine_def sample_header_def bytes_of_def)
  with prints_text [OF _ text_greeting, of null_host] show ?thesis
    by simp
qed

section \<open>Encoding\<close>

text \<open>The encoding that the standard gives for a text of printable characters and line ends: from the
  alphabets where they have the character, as a 10-bit code otherwise; three to a word.\<close>

definition encode_char :: "u8 list \<Rightarrow> u8 \<Rightarrow> nat list" where
  "encode_char tab c =
     (if c = 32 then [0]
      else case find_index c tab of
        None \<Rightarrow> [5, 6, unat c div 32, unat c mod 32]
      | Some k \<Rightarrow> if k < 26 then [k + 6] else if k < 52 then [4, k - 20] else [5, k - 46])"

definition pack3 :: "bool \<Rightarrow> nat \<Rightarrow> nat \<Rightarrow> nat \<Rightarrow> u16" where
  "pack3 fin a b c = of_nat ((if fin then 32768 else 0) + 1024 * a + 32 * b + c)"

fun packed :: "nat list \<Rightarrow> u16 list" where
  "packed (a # b # c # d # r) = pack3 False a b c # packed (d # r)"
| "packed [a, b, c] = [pack3 True a b c]"
| "packed [a, b] = [pack3 True a b 5]"
| "packed [a] = [pack3 True a 5 5]"
| "packed [] = [pack3 True 5 5 5]"

fun words_at :: "zmachine \<Rightarrow> int \<Rightarrow> u16 list \<Rightarrow> bool" where
  "words_at z a [] \<longleftrightarrow> True"
| "words_at z a (w # ws) \<longleftrightarrow> in_story z a \<and> in_story z (a + 1) \<and> get_word (story z) a = w \<and> words_at z (a + 2) ws"

definition printable :: "u8 \<Rightarrow> bool" where
  "printable c \<longleftrightarrow> c = 10 \<or> 32 \<le> c \<and> c \<le> 126"

lemma pack3_fields:
  assumes "a < 32" "b < 32" "c < 32"
  shows "zchars (pack3 fin a b c) = [a, b, c]" "bit (pack3 fin a b c) 15 = fin"
proof -
  define e :: nat where "e = (if fin then 1 else 0)"
  define n where "n = (if fin then 32768 else 0) + 1024 * a + 32 * b + c"
  have nest: "n = ((e * 32 + a) * 32 + b) * 32 + c"
    by (simp add: n_def e_def)
  have e: "e < 2" and n1: "n < 65536"
    using assms by (simp_all add: n_def e_def)
  have digit: "(x * 32 + y) div 32 = x" "(x * 32 + y) mod 32 = y" if "y < 32" for x y :: nat
    using that by simp_all
  have d32: "n div 32 = (e * 32 + a) * 32 + b" "n mod 32 = c"
    unfolding nest by (rule digit [OF assms(3)])+
  have d1024: "n div 1024 = e * 32 + a"
    using div_mult2_eq [of n 32 32] digit(1) [OF assms(2)] by (simp add: d32)
  have "n div 32768 = e"
    using div_mult2_eq [of n 1024 32] digit(1) [OF assms(1)] by (simp add: d1024)
  then have n: "n < 65536" "n div 1024 mod 32 = a" "n div 32 mod 32 = b" "n mod 32 = c" "n div 32768 = e"
    using n1 d32(2) digit(2) [OF assms(1)] digit(2) [OF assms(2)] unfolding d1024 d32(1) by - assumption+
  have u: "unat (pack3 fin a b c) = n"
    using n(1) unfolding pack3_def n_def [symmetric] by (simp add: unsigned_of_nat take_bit_nat_eq_self)
  show "zchars (pack3 fin a b c) = [a, b, c]"
    using n by (simp add: zchars_def zchar_eq u)
  have "bit (pack3 fin a b c) 15 = bit n 15"
    unfolding u [symmetric] by (simp add: bit_unsigned_iff)
  then show "bit (pack3 fin a b c) 15 = fin"
    using n(5) by (simp add: bit_iff_odd e_def)
qed

lemma words_of_packed:
  "\<forall>c \<in> set cs. c < 32 \<Longrightarrow> words_at z a (packed cs) \<Longrightarrow> string_words z a = Some (packed cs)"
  by (induction cs arbitrary: a rule: packed.induct)
    (subst string_words_Some; simp add: pack3_fields Let_def)+

lemma zchars_of_packed:
  "\<forall>c \<in> set cs. c < 32 \<Longrightarrow> \<exists>k. concat (map zchars (packed cs)) = cs @ replicate k 5"
  by (induction cs rule: packed.induct) (auto simp: pack3_fields numeral_2_eq_2 numeral_3_eq_3 intro: exI [of _ "Suc 0"]
    exI [of _ 0] exI [of _ "Suc (Suc 0)"] exI [of _ "Suc (Suc (Suc 0))"])

lemma only_shifts: "zscii_text tab sub sh (replicate k 5) = Some []"
  by (induction k arbitrary: sh) simp_all

lemma find_index_Some: "find_index c tab = Some k \<Longrightarrow> k < length tab \<and> tab ! k = c"
  by (induction tab arbitrary: k) (auto split: if_splits)

lemma find_index_None: "find_index c tab = None \<longleftrightarrow> c \<notin> set tab"
  by (induction tab) auto

lemma encode_char_text:
  assumes c: "printable c" and tab: "length tab = 78" "tab ! 52 = 0" "10 \<in> set tab"
  shows "zscii_text tab sub 0 (encode_char tab c @ r) = append_text (Some [c]) (zscii_text tab sub 0 r)"
    and "\<forall>x \<in> set (encode_char tab c). x < 32"
proof -
  have "printable c \<Longrightarrow> unat c < 127"
    by (auto simp: printable_def word_le_nat_alt)
  then have u: "unat c < 127"
    using c by blast
  have nz: "c \<noteq> 0"
    using c by (auto simp: printable_def)
  consider "c = 32" | k where "c \<noteq> 32" "find_index c tab = Some k" | "c \<noteq> 32" "find_index c tab = None"
    by (cases "find_index c tab") auto
  then have "zscii_text tab sub 0 (encode_char tab c @ r) = append_text (Some [c]) (zscii_text tab sub 0 r) \<and>
    (\<forall>x \<in> set (encode_char tab c). x < 32)"
  proof cases
    case 2
    with find_index_Some have k: "k < 78" "tab ! k = c"
      using tab(1) by metis+
    then have "k \<noteq> 52"
      using tab(2) nz by auto
    then consider "k < 26" | "\<not> k < 26" "k < 52" "\<not> k - 20 \<le> 5" "k - 20 < 32" "26 + (k - 20 - 6) = k" "k - 20 \<noteq> 0"
      | "\<not> k < 26" "\<not> k < 52" "\<not> k - 46 \<le> 5" "k - 46 < 32" "52 + (k - 46 - 6) = k" "k - 46 \<noteq> 6" "k - 46 \<noteq> 0"
      using k(1) by linarith
    then show ?thesis
      using 2 k(2) nz by cases (auto simp: encode_char_def table_char_def)
  next
    case 3
    then have "c \<noteq> 10"
      using tab(3) by (auto simp: find_index_None)
    then have "32 \<le> c" "c \<le> 126"
      using c by (auto simp: printable_def)
    then have "output_char (unat c) = [c]"
      by (auto simp: output_char_def word_le_nat_alt)
    moreover have "32 * (unat c div 32) + unat c mod 32 = unat c"
      by simp
    moreover have "unat c div 32 < 32"
      using u by simp
    ultimately show ?thesis
      using 3 by (simp add: encode_char_def)
  qed (simp add: encode_char_def)
  then show "zscii_text tab sub 0 (encode_char tab c @ r) = append_text (Some [c]) (zscii_text tab sub 0 r)"
    "\<forall>x \<in> set (encode_char tab c). x < 32"
    by blast+
qed

lemma encode_text:
  assumes tab: "length tab = 78" "tab ! 52 = 0" "10 \<in> set tab"
  shows "\<forall>c \<in> set cs. printable c \<Longrightarrow>
    zscii_text tab sub 0 (concat (map (encode_char tab) cs) @ replicate k 5) = Some cs"
proof (induction cs)
  case (Cons c cs)
  then show ?case
    using encode_char_text(1) [OF _ tab, of c] by (simp add: append_text_def)
qed (simp add: only_shifts)

lemma alphabet_facts:
  assumes "alphabet_table z = alphabet_table (initAlphabetTable z0)" "2 < version (header z0)"
  shows "length (alphabet_table z) = 78" "alphabet_table z ! 52 = 0" "10 \<in> set (alphabet_table z)"
  using assms by (auto simp: initAlphabetTable_def alphabet_A2_def nth_append)

lemma text_at_packed:
  assumes tab: "length (alphabet_table z) = 78" "alphabet_table z ! 52 = 0" "10 \<in> set (alphabet_table z)"
    and cs: "\<forall>c \<in> set cs. printable c"
    and ws: "ws = packed (concat (map (encode_char (alphabet_table z)) cs))" "words_at z str ws"
  shows "text_at z str = Some (cs, 2 * int (length ws))"
proof -
  let ?e = "concat (map (encode_char (alphabet_table z)) cs)"
  have small: "\<forall>c \<in> set ?e. c < 32"
    using encode_char_text(2) [OF _ tab] cs by auto
  obtain k where "concat (map zchars ws) = ?e @ replicate k 5"
    using zchars_of_packed [OF small] ws(1) by blast
  then show ?thesis
    using words_of_packed [OF small, of z str] ws encode_text [OF tab cs] by (simp add: text_at_def)
qed


definition text_machine :: "u16 list \<Rightarrow> zmachine" where
  "text_machine ws = initAlphabetTable (sample_machine (\<lambda>a. if 0 \<le> a \<and> nat a < 2 * length ws
     then (if even a then hi8 else lo8) (ws ! (nat a div 2)) else 0) [])"


end
