(* ===== verification/ZExec.thy ===== *)
theory ZExec
  imports ZFiles ZDecode ZTree
begin

text \<open>
  The instruction loop of the Z-machine (\<^verbatim>\<open>mojozork.c\<close>): fetching an opcode and its
  operands, dispatch through the opcode table, and \<^verbatim>\<open>main\<close>.
\<close>

section \<open>Operands\<close>

definition set_operand :: "nat \<Rightarrow> u16 \<Rightarrow> bool zop" where
  "set_operand k v = zbind (zmod (\<lambda>z. z\<lparr>operands := (operands z)[k := v]\<rparr>)) (\<lambda>_. zret True)"

text \<open>The result says whether there was an operand; it goes to place \<open>k\<close>.\<close>

definition parseOperand :: "nat \<Rightarrow> nat \<Rightarrow> bool zop" where
  "parseOperand optype k =
     (if optype = 0 then zbind next_pc16 (set_operand k)
      else if optype = 1 then zbind next_pc (\<lambda>v. set_operand k (ucast v))
      else if optype = 2 then zbind next_pc (\<lambda>var. zbind (varAddress var False) (\<lambda>addr. zbind (ld_var addr) (set_operand k)))
      else zret False)"

fun parse_types :: "nat list \<Rightarrow> nat \<Rightarrow> nat \<Rightarrow> nat zop" where
  "parse_types [] base i = zret i"
| "parse_types (t # ts) base i = zbind (parseOperand t (base + i)) (\<lambda>ok. if ok then parse_types ts base (i + 1) else zret i)"

definition operand_types :: "u8 \<Rightarrow> nat list" where
  "operand_types b = map (\<lambda>shifter. unat (drop_bit shifter b AND 0x3)) [6, 4, 2, 0]"

definition parseVarOperands :: "nat \<Rightarrow> nat zop" where
  "parseVarOperands base = zbind next_pc (\<lambda>b. parse_types (operand_types b) base 0)"

definition set_count :: "nat \<Rightarrow> unit zop" where
  "set_count n = zmod (\<lambda>z. z\<lparr>operand_count := n\<rparr>)"

definition parse_form :: "u8 \<Rightarrow> unit zop" where
  "parse_form opcode =
     (if opcode \<le> 127 then
        zbind (set_count 2) (\<lambda>_.
        zbind (parseOperand (if bit opcode 6 then 2 else 1) 0) (\<lambda>_.
        zbind (parseOperand (if bit opcode 5 then 2 else 1) 1) (\<lambda>_. zret ())))
      else if opcode \<le> 175 then
        zbind (set_count 1) (\<lambda>_. zbind (parseOperand (unat (drop_bit 4 opcode AND 0x3)) 0) (\<lambda>_. zret ()))
      else if opcode \<le> 191 then set_count 0
      else if \<not> (opcode = 236 \<or> opcode = 250) then zbind (parseVarOperands 0) set_count
      else
        zbind (parseVarOperands 0) (\<lambda>n. zbind (set_count n) (\<lambda>_.
        if n = 4 then zbind (parseVarOperands 4) (\<lambda>m. set_count (n + m))
        else zmod (\<lambda>z. z\<lparr>pc := pc z + 1\<rparr>))))"

section \<open>Dispatch\<close>

fun run_op :: "host \<Rightarrow> opcode_fn \<Rightarrow> unit zop" where
  "run_op H Op_call = opcode_call"
| "run_op H Op_ret = opcode_ret"
| "run_op H Op_rtrue = opcode_rtrue"
| "run_op H Op_rfalse = opcode_rfalse"
| "run_op H Op_ret_popped = opcode_ret_popped"
| "run_op H Op_push = opcode_push"
| "run_op H Op_pull = opcode_pull"
| "run_op H Op_pop = opcode_pop"
| "run_op H Op_show_status = opcode_show_status"
| "run_op H Op_add = opcode_add"
| "run_op H Op_sub = opcode_sub"
| "run_op H Op_mul = opcode_mul"
| "run_op H Op_div = opcode_div"
| "run_op H Op_mod = opcode_mod"
| "run_op H Op_or = opcode_or"
| "run_op H Op_and = opcode_and"
| "run_op H Op_not = opcode_not"
| "run_op H Op_je = opcode_je"
| "run_op H Op_jz = opcode_jz"
| "run_op H Op_jl = opcode_jl"
| "run_op H Op_jg = opcode_jg"
| "run_op H Op_test = opcode_test"
| "run_op H Op_jump = opcode_jump"
| "run_op H Op_inc_chk = opcode_inc_chk"
| "run_op H Op_inc = opcode_inc"
| "run_op H Op_dec_chk = opcode_dec_chk"
| "run_op H Op_dec = opcode_dec"
| "run_op H Op_load = opcode_load"
| "run_op H Op_loadw = opcode_loadw"
| "run_op H Op_loadb = opcode_loadb"
| "run_op H Op_storew = opcode_storew"
| "run_op H Op_storeb = opcode_storeb"
| "run_op H Op_store = opcode_store"
| "run_op H Op_test_attr = opcode_test_attr"
| "run_op H Op_set_attr = opcode_set_attr"
| "run_op H Op_clear_attr = opcode_clear_attr"
| "run_op H Op_insert_obj = opcode_insert_obj"
| "run_op H Op_remove_obj = opcode_remove_obj"
| "run_op H Op_put_prop = opcode_put_prop"
| "run_op H Op_get_prop = opcode_get_prop"
| "run_op H Op_get_prop_addr = opcode_get_prop_addr"
| "run_op H Op_get_prop_len = opcode_get_prop_len"
| "run_op H Op_get_next_prop = opcode_get_next_prop"
| "run_op H Op_jin = opcode_jin"
| "run_op H Op_get_parent = opcode_get_parent"
| "run_op H Op_get_sibling = opcode_get_sibling"
| "run_op H Op_get_child = opcode_get_child"
| "run_op H Op_new_line = opcode_new_line"
| "run_op H Op_print = opcode_print H"
| "run_op H Op_print_num = opcode_print_num"
| "run_op H Op_print_char = opcode_print_char"
| "run_op H Op_print_ret = opcode_print_ret H"
| "run_op H Op_print_obj = opcode_print_obj H"
| "run_op H Op_print_addr = opcode_print_addr H"
| "run_op H Op_print_paddr = opcode_print_paddr H"
| "run_op H Op_random = opcode_random H"
| "run_op H Op_read = opcode_read H"
| "run_op H Op_verify = opcode_verify"
| "run_op H Op_split_window = opcode_split_window"
| "run_op H Op_set_window = opcode_set_window"
| "run_op H Op_restart = opcode_restart H"
| "run_op H Op_save = opcode_save H"
| "run_op H Op_restore = opcode_restore H"
| "run_op H Op_quit = opcode_quit"
| "run_op H Op_nop = opcode_nop"

text \<open>The opcode, its operands, and its entry in the table.\<close>

definition fetch :: "opcode_entry zop" where
  "fetch =
     zbind (zmod (\<lambda>z. z\<lparr>logical_pc := word_of_int (pc z)\<rparr>)) (\<lambda>_.
     zbind next_pc (\<lambda>opcode. zbind (zget (\<lambda>z. version (header z))) (\<lambda>v.
     if opcode = 190 \<and> 5 \<le> v then
       zbind next_pc (\<lambda>opcode. if 30 \<le> opcode then zdie else
       zbind (parseVarOperands 0) (\<lambda>n. zbind (set_count n) (\<lambda>_. zget (\<lambda>z. extended_opcodes z (unat opcode)))))
     else zbind (parse_form opcode) (\<lambda>_. zget (\<lambda>z. opcodes z (unat opcode))))))"

definition runInstruction :: "host \<Rightarrow> unit zop" where
  "runInstruction H = zbind fetch (\<lambda>op. case op of
       Unknown \<Rightarrow> zdie
     | Unimplemented \<Rightarrow> zdie
     | Implemented f \<Rightarrow> zbind (run_op H f) (\<lambda>_. zmod (\<lambda>z. z\<lparr>instructions_run := instructions_run z + 1\<rparr>)))"

section \<open>The program\<close>

partial_function (option) main_loop :: "host \<Rightarrow> zmachine \<Rightarrow> (unit \<times> zmachine) run option" where
  "main_loop H z =
     (if quit z then Some (Inr ((), z))
      else (case runInstruction H z of
              Inl e \<Rightarrow> Some (Inl e)
            | Inr (_, z1) \<Rightarrow> main_loop H z1))"

text \<open>The static state at the start of the process.\<close>

definition zero_header :: zheader where
  "zero_header = \<lparr>version = 0, flags1 = 0, release = 0, himem_addr = 0, pc_start = 0, dict_addr = 0, objtab_addr = 0,
     globals_addr = 0, staticmem_addr = 0, flags2 = 0, serial_code = replicate 7 0, abbrtab_addr = 0,
     hdr_story_len = 0, story_checksum = 0\<rparr>"

definition zero_machine :: zmachine where
  "zero_machine = \<lparr>trace = [], errno = 0, instructions_run = 0, story = (\<lambda>_. 0), story_len = 0, header = zero_header,
     logical_pc = 0, pc = 0, sp = 0, bp = 0, quit = False, step_completed = False, stack = (\<lambda>_. 0),
     operands = replicate 8 0, operand_count = 0, alphabet_table = replicate 78 0, startup_script = None,
     story_filename = None, current_window = 0, upper_window_line_count = 0, opcodes = (\<lambda>_. Unknown),
     extended_opcodes = (\<lambda>_. Unknown), random_seed = 0, script = None, printed = []\<rparr>"

text \<open>\<open>argv\<close> with the program's name at its head; the result is the exit status.\<close>

definition main :: "host \<Rightarrow> u8 list list \<Rightarrow> (int \<times> zmachine) run" where
  "main H argv =
     zbind (zmod (\<lambda>z. z\<lparr>startup_script := (if 3 \<le> length argv then Some (argv ! 2) else None)\<rparr>)) (\<lambda>_.
     zbind (call_host H Time) (\<lambda>t.
     zbind (zmod (\<lambda>z. z\<lparr>random_seed := int16 (os_ret t)\<rparr>)) (\<lambda>_.
     zbind (loadStory H (Some (if 2 \<le> length argv then argv ! 1 else bytes_of ''zork1.dat''))) (\<lambda>_.
     zbind (\<lambda>z. loop_result (main_loop H z)) (\<lambda>_. zret 0))))) zero_machine"

end
