(* ===== verification/ZBuffers.thy ===== *)
theory ZBuffers
  imports ZRead
begin

text \<open>
  Where reading a line writes: the text buffer and the parse buffer that the story passes, and
  nothing else, whatever the terminal, a script or the commands typed into it say.
\<close>

definition within :: "int set \<Rightarrow> zmachine \<Rightarrow> zmachine \<Rightarrow> bool" where
  "within R z z' \<longleftrightarrow> operands z' = operands z \<and> (\<forall>a. a \<notin> R \<longrightarrow> story z' a = story z a)"

lemma within_refl [simp]: "within R z z"
  by (simp add: within_def)

lemma within_trans: "within R z z1 \<Longrightarrow> within R z1 z2 \<Longrightarrow> within R z z2"
  by (simp add: within_def)

lemma within_story: "within R z y \<Longrightarrow> a \<in> R \<Longrightarrow> within R z (y\<lparr>story := (story y)(a := v)\<rparr>)"
  by (auto simp: within_def)

lemma within_frame [simp]:
  "within R z (y\<lparr>startup_script := u\<rparr>) = within R z y" "within R z (y\<lparr>script := c\<rparr>) = within R z y"
  "within R z (y\<lparr>printed := d\<rparr>) = within R z y" "within R z (y\<lparr>random_seed := r\<rparr>) = within R z y"
  by (simp_all add: within_def)

lemma within_syscall [simp]: "within R z (snd (syscall H e y)) = within R z y"
  by (simp add: within_def syscall_def emit_def Let_def)

lemma within_syscallD: "syscall H e y = (r, y') \<Longrightarrow> within R z y \<Longrightarrow> within R z y'"
  using within_syscall [of R z H e y] by simp

section \<open>The parts\<close>

lemma within_call [zkeeps_rules]: "zkeeps (within R z) (call_host H e)"
  by (rule zkeepsI) (auto simp: call_host_def dest: within_syscallD)

lemma within_writestr [zkeeps_rules]: "zkeeps (within R z) (writestr s)"
  by (auto simp: writestr_def intro!: zkeeps_rules)

lemma within_random [zkeeps_rules]: "zkeeps (within R z) (doRandom H r)"
proof -
  have "zkeeps (within R z) randomNumber"
    by (auto simp: zkeeps_def randomNumber_def Let_def)
  moreover have "zkeeps (within R z) (\<lambda>z. let (r, z') = syscall H Time z in Inr (os_ret r, z'))"
    by (rule zkeepsI) (auto simp: Let_def split: prod.splits dest: within_syscallD)
  ultimately show ?thesis
    unfolding doRandom_def Let_def by (intro zkeeps_rules) simp_all
qed

lemma within_store_bytes:
  "(\<And>i. i < length bs \<Longrightarrow> a + int i \<in> R) \<Longrightarrow> zkeeps (within R z) (store_bytes a bs)"
proof (induction bs arbitrary: a)
  case (Cons b bs)
  have "a \<in> R"
    using Cons.prems [of 0] by simp
  moreover have "a + 1 + int i \<in> R" if "i < length bs" for i
    using Cons.prems [of "Suc i"] that by (simp add: algebra_simps)
  ultimately show ?case
    by (auto intro!: zkeeps_rules Cons.IH within_story)
qed (simp add: zkeeps_rules)

lemma script_line_length: "script_line n line block = Inr (l, r) \<Longrightarrow> length line \<le> n \<Longrightarrow> length l \<le> n"
proof (induction n line block rule: script_line.induct)
  case (1 n line block)
  show ?case
    using 1(3) [unfolded script_line.simps [of n line block]] 1(1,2,4) by (auto split: if_splits list.splits)
qed

definition fgets_bounded :: "host \<Rightarrow> bool" where
  "fgets_bounded H \<longleftrightarrow> (\<forall>tr n. os_ret (os_call H tr (Fgets n)) \<noteq> 0 \<longrightarrow> int (length (os_data (os_call H tr (Fgets n)))) < n)"

text \<open>After a line has been read it ends inside the buffer.\<close>

definition ends_in :: "int \<Rightarrow> int \<Rightarrow> zmachine \<Rightarrow> bool" where
  "ends_in a b z \<longleftrightarrow> (\<exists>q. a \<le> q \<and> q \<le> b \<and> story z q = 0)"

lemma store_bytes_end:
  "store_bytes a (bs @ [0]) z = Inr (x, z') \<Longrightarrow> story z' (a + int (length bs)) = 0"
proof (induction bs arbitrary: a z)
  case Nil
  then show ?case
    by (auto simp: zbind_Inr zop_simps st_byte_def split: if_splits)
next
  case (Cons b bs)
  then obtain z1 where "store_bytes (a + 1) (bs @ [0]) z1 = Inr (x, z')"
    by (auto simp: zbind_Inr)
  from Cons.IH [OF this] show ?case
    by (simp add: algebra_simps)
qed

lemma script_run:
  assumes "read_script a n block z = Inr (x, z')"
  obtains line sp z1 where "script_line n [] block = Inr (line, sp)" "store_bytes a (line @ [0]) z = Inr ((), z1)"
    "operands z' = operands z1" "story z' = story z1"
proof -
  from assms [unfolded read_script_def] obtain line sp z1 where
    "script_line n [] block = Inr (line, sp)" "store_bytes a (line @ [0]) z = Inr ((), z1)" and
    r: "operands z' = operands z1 \<and> story z' = story z1"
    apply (rule zbindE)
    apply (simp only: case_prod_beta)
    apply (elim zbindE)
    apply (force simp: zlift_Inr writestr_def zop_simps split: if_splits)
    done
  then show thesis
    using that by blast
qed

lemma read_input_within:
  assumes H: "fgets_bounded H" and n: "3 \<le> n" and R: "{a..a + int n} \<subseteq> R"
    and r: "read_input H a n z = Inr (x, z')"
  shows "within R z z' \<and> ends_in a (a + int n) z'"
proof -
  have in_R: "a + int i \<in> R" if "i \<le> n" for i
    using R that by auto
  show ?thesis
  proof (cases "startup_script z")
    case (Some name)
    let ?s = "take (n - 2) (bytes_of ''#script '' @ name @ [10])"
    obtain z1 z2 where 1: "store_bytes a (?s @ [0]) z = Inr ((), z1)" and 2: "st_byte (a + int n - 1) 0 z1 = Inr ((), z2)"
      and z': "z' = z2\<lparr>startup_script := None, printed := printed z'\<rparr>"
      using r Some by (auto simp: read_input_def read_startup_def zbind_Inr zop_simps zlift_def writestr_def bindR_eq_Inr)
    have "within R z z1"
      using n by (intro zkeepsD [OF within_store_bytes 1]) (auto intro!: in_R)
    moreover have "a + int n - 1 \<in> R"
      using in_R [of "n - 1"] n by (simp add: of_nat_diff algebra_simps)
    ultimately have "within R z z2" "story z2 (a + int n - 1) = 0"
      using 2 by (auto simp: st_byte_def intro!: within_story split: if_splits)
    then have "within R z z'" "story z' (a + int n - 1) = 0"
      by (subst z'; simp)+
    then show ?thesis
      using n by (auto simp: ends_in_def intro!: exI [of _ "a + int n - 1"])
  next
    case None
    show ?thesis
    proof (cases "script z")
      case None
      let ?r = "os_call H (trace z) (Fgets (int n))"
      obtain z1 where "store_bytes a (os_data ?r @ [0]) z1 = Inr (x, z')" "os_ret ?r \<noteq> 0" "z1 = snd (syscall H (Fgets (int n)) z)"
        using r None \<open>startup_script z = None\<close>
        by (auto simp: read_input_def read_terminal_def zbind_Inr zop_simps call_host_def syscall_def Let_def split: if_splits)
      moreover from this(2) have "length (os_data ?r) < n"
        using H [unfolded fgets_bounded_def, rule_format, of "trace z" "int n"] by simp
      ultimately have sb: "store_bytes a (os_data ?r @ [0]) z1 = Inr (x, z')" and z1: "within R z z1"
        and len: "length (os_data ?r) \<le> n"
        by simp_all
      have "story z' (a + int (length (os_data ?r))) = 0"
        by (rule store_bytes_end [OF sb])
      moreover have "within R z z'"
        using len by (intro zkeepsD [OF within_store_bytes sb z1]) (auto intro!: in_R)
      ultimately show ?thesis
        using len by (auto simp: ends_in_def intro!: exI [of _ "a + int (length (os_data ?r))"])
    next
      case (Some block)
      have rs: "read_script a n block z = Inr (x, z')"
        using r Some \<open>startup_script z = None\<close> by (simp add: read_input_def zop_simps)
      obtain line sp z1 where l: "script_line n [] block = Inr (line, sp)"
        and 1: "store_bytes a (line @ [0]) z = Inr ((), z1)" and z': "operands z' = operands z1" "story z' = story z1"
        by (rule script_run [OF rs])
      have len: "length line \<le> n"
        using script_line_length [OF l] by simp
      have "within R z z1"
        using len by (intro zkeepsD [OF within_store_bytes 1]) (auto intro!: in_R)
      moreover have "story z1 (a + int (length line)) = 0"
        using store_bytes_end [OF 1] .
      ultimately have "within R z z'" "story z' (a + int (length line)) = 0"
        using z' by (simp_all add: within_def)
      then show ?thesis
        using len by (auto simp: ends_in_def intro!: exI [of _ "a + int (length line)"])
    qed
  qed
qed

lemma lower_line_within:
  "lower_line a z = Inr (x, z') \<Longrightarrow> a \<le> q \<Longrightarrow> story z q = 0 \<Longrightarrow> {a..q} \<subseteq> R \<Longrightarrow> within R z z'"
proof (induction a z rule: lower_line.induct)
  case (1 a z)
  have a: "a \<in> R" and sub: "{a + 1..q} \<subseteq> R"
    using 1(4,6) by auto
  have less: "story z a \<noteq> 0 \<Longrightarrow> a + 1 \<le> q"
    using 1(4,5) by (cases "a = q") auto
  note up = within_trans [OF within_story [OF within_refl a]]
  note l = 1(3) [unfolded lower_line.simps [of a z] Let_def]
  consider "story z a = 0" | "65 \<le> story z a" "story z a \<le> 90" | "story z a = 10 \<or> story z a = 13"
    | "story z a \<noteq> 0" "\<not> (65 \<le> story z a \<and> story z a \<le> 90)" "story z a \<noteq> 10" "story z a \<noteq> 13"
    by blast
  then show ?case
  proof cases
    case 2
    with l have ins: "in_story z a" and r: "lower_line (a + 1) (z\<lparr>story := (story z)(a := story z a + 32)\<rparr>) = Inr (x, z')"
      by (auto split: if_splits)
    from 2 have nz: "story z a \<noteq> 0"
      by auto
    show ?thesis
      by (rule up, rule 1(1) [OF _ refl _ _ r]) (use 2 ins nz less sub 1(5) in auto)
  next
    case 4
    with l have "in_story z a" "lower_line (a + 1) z = Inr (x, z')"
      by (auto split: if_splits)
    then show ?thesis
      using 4 less sub 1(5) by (intro 1(2)) auto
  qed (use l a in \<open>auto split: if_splits intro!: within_story\<close>)
qed

lemma within_store_token:
  "{q..q + 3} \<subseteq> R \<Longrightarrow> zkeeps (within R z) (store_token d s p q)"
  unfolding store_token_def Let_def WRITEUI16_def by (intro zkeeps_rules within_story) auto

lemma reads_only:
  "is_separator d ch z = Inr (b, z1) \<Longrightarrow> z1 = z"
  using zkeepsD [OF zkeeps_read(4) [of "\<lambda>y. y = z"]] by blast

lemma tokenize_within:
  "tokenize d n s ptr q z = Inr (c, z') \<Longrightarrow> q = p + 2 + 4 * uint n \<Longrightarrow> n < parselen d \<Longrightarrow>
     {p + 2..p + 1 + 4 * uint (parselen d)} \<subseteq> R \<Longrightarrow> within R z z'"
proof (induction d n s ptr q z rule: tokenize.induct)
  case (1 d n s ptr q z)
  note r = 1(3) [unfolded tokenize.simps [of d n s ptr q z]]
  obtain ch where ch: "ld_byte ptr z = Inr (ch, z)"
    using r by (auto simp: ld_byte_def split: if_splits)
  obtain b where sep: "is_separator d ch z = Inr (b, z)"
    using r ch reads_only [of d ch z] by (auto split: sum.splits prod.splits)
  show ?case
  proof (cases b)
    case False
    then have "tokenize d n s (ptr + 1) q z = Inr (c, z')"
      using r ch sep by simp
    then show ?thesis
      using 1(2) [OF ch refl sep refl] False 1(4-6) by simp
  next
    case True
    have n: "uint n + 1 \<le> uint (parselen d)"
      using 1(5) by (simp add: word_less_def)
    have fits: "{q..q + 3} \<subseteq> R"
    proof -
      have "{q..q + 3} \<subseteq> {p + 2..p + 1 + 4 * uint (parselen d)}"
        using n uint_u8_bound [of n] 1(4) by auto
      then show ?thesis
        using 1(6) by blast
    qed
    show ?thesis
    proof (cases "(word_of_int (ptr - s) :: u8) = 0")
      case False
      then obtain z1 where st: "store_token d s ptr q z = Inr ((), z1)"
        using r ch sep True by (auto split: sum.splits)
      have w: "within R z z1"
        by (rule zkeepsD [OF within_store_token [OF fits] st]) simp
      show ?thesis
      proof (cases "parselen d \<le> n + 1 \<or> ch = 0")
        case fin: True
        then show ?thesis
          using r ch sep True False st w fin by auto
      next
        case more: False
        then have u: "uint (n + 1) = uint n + 1"
          using n uint_u8_bound [of "parselen d"] uint_u8_bound [of n]
          by (simp add: uint_word_ariths)
        have "tokenize d (n + 1) (ptr + 1) (ptr + 1) (q + 4) z1 = Inr (c, z')"
          using r ch sep True False st more by auto
        moreover have "b = True"
          using True by simp
        ultimately have "within R z1 z'"
          using 1(1) [OF ch refl sep refl _ False st refl more] more 1(4,6) u by (simp add: not_le)
        then show ?thesis
          using w within_trans by blast
      qed
    qed (use r ch sep True in auto)
  qed
qed

lemma tokenizeUserInput_within:
  assumes r: "tokenizeUserInput z = Inr (x, z')" and k: "k = uint (story z (uint (operands z ! 1)))" "0 < k"
    and R: "{uint (operands z ! 1) + 1..uint (operands z ! 1) + 1 + 4 * k} \<subseteq> R"
  shows "within R z z'"
proof -
  let ?p = "uint (operands z ! 1)"
  have keep: "zkeeps (\<lambda>y. y = z) read_dictionary"
    unfolding read_dictionary_def by (intro zkeeps_rules)
  obtain d c z1 where d: "read_dictionary z = Inr (d, z)"
    and t: "tokenize d 0 (input_start d) (input_start d) (?p + 2) z = Inr (c, z1)" and st: "st_byte (?p + 1) c z1 = Inr (x, z')"
    using r zkeepsD [OF keep] by (auto simp: tokenizeUserInput_def zbind_Inr operand_def zop_simps)
  have "parselen d = story z ?p"
    using d by (auto simp: read_dictionary_def zbind_Inr operand_def zop_simps ld_byte_def split: if_splits)
  moreover have "{?p + 2..?p + 1 + 4 * k} \<subseteq> R"
    using R by auto
  ultimately have "within R z z1"
    using tokenize_within [OF t, of ?p R] k by (simp add: word_less_def)
  moreover have "?p + 1 \<in> R"
    using R k by auto
  ultimately show ?thesis
    using st by (auto simp: st_byte_def intro!: within_story split: if_splits)
qed

lemma within_load_script [zkeeps_rules]: "zkeeps (within R z) (load_script H fname)"
  unfolding load_script_def by (intro zkeeps_rules) simp

section \<open>A whole read\<close>

text \<open>The text buffer, with one byte behind the length it declares, and the parse buffer behind its first
  byte.\<close>

definition text_buffer :: "zmachine \<Rightarrow> int set" where
  "text_buffer z = (let t = uint (operands z ! 0) in {t + 1..t + 1 + uint (story z t)})"

definition parse_buffer :: "zmachine \<Rightarrow> int set" where
  "parse_buffer z = (let p = uint (operands z ! 1) in {p + 1..p + 1 + 4 * uint (story z p)})"

definition sane_buffers :: "zmachine \<Rightarrow> bool" where
  "sane_buffers z \<longleftrightarrow> (\<forall>a \<in> {uint (operands z ! 0), uint (operands z ! 1)}. a \<notin> text_buffer z \<union> parse_buffer z)"

lemma read_step_within:
  assumes H: "fgets_bounded H" and z: "sane_buffers z" and r: "read_step H z = Inr (again, z')"
  shows "within (text_buffer z \<union> parse_buffer z) z z'"
proof -
  define t p where "t = uint (operands z ! 0)" and "p = uint (operands z ! 1)"
  define R where "R = text_buffer z \<union> parse_buffer z"
  from r have "3 \<le> story z t" "story z p \<noteq> 0"
    by (auto simp: read_step_def operand_def zop_simps zbind_Inr ld_byte_def t_def p_def not_less split: if_splits)
  then have n: "3 \<le> unat (story z t)" "int (unat (story z t)) = uint (story z t)" "0 < uint (story z p)"
    using uint_u8_bound [of "story z p"] uint_0_iff [of "story z p"] by (auto simp: word_le_nat_alt order_less_le)
  from r obtain z1 z2 s where 1: "read_input H (t + 1) (unat (story z t)) z = Inr ((), z1)"
    and 2: "lower_line (t + 1) z1 = Inr ((), z2)"
    and 3: "(if take 8 s = bytes_of ''#script '' then zbind (load_script H (drop 8 s)) (\<lambda>_. zret True)
     else if take 8 s = bytes_of ''#random '' then
       zbind (doRandom H (int16 (atoi (drop 8 s)))) (\<lambda>val.
       zbind (writestr (bytes_of ''*** random replied: '' @ decimal (uint val) @ [10])) (\<lambda>_. zret True))
     else zbind tokenizeUserInput (\<lambda>_. zret False)) z2 = Inr (again, z')"
    unfolding read_step_def updateStatusBar_def t_def
    by (elim zbindE) (simp add: operand_def zop_simps zlift_Inr ld_byte_def split: if_splits; elim zbindE;
      simp add: operand_def zop_simps zlift_Inr ld_byte_def split: if_splits; elim zbindE; simp add: zop_simps zlift_Inr)
  have sub: "{t + 1..t + 1 + int (unat (story z t))} \<subseteq> R"
    by (auto simp: R_def text_buffer_def t_def Let_def)
  have "within R z z1 \<and> ends_in (t + 1) (t + 1 + int (unat (story z t))) z1"
    by (rule read_input_within [OF H n(1) sub 1])
  then obtain q where w1: "within R z z1" and q: "t + 1 \<le> q" "q \<le> t + 1 + int (unat (story z t))" "story z1 q = 0"
    by (auto simp: ends_in_def)
  have "within R z1 z2"
    using q sub by (intro lower_line_within [OF 2 q(1,3)]) auto
  with w1 have w2: "within R z z2"
    by (rule within_trans)
  show ?thesis
    unfolding R_def [symmetric]
  proof (cases "take 8 s = bytes_of ''#script '' \<or> take 8 s = bytes_of ''#random ''")
    case True
    have k: "zkeeps (within R z) (zbind (load_script H (drop 8 s)) (\<lambda>_. zret True))"
      "zkeeps (within R z) (zbind (doRandom H (int16 (atoi (drop 8 s)))) (\<lambda>val.
        zbind (writestr (bytes_of ''*** random replied: '' @ decimal (uint val) @ [10])) (\<lambda>_. zret True)))"
      by (intro zkeeps_rules)+
    show "within R z z'"
    proof (cases "take 8 s = bytes_of ''#script ''")
      case True
      then have "(take 8 s = bytes_of ''#script '') = True"
        by simp
      then show ?thesis
        by (intro zkeepsD [OF k(1) _ w2]) (use 3 in \<open>simp only: if_True\<close>)
    next
      case False
      then have "(take 8 s = bytes_of ''#script '') = False" "(take 8 s = bytes_of ''#random '') = True"
        using True by simp_all
      then show ?thesis
        by (intro zkeepsD [OF k(2) _ w2]) (use 3 in \<open>simp only: if_True if_False\<close>)
    qed
  next
    case False
    then obtain u where tok: "tokenizeUserInput z2 = Inr (u, z')"
      using 3 by (auto simp: zbind_Inr zop_simps)
    have "p \<notin> R" "operands z2 = operands z"
      using z w2 by (auto simp: sane_buffers_def R_def p_def within_def)
    then have "operands z2 ! 1 = operands z ! 1" "story z2 p = story z p"
      using w2 by (simp_all add: within_def)
    then have eq: "uint (operands z2 ! 1) = p" "story z2 p = story z p"
      by (simp_all add: p_def)
    have "within R z2 z'"
      by (rule tokenizeUserInput_within [OF tok refl]; unfold eq; insert n(3))
        (auto simp: p_def R_def parse_buffer_def Let_def)
    then show "within R z z'"
      by (rule within_trans [OF w2])
  qed
qed

lemma same_buffers:
  assumes "within R z z'" "sane_buffers z" "R = text_buffer z \<union> parse_buffer z"
  shows "text_buffer z' = text_buffer z" "parse_buffer z' = parse_buffer z" "sane_buffers z'"
proof -
  have "operands z' = operands z" "story z' (uint (operands z ! 0)) = story z (uint (operands z ! 0))"
    "story z' (uint (operands z ! 1)) = story z (uint (operands z ! 1))"
    using assms by (simp_all add: within_def sane_buffers_def)
  then show "text_buffer z' = text_buffer z" "parse_buffer z' = parse_buffer z"
    by (simp_all only: text_buffer_def parse_buffer_def Let_def)
  then show "sane_buffers z'"
    using assms(2) \<open>operands z' = operands z\<close> by (simp add: sane_buffers_def)
qed

lemma read_loop_within:
  assumes "read_loop H z = Some r" "fgets_bounded H" "sane_buffers z" "r = Inr (u, z')"
  shows "within (text_buffer z \<union> parse_buffer z) z z'"
proof (rule read_loop.raw_induct [where P = "\<lambda>H z r. fgets_bounded H \<longrightarrow> sane_buffers z \<longrightarrow>
    r = Inr (u, z') \<longrightarrow> within (text_buffer z \<union> parse_buffer z) z z'", rule_format, OF _ assms(1)], goal_cases)
  case (1 loop H z r)
  obtain again z1 where s: "read_step H z = Inr (again, z1)"
    using 1(2,5) by (auto split: sum.splits)
  have w: "within (text_buffer z \<union> parse_buffer z) z z1"
    by (rule read_step_within [OF 1(3,4) s])
  show ?case
  proof (cases again)
    case True
    then have "loop H z1 = Some r"
      using 1(2) s by simp
    from 1(1) [OF this 1(3) _ 1(5)] same_buffers [OF w 1(4) refl] show ?thesis
      using within_trans [OF w] by simp
  qed (use 1(2,5) s w in auto)
qed (use assms in auto)


definition enter_host :: host where
  "enter_host = null_host\<lparr>os_call := (\<lambda>tr e. case e of
     Fgets n \<Rightarrow> if n \<le> 3 then \<lparr>os_ret = 0, os_errno = None, os_data = []\<rparr>
       else \<lparr>os_ret = 1, os_errno = None, os_data = [76, 79, 10]\<rparr>
   | _ \<Rightarrow> \<lparr>os_ret = 0, os_errno = None, os_data = []\<rparr>)\<rparr>"

definition prompting :: zmachine where
  "prompting = sample_machine (\<lambda>a. if a = 300 then 10 else if a = 320 then 4 else 0) [300, 320]"


end
