(* ===== verification/ZSafe.thy ===== *)
theory ZSafe
  imports ZExec ZBuffers
begin

text \<open>
  What every instruction keeps: the sizes of the machine's arrays and the chain of frames on the
  stack. The words of the frames that lie below the base pointer are never written, so a return
  always finds what its call left.
\<close>

section \<open>The invariant\<close>

text \<open>The frames on the stack, from base pointer and stack pointer down.\<close>

inductive frames :: "(nat \<Rightarrow> u16) \<Rightarrow> nat \<Rightarrow> nat \<Rightarrow> bool" where
  outermost: "frames st 0 k"
| routine: "5 \<le> b \<Longrightarrow> b + unat (st (b - 1)) \<le> k \<Longrightarrow> frames st (unat (st (b - 2))) (b - 5) \<Longrightarrow> frames st b k"

inductive_cases framesE: "frames st b k"

lemma frames_le: "frames st b k \<Longrightarrow> b \<le> k"
  by (erule frames.cases) simp_all

lemma frames_grow: "frames st b k \<Longrightarrow> k \<le> k' \<Longrightarrow> frames st b k'"
  by (erule frames.cases) (auto intro: frames.intros)

lemma frames_cong: "frames st b k \<Longrightarrow> (\<And>j. j < b \<Longrightarrow> st' j = st j) \<Longrightarrow> frames st' b k"
proof (induction rule: frames.induct)
  case (routine b st k)
  have "b - 1 < b" "b - 2 < b"
    using routine.hyps(1) by simp_all
  note e = routine.prems [OF this(1)] routine.prems [OF this(2)]
  have "frames st' (unat (st (b - 2))) (b - 5)"
    using frames_le [OF routine.hyps(3)] routine.hyps(1) by (intro routine.IH routine.prems) linarith
  then show ?case
    by (rule frames.routine [OF routine.hyps(1), of st' k, unfolded e, OF routine.hyps(2)])
qed (rule frames.outermost)

definition machine_ok :: "zmachine \<Rightarrow> bool" where
  "machine_ok z \<longleftrightarrow> length (operands z) = 8 \<and> operand_count z \<le> 8 \<and> length (alphabet_table z) = 78 \<and>
     version (header z) = 3 \<and> sp z \<le> STACK_SIZE \<and> frames (stack z) (unat (bp z)) (sp z)"

text \<open>A pointer through which a result may be stored.\<close>

definition ptr_ok :: "zptr \<Rightarrow> zmachine \<Rightarrow> bool" where
  "ptr_ok p z \<longleftrightarrow> (case p of In_story a \<Rightarrow> True | In_stack k \<Rightarrow> unat (bp z) \<le> k)"

definition ok_with :: "zptr \<Rightarrow> zmachine \<Rightarrow> bool" where
  "ok_with p z \<longleftrightarrow> machine_ok z \<and> ptr_ok p z"

text \<open>Predicates that do not look at what most operations change.\<close>

definition unaffected :: "(zmachine \<Rightarrow> bool) \<Rightarrow> bool" where
  "unaffected P \<longleftrightarrow> (\<forall>z. P z \<longrightarrow> (\<forall>m. P (z\<lparr>story := m\<rparr>)) \<and> (\<forall>p. P (z\<lparr>pc := p\<rparr>)) \<and> (\<forall>p. P (z\<lparr>logical_pc := p\<rparr>)) \<and>
     (\<forall>s. P (z\<lparr>printed := s\<rparr>)) \<and> (\<forall>s. P (z\<lparr>script := s\<rparr>)) \<and> (\<forall>s. P (z\<lparr>startup_script := s\<rparr>)) \<and>
     (\<forall>r. P (z\<lparr>random_seed := r\<rparr>)) \<and> (\<forall>w. P (z\<lparr>current_window := w\<rparr>)) \<and> (\<forall>n. P (z\<lparr>upper_window_line_count := n\<rparr>)) \<and>
     (\<forall>n. P (z\<lparr>instructions_run := n\<rparr>)) \<and> (\<forall>q s. P (z\<lparr>quit := q, step_completed := s\<rparr>)) \<and>
     (\<forall>H e. P (snd (syscall H e z))))"

lemma unaffected_ok: "unaffected machine_ok" "unaffected (ok_with p)"
proof -
  have call: "operand_count (snd (syscall H e z)) = operand_count z" "alphabet_table (snd (syscall H e z)) = alphabet_table z" for H e z
    by (simp_all add: syscall_def emit_def Let_def)
  show "unaffected machine_ok" "unaffected (ok_with p)"
    by (simp_all add: unaffected_def ok_with_def machine_ok_def ptr_ok_def call split: zptr.split)
qed

section \<open>Operations that do not touch the stack\<close>

named_theorems keep_rules \<open>what keeps a predicate that is not affected\<close>

lemmas [keep_rules] = zkeeps_basic zkeeps_bind zkeeps_if zkeeps_when zkeeps_case zkeeps_ld_byte zkeeps_READUI16
  zkeeps_unpackAddress zkeeps_read zkeeps_zlift zkeeps_operand

text \<open>What such a predicate is kept by, shown once for all of them.\<close>

locale untouched =
  fixes P :: "zmachine \<Rightarrow> bool"
  assumes untouched: "unaffected P"
begin

lemma keep_zmod [keep_rules]:
  shows "zkeeps P (zmod (\<lambda>z. z\<lparr>story := m z\<rparr>))" "zkeeps P (zmod (\<lambda>z. z\<lparr>pc := f z\<rparr>))"
    "zkeeps P (zmod (\<lambda>z. z\<lparr>logical_pc := l z\<rparr>))" "zkeeps P (zmod (\<lambda>z. z\<lparr>printed := s z\<rparr>))"
    "zkeeps P (zmod (\<lambda>z. z\<lparr>script := c z\<rparr>))" "zkeeps P (zmod (\<lambda>z. z\<lparr>startup_script := u z\<rparr>))"
    "zkeeps P (zmod (\<lambda>z. z\<lparr>random_seed := r z\<rparr>))" "zkeeps P (zmod (\<lambda>z. z\<lparr>current_window := w z\<rparr>))"
    "zkeeps P (zmod (\<lambda>z. z\<lparr>upper_window_line_count := n z\<rparr>))" "zkeeps P (zmod (\<lambda>z. z\<lparr>instructions_run := i z\<rparr>))"
    "zkeeps P (zmod (\<lambda>z. z\<lparr>quit := q z, step_completed := t z\<rparr>))"
  by (rule zkeeps_zmod; use untouched in \<open>simp add: unaffected_def\<close>)+

lemma keep_st_byte [keep_rules]: "zkeeps P (st_byte a v)"
  by (rule zkeeps_st_byte) (use untouched in \<open>simp add: unaffected_def\<close>)

lemma keep_call_host [keep_rules]: "zkeeps P (call_host H e)"
  by (rule zkeepsI) (use untouched in \<open>auto simp: call_host_run unaffected_def\<close>)

lemma keep_let: "zkeeps P (f v) \<Longrightarrow> zkeeps P (Let v f)"
  by simp

lemma keep_syscall [keep_rules]: "zkeeps P (\<lambda>z. let (r, z') = syscall H e z in Inr (f r, z'))"
proof (rule zkeepsI)
  fix z x z' assume P: "P z" and r: "(let (r, z') = syscall H e z in Inr (f r, z')) = Inr (x, z')"
  have "P (snd (syscall H e z))"
    using P untouched unfolding unaffected_def by blast
  then show "P z'"
    using r by (cases "syscall H e z") simp
qed

lemma keep_accesses [keep_rules]:
  shows "zkeeps P (WRITEUI16 a v)" "zkeeps P next_pc" "zkeeps P next_pc16" "zkeeps P (writestr s)"
    "zkeeps P (getObjectPtr i)" "zkeeps P (ld_stack k)"
    "zkeeps P m \<Longrightarrow> zkeeps P (v3_only m)"
proof -
  show "zkeeps P (ld_stack k)"
    by (auto simp: zkeeps_def ld_stack_def split: if_splits)
qed (unfold WRITEUI16_def next_pc_def next_pc16_def writestr_def getObjectPtr_def v3_only_def;
  intro keep_rules)+

lemma keep_ld_var [keep_rules]: "zkeeps P (ld_var p)"
  unfolding ld_var_def by (cases p) (auto intro!: keep_rules)

lemma keep_find_link [keep_rules]: "zkeeps P (\<lambda>z. loop_result (find_link i p z))"
proof (rule zkeepsI)
  fix z x z' assume z: "P z" and r: "loop_result (find_link i p z) = Inr (x, z')"
  obtain q where q: "find_link i p z = Some q" "q = Inr (x, z')"
    using r by (auto simp: loop_result_def split: option.splits)
  have "\<forall>y. q = Inr y \<longrightarrow> snd y = z"
  proof (rule find_link.raw_induct [where P = "\<lambda>i p z q. \<forall>y. q = Inr y \<longrightarrow> snd y = z", OF _ q(1)], goal_cases)
    case (1 loop i p z q)
    show ?case
    proof (intro allI impI)
      fix y assume "q = Inr y"
      with 1(2) show "snd y = z"
        by (auto simp: ld_byte_def getObjectPtr_def zop_simps zbind_def dest!: 1(1) split: if_splits sum.splits)
    qed
  qed
  then show "P z'"
    using q z by auto
qed

lemma keep_objects [keep_rules]:
  shows "zkeeps P (getObjectPtrParent o1)" "zkeeps P (unparentObject i)" "zkeeps P (getObjectRelationship i k)"
    "zkeeps P (getObjectProperty i q)" "zkeeps P (getObjectShortName i)" "zkeeps P (getDefaultObjectProperty d)"
proof -
  show 1: "zkeeps P (getObjectPtrParent o1)" for o1
    unfolding getObjectPtrParent_def by (intro keep_rules)
  show "zkeeps P (unparentObject i)"
    unfolding unparentObject_def Let_def by (intro keep_rules 1)
qed (unfold getObjectRelationship_def getObjectProperty_def getObjectShortName_def getDefaultObjectProperty_def;
  intro keep_rules)+

lemma keep_object_ops [keep_rules]:
  shows "zkeeps P opcode_set_attr" "zkeeps P opcode_clear_attr" "zkeeps P opcode_insert_obj" "zkeeps P opcode_remove_obj"
    "zkeeps P opcode_put_prop" "zkeeps P opcode_storew" "zkeeps P opcode_storeb" "zkeeps P opcode_jump"
    "zkeeps P opcode_split_window" "zkeeps P opcode_set_window" "zkeeps P opcode_quit" "zkeeps P opcode_nop"
    "zkeeps P opcode_show_status"
  by (unfold opcode_set_attr_def opcode_clear_attr_def opcode_insert_obj_def opcode_remove_obj_def opcode_put_prop_def
      opcode_storew_def opcode_storeb_def opcode_jump_def opcode_split_window_def opcode_set_window_def opcode_quit_def
      opcode_nop_def opcode_show_status_def updateStatusBar_def Let_def; intro keep_rules)+

lemma keep_print_zscii [keep_rules]: "zkeeps P (print_zscii H a)"
  unfolding print_zscii_def by (intro keep_rules)

lemma keep_printing [keep_rules]:
  shows "zkeeps P opcode_new_line" "zkeeps P (opcode_print H)" "zkeeps P opcode_print_num"
    "zkeeps P opcode_print_char" "zkeeps P (opcode_print_obj H)" "zkeeps P (opcode_print_addr H)"
    "zkeeps P (opcode_print_paddr H)"
  by (unfold opcode_new_line_def opcode_print_def opcode_print_num_def opcode_print_char_def opcode_print_obj_def
    opcode_print_addr_def opcode_print_paddr_def Let_def; intro keep_rules)+

section \<open>Input\<close>

lemma keep_store_bytes [keep_rules]: "zkeeps P (store_bytes a bs)"
  by (induction bs arbitrary: a) (auto intro!: keep_rules)

lemma keep_random [keep_rules]: "zkeeps P (doRandom H r)"
proof -
  have "zkeeps P randomNumber"
    by (rule zkeepsI) (use untouched in \<open>auto simp: randomNumber_def unaffected_def Let_def\<close>)
  then show ?thesis
    unfolding doRandom_def by (intro keep_rules keep_let)
qed

lemma keep_store_token [keep_rules]: "zkeeps P (store_token d s p q)"
  unfolding store_token_def Let_def by (intro keep_rules)

lemma keep_lower_line [keep_rules]: "zkeeps P (lower_line a)"
proof (rule zkeepsI)
  fix z x z' assume "P z" "lower_line a z = Inr (x, z')"
  with untouched show "P z'"
  proof (induction a z rule: lower_line.induct)
    case (1 a z)
    from 1(3) have st: "P y \<Longrightarrow> P (y\<lparr>story := m\<rparr>)" for y m
      by (simp add: unaffected_def)
    show ?case
      using 1(5) [unfolded lower_line.simps [of a z] Let_def] 1(1) [OF _ refl _ _ 1(3) st [OF 1(4)]] 1(2) [OF _ refl _ _ _ 1(3,4)]
        st [OF 1(4)] 1(4)
      by (auto split: if_splits)
  qed
qed

lemma keep_tokenize [keep_rules]: "zkeeps P (tokenize d n s ptr q)"
proof (rule zkeepsI)
  fix z x z' assume "P z" "tokenize d n s ptr q z = Inr (x, z')"
  with untouched show "P z'"
  proof (induction d n s ptr q z rule: tokenize.induct)
    case (1 d n s ptr q z)
    have keep: "store_token d s ptr q z = Inr (u, z1) \<Longrightarrow> P z1" for u z1
      using zkeepsD [OF keep_store_token _ 1(4)] by blast
    obtain ch where ch: "ld_byte ptr z = Inr (ch, z)"
      using 1(5) [unfolded tokenize.simps [of d n s ptr q z]] by (auto simp: ld_byte_def split: if_splits)
    obtain b where sep: "is_separator d ch z = Inr (b, z)"
      using 1(5) [unfolded tokenize.simps [of d n s ptr q z]] ch reads_only [of d ch z] by (auto split: sum.splits prod.splits)
    show ?case
    proof (cases b)
      case False
      then show ?thesis
        using 1(5) [unfolded tokenize.simps [of d n s ptr q z]] ch sep 1(2) [OF ch refl sep refl _ 1(3,4)] by simp
    next
      case True
      then have "b = True" by simp
      from 1(1) [OF ch refl sep refl this] show ?thesis
        using 1(5) [unfolded tokenize.simps [of d n s ptr q z]] ch sep True 1(3,4) keep
        by (auto split: if_splits sum.splits)
    qed
  qed
qed

lemma keep_input [keep_rules]:
  shows "zkeeps P tokenizeUserInput" "zkeeps P (read_input H a n)" "zkeeps P (load_script H fname)"
proof -
  have d: "zkeeps P read_dictionary"
    unfolding read_dictionary_def by (intro keep_rules)
  show "zkeeps P tokenizeUserInput"
    unfolding tokenizeUserInput_def by (intro keep_rules d)
qed (unfold read_input_def read_startup_def read_terminal_def read_script_def load_script_def; intro keep_rules)+

lemma keep_read_step: "zkeeps P (read_step H)"
  unfolding read_step_def updateStatusBar_def by (intro keep_rules)

lemma keep_read [keep_rules]: "zkeeps P (opcode_read H)"
proof (rule zkeepsI)
  fix z x z' assume P: "P z" and r: "opcode_read H z = Inr (x, z')"
  obtain q where q: "read_loop H z = Some q" "q = Inr (x, z')"
    using r by (auto simp: opcode_read_def loop_result_def split: option.splits)
  show "P z'"
  proof (rule read_loop.raw_induct [where P = "\<lambda>H z q. P z \<longrightarrow> q = Inr (x, z') \<longrightarrow> P z'", rule_format, OF _ q(1)], goal_cases)
    case (1 loop H z q)
    obtain again z1 where s: "read_step H z = Inr (again, z1)"
      using 1(2,4) by (auto split: sum.splits)
    have "P z1"
      by (rule zkeepsD [OF keep_read_step s 1(3)])
    then show ?case
      using 1(1) [of H z1 q] 1(2,4) s by (auto split: if_splits)
  qed (use P q in auto)
qed

lemma keep_file_write [keep_rules]: "zkeeps P (file_write H io d)"
  unfolding file_write_def by (intro keep_rules)

end

interpretation ok: untouched machine_ok
  by unfold_locales (rule unaffected_ok)

interpretation okp: untouched "ok_with p" for p
  by unfold_locales (rule unaffected_ok)

section \<open>Operations on the stack\<close>

text \<open>\<open>gives P m Q\<close>: run from \<open>P\<close>, an operation that returns has a result and a state that satisfy \<open>Q\<close>.\<close>

definition gives :: "(zmachine \<Rightarrow> bool) \<Rightarrow> 'a zop \<Rightarrow> ('a \<Rightarrow> zmachine \<Rightarrow> bool) \<Rightarrow> bool" where
  "gives P m Q \<longleftrightarrow> (\<forall>z x z'. P z \<longrightarrow> m z = Inr (x, z') \<longrightarrow> Q x z')"

lemma givesI: "(\<And>z x z'. P z \<Longrightarrow> m z = Inr (x, z') \<Longrightarrow> Q x z') \<Longrightarrow> gives P m Q"
  by (auto simp: gives_def)

lemma givesD: "gives P m Q \<Longrightarrow> P z \<Longrightarrow> m z = Inr (x, z') \<Longrightarrow> Q x z'"
  by (auto simp: gives_def)

lemma gives_bind: "gives P m R \<Longrightarrow> (\<And>x. gives (R x) (f x) Q) \<Longrightarrow> gives P (zbind m f) Q"
proof (rule givesI)
  fix z y z' assume m: "gives P m R" and f: "\<And>x. gives (R x) (f x) Q" and z: "P z" "zbind m f z = Inr (y, z')"
  obtain x z1 where r: "m z = Inr (x, z1)" "f x z1 = Inr (y, z')"
    using z(2) unfolding zbind_Inr by blast
  show "Q y z'"
    by (rule givesD [OF f givesD [OF m z(1) r(1)] r(2)])
qed

lemma zkeeps_gives: "zkeeps P m \<longleftrightarrow> gives P m (\<lambda>_. P)"
  by (simp add: zkeeps_def gives_def)

lemma varAddress_gives: "gives machine_ok (varAddress v w) ok_with"
proof (rule givesI)
  fix z p z' assume z: "machine_ok z" and r: "varAddress v w z = Inr (p, z')"
  have f: "frames (stack z) (unat (bp z)) (sp z)" and sp: "sp z \<le> STACK_SIZE"
    using z by (simp_all add: machine_ok_def)
  consider "v = 0" "w" | "v = 0" "\<not> w" | "v \<noteq> 0" by blast
  then show "ok_with p z'"
  proof cases
    case 1
    then have "p = In_stack (sp z)" "z' = z\<lparr>sp := sp z + 1\<rparr>" "sp z < STACK_SIZE"
      using r by (auto simp: varAddress_def split: if_splits)
    then show ?thesis
      using z f frames_le [OF f] frames_grow [OF f, of "Suc (sp z)"] by (simp add: ok_with_def machine_ok_def ptr_ok_def)
  next
    case 2
    let ?n = "if bp z = 0 then 0 else unat (stack z (unat (bp z) - 1))"
    from 2 have "p = In_stack (sp z - 1) \<and> z' = z\<lparr>sp := sp z - 1\<rparr> \<and> unat (bp z) + ?n < sp z"
      using r by (auto simp: varAddress_def zbind_Inr zop_simps ld_stack_def split: if_splits)
    moreover from this have "frames (stack z) (unat (bp z)) (sp z - 1)"
      by (cases rule: framesE [OF f]) (auto intro: frames.intros split: if_splits)
    moreover from calculation have "sp z - 1 \<le> STACK_SIZE" "unat (bp z) \<le> sp z - 1"
      using sp by linarith+
    ultimately show ?thesis
      using z by (simp add: ok_with_def machine_ok_def ptr_ok_def)
  next
    case 3
    then have "z' = z" "\<forall>k. p = In_stack k \<longrightarrow> unat (bp z) \<le> k"
      using r by (auto simp: varAddress_def zbind_Inr zop_simps ld_stack_def split: if_splits)
    then show ?thesis
      using z by (simp add: ok_with_def ptr_ok_def split: zptr.split)
  qed
qed

lemma keep_st_var: "zkeeps (ok_with p) (st_var p v)"
proof (cases p)
  case (In_story a)
  then show ?thesis
    by (auto simp: st_var_def intro!: keep_rules)
next
  case (In_stack k)
  show ?thesis
  proof (rule zkeepsI)
    fix z x z' assume z: "ok_with p z" and r: "st_var p v z = Inr (x, z')"
    have z': "z' = z\<lparr>stack := (stack z)(k := swap16 v)\<rparr>"
      using r In_stack by (simp add: st_var_def st_stack_def split: if_splits)
    have "frames (stack z) (unat (bp z)) (sp z)" "unat (bp z) \<le> k"
      using z In_stack by (simp_all add: ok_with_def machine_ok_def ptr_ok_def)
    then have "frames ((stack z)(k := swap16 v)) (unat (bp z)) (sp z)"
      by (auto elim: frames_cong)
    then show "ok_with p z'"
      using z In_stack by (simp add: z' ok_with_def machine_ok_def ptr_ok_def)
  qed
qed

named_theorems ok_rules \<open>operations that end in a machine that is in order\<close>

text \<open>A result may be stored once, and then the machine runs on.\<close>

lemma ends_keep: "zkeeps machine_ok m \<Longrightarrow> gives (ok_with p) m (\<lambda>_. machine_ok)"
  by (auto simp: zkeeps_def gives_def ok_with_def)

lemma ends_store [ok_rules]: "gives (ok_with p) (st_var p v) (\<lambda>_. machine_ok)"
  using keep_st_var [of p v] unfolding zkeeps_def gives_def ok_with_def by blast

lemma ends_bind: "zkeeps (ok_with p) m \<Longrightarrow> (\<And>x. gives (ok_with p) (f x) (\<lambda>_. machine_ok)) \<Longrightarrow>
    gives (ok_with p) (zbind m f) (\<lambda>_. machine_ok)"
  unfolding zkeeps_gives by (rule gives_bind)

lemma ends_cases [ok_rules]:
  "gives P m1 Q \<Longrightarrow> gives P m2 Q \<Longrightarrow> gives P (if c then m1 else m2) Q"
  "gives P m3 Q \<Longrightarrow> (\<And>x. gives P (m4 x) Q) \<Longrightarrow> gives P (case r of None \<Rightarrow> m3 | Some x \<Rightarrow> m4 x) Q"
  "(\<And>x y. gives P (m5 x y) Q) \<Longrightarrow> gives P (case u of (x, y) \<Rightarrow> m5 x y) Q"
  by (auto split: option.splits prod.splits)

lemma stop_gives [ok_rules]: "gives P zdie Q" "gives P (zfail e) Q"
  by (simp_all add: gives_def zop_simps)

lemma with_address:
  "(\<And>p. gives (ok_with p) (f p) (\<lambda>_. machine_ok)) \<Longrightarrow> zkeeps machine_ok (zbind (varAddress v w) f)"
  unfolding zkeeps_gives by (rule gives_bind [OF varAddress_gives])

lemma with_store_address:
  assumes "\<And>p. gives (ok_with p) (f p) (\<lambda>_. machine_ok)"
  shows "zkeeps machine_ok (zbind store_address f)"
proof -
  have "zkeeps machine_ok next_pc"
    by (intro keep_rules)
  then have "gives machine_ok store_address ok_with"
    unfolding store_address_def zkeeps_gives by (rule gives_bind) (rule varAddress_gives)
  then show ?thesis
    unfolding zkeeps_gives by (rule gives_bind) (rule assms)
qed

text \<open>The caller's machine, as a return puts it back.\<close>

definition popped :: "zmachine \<Rightarrow> zmachine" where
  "popped z = (let b = unat (bp z) in z\<lparr>bp := stack z (b - 2),
     pc := uint ((ucast (stack z (b - 4)) :: u32) OR push_bit 16 (ucast (stack z (b - 3)))), sp := b - 5\<rparr>)"

lemma doReturn_popped:
  assumes z: "machine_ok z" and n: "bp z \<noteq> 0"
  shows "5 \<le> unat (bp z)" "unat (bp z) \<le> sp z" "sp z \<le> STACK_SIZE" "machine_ok (popped z)"
    "doReturn v z = zbind (varAddress (ucast (stack z (unat (bp z) - 5))) True) (\<lambda>store. st_var store v) (popped z)"
proof -
  let ?b = "unat (bp z)"
  have f: "frames (stack z) ?b (sp z)" and sp: "sp z \<le> STACK_SIZE"
    using z by (simp_all add: machine_ok_def)
  have n: "?b \<noteq> 0"
    using n by (simp add: unat_eq_0)
  then have b: "5 \<le> ?b" "?b \<le> sp z"
    using frames_le [OF f] by (cases rule: framesE [OF f]; simp)+
  then have lt: "?b - 2 < STACK_SIZE" "?b - 3 < STACK_SIZE" "?b - 4 < STACK_SIZE" "?b - 5 < STACK_SIZE"
    using sp by linarith+
  show "5 \<le> ?b" "?b \<le> sp z" "sp z \<le> STACK_SIZE"
    by (fact b sp)+
  show "doReturn v z = zbind (varAddress (ucast (stack z (?b - 5))) True) (\<lambda>store. st_var store v) (popped z)"
    using b n by (simp add: doReturn_def popped_def zop_simps lt Let_def)
  have "frames (stack z) (unat (stack z (?b - 2))) (?b - 5)"
    using b by (cases rule: framesE [OF f]) simp_all
  moreover have "?b - 5 \<le> STACK_SIZE"
    using b sp by simp
  ultimately show "machine_ok (popped z)"
    using z by (simp add: machine_ok_def popped_def Let_def)
qed

lemma keep_doReturn: "zkeeps machine_ok (doReturn v)"
proof (rule zkeepsI)
  fix z x z' assume z: "machine_ok z" and r: "doReturn v z = Inr (x, z')"
  have n: "bp z \<noteq> 0"
  proof
    assume "bp z = 0"
    then have "doReturn v z = Inl (Exited 1)"
      by (simp add: doReturn_def zop_simps)
    with r show False by simp
  qed
  have st: "zbind (varAddress (ucast (stack z (unat (bp z) - 5))) True) (\<lambda>store. st_var store v) (popped z) = Inr (x, z')"
    using r doReturn_popped(5) [OF z n, of v] by simp
  have k: "zkeeps machine_ok (zbind (varAddress (ucast (stack z (unat (bp z) - 5))) True) (\<lambda>store. st_var store v))"
    by (intro with_address ok_rules)
  show "machine_ok z'"
    by (rule zkeepsD [OF k st doReturn_popped(4) [OF z n]])
qed

lemma keep_doBranch: "zkeeps machine_ok (doBranch t)"
  unfolding doBranch_def Let_def by (intro keep_rules keep_doReturn)

section \<open>Every operation\<close>

lemmas ok_parts = keep_rules keep_doReturn keep_doBranch

lemma ok_branches:
  "zkeeps machine_ok opcode_je" "zkeeps machine_ok opcode_jz" "zkeeps machine_ok opcode_jl" "zkeeps machine_ok opcode_jg"
  "zkeeps machine_ok opcode_test" "zkeeps machine_ok opcode_jin" "zkeeps machine_ok opcode_test_attr"
  "zkeeps machine_ok opcode_ret" "zkeeps machine_ok opcode_rtrue" "zkeeps machine_ok opcode_rfalse"
  "zkeeps machine_ok (opcode_print_ret H)" "zkeeps machine_ok opcode_verify"
  by (unfold opcode_je_def opcode_jz_def opcode_jl_def opcode_jg_def opcode_test_def opcode_jin_def opcode_test_attr_def
      opcode_ret_def opcode_rtrue_def opcode_rfalse_def opcode_print_ret_def opcode_print_def opcode_verify_def;
    intro ok_parts)+

lemma ok_save: "zkeeps machine_ok (opcode_save H)"
  unfolding opcode_save_def by (intro ok_parts ok.keep_let)

lemma ok_results:
  "zkeeps machine_ok opcode_add" "zkeeps machine_ok opcode_sub" "zkeeps machine_ok opcode_mul" "zkeeps machine_ok opcode_div"
  "zkeeps machine_ok opcode_mod" "zkeeps machine_ok opcode_or" "zkeeps machine_ok opcode_and" "zkeeps machine_ok opcode_not"
  "zkeeps machine_ok opcode_loadw" "zkeeps machine_ok opcode_loadb" "zkeeps machine_ok opcode_get_parent"
  "zkeeps machine_ok opcode_get_prop" "zkeeps machine_ok opcode_get_prop_addr" "zkeeps machine_ok opcode_get_prop_len"
  "zkeeps machine_ok (opcode_random H)"
  by (unfold opcode_add_def opcode_sub_def opcode_mul_def opcode_div_def opcode_mod_def opcode_or_def opcode_and_def
      opcode_not_def opcode_loadw_def opcode_loadb_def opcode_get_parent_def opcode_get_prop_def opcode_get_prop_addr_def
      opcode_get_prop_len_def opcode_random_def v3_only_def;
    intro with_store_address ends_bind ok_rules keep_rules)+

lemma ok_get_next_prop: "zkeeps machine_ok opcode_get_next_prop"
  unfolding opcode_get_next_prop_def v3_only_def
  by (intro with_store_address ends_bind ok_rules keep_rules)

lemma ok_relatives: "zkeeps machine_ok opcode_get_sibling" "zkeeps machine_ok opcode_get_child"
  unfolding opcode_get_sibling_def opcode_get_child_def
  by (intro with_store_address ends_bind keep_st_var ends_keep keep_doBranch keep_rules)+

lemma ok_variables:
  "zkeeps machine_ok opcode_push" "zkeeps machine_ok opcode_store" "zkeeps machine_ok opcode_pop"
  "zkeeps machine_ok opcode_load" "zkeeps machine_ok opcode_ret_popped" "zkeeps machine_ok opcode_pull"
  "zkeeps machine_ok (change_var k)"
proof -
  have keep: "gives (ok_with p) m (\<lambda>_. machine_ok)" if "zkeeps machine_ok m" for p and m :: "'a zop"
    using that by (rule ends_keep)
  show "zkeeps machine_ok opcode_push"
    unfolding opcode_push_def by (intro with_address ends_bind ok_rules keep_rules)
  show "zkeeps machine_ok opcode_store"
    unfolding opcode_store_def by (intro zkeeps_bind with_address ends_bind ok_rules keep_rules)
  show "zkeeps machine_ok opcode_pop"
    unfolding opcode_pop_def by (intro with_address ends_keep ok_parts)
  have "gives (ok_with p) (zbind store_address (\<lambda>store. st_var store v)) (\<lambda>_. machine_ok)" for p v
    by (intro ends_keep with_store_address ok_rules)
  then show "zkeeps machine_ok opcode_load"
    unfolding opcode_load_def
    by (intro zkeeps_bind [OF zkeeps_operand] with_address ends_bind [OF okp.keep_ld_var])
  show "zkeeps machine_ok opcode_ret_popped"
    unfolding opcode_ret_popped_def
    by (intro with_address ends_bind ends_keep keep_doReturn) (intro keep_rules)
  have "zkeeps machine_ok (zbind (varAddress v True) (\<lambda>_. zfail e))" for v e
    by (intro with_address ok_rules)
  then show "zkeeps machine_ok opcode_pull"
    unfolding opcode_pull_def by (intro with_address ends_bind ends_keep) (intro keep_rules)+
  have "gives (ok_with p) (zbind (st_var p w) (\<lambda>_. zret w)) (\<lambda>_. machine_ok)" for p w
    by (intro ends_bind keep_st_var ends_keep zkeeps_basic)
  then show "zkeeps machine_ok (change_var k)"
    unfolding change_var_def Let_def
    by (intro zkeeps_bind [OF zkeeps_operand] with_address ends_bind [OF okp.keep_ld_var])
qed

lemma ok_counters:
  "zkeeps machine_ok opcode_inc" "zkeeps machine_ok opcode_dec" "zkeeps machine_ok opcode_inc_chk" "zkeeps machine_ok opcode_dec_chk"
  by (unfold opcode_inc_def opcode_dec_def opcode_inc_chk_def opcode_dec_chk_def; intro ok_parts ok_variables)+

text \<open>A call leaves a frame on top of the caller's.\<close>

lemma push_word_Inr:
  "push_word v z = Inr (x, z') \<longleftrightarrow> sp z < STACK_SIZE \<and> z' = z\<lparr>stack := (stack z)(sp z := v), sp := sp z + 1\<rparr>"
  by (auto simp: push_word_def zop_simps zbind_def st_stack_def)

lemma push_words_Inr:
  assumes "push_words vs z = Inr (x, z')" "sp z \<le> STACK_SIZE"
  shows "sp z + length vs \<le> STACK_SIZE \<and> z' = z\<lparr>stack := laid (stack z) (sp z) vs, sp := sp z + length vs\<rparr>"
proof -
  have "push_words vs z = Inr (x, z') \<Longrightarrow> sp z \<le> STACK_SIZE \<Longrightarrow> sp z + length vs \<le> STACK_SIZE" for z
  proof (induction vs arbitrary: z)
    case (Cons v vs)
    then show ?case
      by (fastforce simp: zbind_Inr push_word_Inr)
  qed simp
  from this [OF assms] show ?thesis
    using push_words_ok [of z vs] assms(1) by simp
qed

lemma store_args_frame:
  "store_args k vs z = Inr (x, z') \<Longrightarrow> (\<exists>st. z' = z\<lparr>stack := st\<rparr> \<and> (\<forall>j < k. st j = stack z j))"
proof (induction vs arbitrary: k z)
  case Nil
  then show ?case
    by (auto simp: zop_simps intro!: exI [of _ "stack z"])
next
  case (Cons v vs)
  then obtain z1 where 1: "z1 = z\<lparr>stack := (stack z)(k := swap16 v)\<rparr>" "store_args (k + 1) vs z1 = Inr (x, z')"
    by (auto simp: zbind_Inr st_stack_def split: if_splits)
  from Cons.IH [OF 1(2)] obtain st where "z' = z1\<lparr>stack := st\<rparr>" "\<forall>j < k + 1. st j = stack z1 j"
    by blast
  then show ?case
    unfolding 1(1) by (intro exI [of _ st]) simp
qed

lemma frames_call:
  assumes "frames st b k" "\<And>j. j < b \<Longrightarrow> st' j = st j" "unat (st' (k + 3)) = b" "unat (st' (k + 4)) \<le> n"
  shows "frames st' (k + 5) (k + 5 + n)"
proof -
  have "frames st' b k"
    by (rule frames_cong [OF assms(1,2)])
  then show ?thesis
    using assms(3,4) frames.routine [of "k + 5" st' "k + 5 + n"] by (simp add: add.commute [of 4 k] add.commute [of 3 k])
qed

lemma length_read_locals: "read_locals n a z = Inr (ws, z') \<Longrightarrow> length ws = n \<and> z' = z"
proof (induction n arbitrary: a ws z')
  case (Suc n)
  have "z1 = z" if "READUI16 a z = Inr (w, z1)" for w z1
    using zkeepsD [OF zkeeps_READUI16 [of "\<lambda>y. y = z"] that] by simp
  with Suc show ?case
    by (fastforce simp: zbind_Inr zop_simps)
qed (simp add: zop_simps)

lemma call_tail:
  assumes tail: "zbind (read_locals n a) (\<lambda>ws. zbind (push_words ws) (\<lambda>_. zbind (zget (\<lambda>z. unat (bp z))) (\<lambda>dst.
      zbind (store_args dst vs) (\<lambda>_. zmod (\<lambda>z. z\<lparr>pc := q\<rparr>))))) y = Inr (x, z')"
    and y: "sp y = k + 5" "unat (bp y) = k + 5" "k + 5 \<le> STACK_SIZE"
  shows "\<exists>st. z' = y\<lparr>sp := k + 5 + n, stack := st, pc := q\<rparr> \<and> (\<forall>j < k + 5. st j = stack y j) \<and> k + 5 + n \<le> STACK_SIZE"
proof -
  obtain ws y1 y2 y3 where 1: "read_locals n a y = Inr (ws, y1)" and 2: "push_words ws y1 = Inr ((), y2)"
    and 3: "store_args (unat (bp y2)) vs y2 = Inr ((), y3)" and z': "z' = y3\<lparr>pc := q\<rparr>"
    using tail by (elim zbindE) (simp add: zop_simps)
  have ws: "length ws = n" "y1 = y"
    using length_read_locals [OF 1] by simp_all
  have y2: "k + 5 + n \<le> STACK_SIZE" "y2 = y\<lparr>stack := laid (stack y) (k + 5) ws, sp := k + 5 + n\<rparr>"
    using push_words_Inr [OF 2] y(1,3) ws by simp_all
  obtain st where st: "y3 = y2\<lparr>stack := st\<rparr>" "\<forall>j < k + 5. st j = stack y2 j"
    using store_args_frame [OF 3] y(2) y2(2) by auto
  show ?thesis
    using y2 st z' by (intro exI [of _ st]) (simp add: laid_def)
qed

lemma ok_call: "zkeeps machine_ok opcode_call"
proof (rule zkeepsI)
  fix z x z' assume z: "machine_ok z" and r: "opcode_call z = Inr (x, z')"
  show "machine_ok z'"
  proof (cases "operand_count z = 0 \<or> operands z ! 0 = 0")
    case True
    then have 0: "zbind store_address (\<lambda>store. st_var store 0) z = Inr (x, z')"
      using r by (auto simp: opcode_call_def store_address_def zbind_assoc zop_simps)
    have k: "zkeeps machine_ok (zbind store_address (\<lambda>store. st_var store 0))"
      by (intro with_store_address ok_rules)
    show ?thesis
      by (rule zkeepsD [OF k 0 z])
  next
    case False
    have f: "frames (stack z) (unat (bp z)) (sp z)" and v: "version (header z) = 3" "version (header z) \<le> 3"
      using z by (simp_all add: machine_ok_def)
    obtain sid where pc: "next_pc z = Inr (sid, z\<lparr>pc := pc z + 1\<rparr>)"
      using r by (cases "in_story z (pc z)") (auto simp: opcode_call_def zbind_def zop_simps next_pc_def ld_byte_def)
    define y where "y n = z\<lparr>pc := pc z + 1, logical_pc := ucast (operands z ! 0) * 2 + 1,
        stack := (stack z)(sp z := ucast sid, Suc (sp z) := ucast (word_of_int (pc z) + 1 AND 65535 :: u32),
          Suc (Suc (sp z)) := ucast (drop_bit 16 (word_of_int (pc z) + 1 :: u32) AND 65535),
          Suc (Suc (Suc (sp z))) := bp z, Suc (Suc (Suc (Suc (sp z)))) := ucast (n :: u8)),
        sp := Suc (Suc (Suc (Suc (Suc (sp z))))), bp := 5 + word_of_nat (sp z)\<rparr>" for n
    obtain n vs q a where room: "sp z + 5 \<le> STACK_SIZE" and tail: "zbind (read_locals (unat n) a) (\<lambda>ws. zbind (push_words ws)
        (\<lambda>_. zbind (zget (\<lambda>z. unat (bp z))) (\<lambda>dst. zbind (store_args dst vs) (\<lambda>_. zmod (\<lambda>z. z\<lparr>pc := q\<rparr>))))) (y n) = Inr (x, z')"
      using r False v
      apply (simp add: opcode_call_def zop_simps pc Let_def)
      apply (erule zbindE)
      apply (clarsimp simp: zop_simps ld_byte_def split: if_splits)
      apply (erule zbindE, clarsimp simp: push_word_Inr zop_simps Let_def)+
      apply (auto simp: y_def Suc_le_eq)
      done
    have "unat (5 + word_of_nat (sp z) :: u16) = sp z + 5"
    proof -
      have "unat (word_of_nat (sp z + 5) :: u16) = sp z + 5"
        using room unfolding unsigned_of_nat STACK_SIZE_def by (simp add: take_bit_nat_eq_self)
      then show ?thesis
        by (simp add: add.commute)
    qed
    then obtain st where z': "z' = (y n)\<lparr>sp := sp z + 5 + unat n, stack := st, pc := q\<rparr>" "sp z + 5 + unat n \<le> STACK_SIZE"
      and st: "\<forall>j < sp z + 5. st j = stack (y n) j"
      using call_tail [OF tail, of "sp z"] room by (auto simp: y_def)
    have "frames st (sp z + 5) (sp z + 5 + unat n)"
    proof (rule frames_call [OF f])
      show "st j = stack z j" if "j < unat (bp z)" for j
        using st frames_le [OF f] that by (simp add: y_def)
      show "unat (st (sp z + 3)) = unat (bp z)" "unat (st (sp z + 4)) \<le> unat n"
        using st by (simp_all add: y_def unsigned_ucast_eq)
    qed
    moreover have "unat (bp z') = sp z + 5"
      using \<open>unat (5 + word_of_nat (sp z) :: u16) = sp z + 5\<close> by (simp add: z' y_def)
    ultimately show ?thesis
      using z z'(2) by (simp add: machine_ok_def z'(1)) (simp add: y_def)
  qed
qed

section \<open>Starting up\<close>

lemma length_alphabet: "version (header z) \<noteq> 1 \<Longrightarrow> length (alphabet_table (initAlphabetTable z)) = 78"
  by (simp add: initAlphabetTable_def alphabet_A2_def)

lemma init_tables [simp]:
  "header (initAlphabetTable z) = header z" "operands (initAlphabetTable z) = operands z"
  "operand_count (initAlphabetTable z) = operand_count z" "stack (initAlphabetTable z) = stack z"
  "header (initOpcodeTable z) = header z" "operands (initOpcodeTable z) = operands z"
  "operand_count (initOpcodeTable z) = operand_count z" "stack (initOpcodeTable z) = stack z"
  "alphabet_table (initOpcodeTable z) = alphabet_table z"
  by (simp_all add: initAlphabetTable_def initOpcodeTable_def inititialOpcodeTableSetup_def Let_def)

lemma initStory_gives: "gives (\<lambda>_. True) (initStory fname data) (\<lambda>_. machine_ok)"
proof (rule givesI)
  fix z x z' assume r: "initStory fname data z = Inr (x, z')"
  define fresh where "fresh y \<longleftrightarrow> length (operands y) = 8 \<and> operand_count y = 0" for y :: zmachine
  have h: "zkeeps fresh read_header" "zkeeps fresh (ld_byte 1)" "zkeeps fresh (st_byte 1 v)" for v
  proof -
    show "zkeeps fresh read_header" "zkeeps fresh (ld_byte 1)"
      unfolding read_header_def by (intro zkeeps_rules)+
    show "zkeeps fresh (st_byte 1 v)"
      by (rule zkeeps_st_byte) (simp add: fresh_def)
  qed
  obtain z1 f1 z2 z3 hd z4 where 1: "fresh z1" "ld_byte 1 z1 = Inr (f1, z2)" "st_byte 1 (f1 OR 0x10) z2 = Inr ((), z3)"
    "read_header z3 = Inr (hd, z4)" and v: "version hd = 3"
    and z': "z' = (initOpcodeTable (initAlphabetTable (z4\<lparr>header := hd\<rparr>)))
       \<lparr>pc := uint (pc_start hd), logical_pc := ucast (pc_start hd), bp := 0, sp := 0\<rparr>"
    using r unfolding initStory_def by (elim zbindE) (force simp: zop_simps fresh_def split: if_splits)
  have "fresh z4"
    using 1 zkeepsD [OF h(1) 1(4)] zkeepsD [OF h(2) 1(2)] zkeepsD [OF h(3) 1(3)] by blast
  then show "machine_ok z'"
    using v by (simp add: machine_ok_def z' fresh_def length_alphabet frames.outermost STACK_SIZE_def)
qed

lemma loadStory_gives: "gives (\<lambda>_. True) (loadStory H fname) (\<lambda>_. machine_ok)"
proof (cases fname)
  case (Some name)
  have bind: "gives (\<lambda>_. True) (zbind m f) Q" if "\<And>x. gives (\<lambda>_. True) (f x) Q" for m :: "'a zop" and f :: "'a \<Rightarrow> 'b zop" and Q
    using that by (intro gives_bind [where R = "\<lambda>_ _. True"]) (simp add: gives_def)
  show ?thesis
    unfolding loadStory_def Some option.case by (intro bind ok_rules initStory_gives)
qed (simp add: loadStory_def stop_gives)

lemma ok_restart: "zkeeps machine_ok (opcode_restart H)"
proof -
  have "zkeeps machine_ok (loadStory H fname)" for fname
    using loadStory_gives [of H fname] by (simp add: zkeeps_def gives_def)
  then show ?thesis
    unfolding opcode_restart_def by (intro zkeeps_bind zkeeps_basic)
qed

section \<open>Every instruction\<close>

lemma ok_run_op: "f \<noteq> Op_restore \<Longrightarrow> zkeeps machine_ok (run_op H f)"
  by (cases f)
    (simp_all add: ok_call ok_branches ok_save ok_results ok_get_next_prop ok_relatives ok_variables ok_counters ok_restart
      ok.keep_object_ops ok.keep_printing ok.keep_read)

lemma ok_set_operand: "zkeeps machine_ok (set_operand k v)"
  unfolding set_operand_def by (intro zkeeps_bind zkeeps_zmod zkeeps_basic) (simp add: machine_ok_def)

lemma ok_parseOperand: "zkeeps machine_ok (parseOperand t k)"
proof -
  have pcs: "zkeeps machine_ok next_pc" "zkeeps machine_ok next_pc16"
    by (intro keep_rules)+
  have "gives (ok_with p) (set_operand k v) (\<lambda>_. machine_ok)" for p v
    by (intro ends_keep ok_set_operand)
  then have "zkeeps machine_ok (zbind (varAddress v False) (\<lambda>p. zbind (ld_var p) (set_operand k)))" for v
    by (intro with_address ends_bind [OF okp.keep_ld_var])
  then have "zkeeps machine_ok (zbind next_pc (\<lambda>v. zbind (varAddress v False) (\<lambda>p. zbind (ld_var p) (set_operand k))))"
    by (rule zkeeps_bind [OF pcs(1)])
  moreover have "zkeeps machine_ok (zbind next_pc16 (set_operand k))"
    "zkeeps machine_ok (zbind next_pc (\<lambda>v. set_operand k (ucast v)))"
    by (rule zkeeps_bind [OF pcs(2)] zkeeps_bind [OF pcs(1)], rule ok_set_operand)+
  ultimately show ?thesis
    unfolding parseOperand_def by (simp add: zkeeps_basic)
qed

lemma parse_types_gives: "gives machine_ok (parse_types ts b i) (\<lambda>n z. machine_ok z \<and> n \<le> i + length ts)"
proof (induction ts arbitrary: i)
  case Nil
  then show ?case
    by (simp add: gives_def zop_simps)
next
  case (Cons t ts)
  have "gives machine_ok (parse_types ts b (i + 1)) (\<lambda>n z. machine_ok z \<and> n \<le> i + length (t # ts))"
    using Cons.IH [of "i + 1"] by (simp add: gives_def)
  moreover have "gives machine_ok (zret i) (\<lambda>n z. machine_ok z \<and> n \<le> i + length (t # ts))"
    by (simp add: gives_def zop_simps)
  ultimately show ?case
    unfolding parse_types.simps by (intro gives_bind [OF ok_parseOperand [unfolded zkeeps_gives]] ends_cases)
qed

lemma parseVarOperands_gives: "gives machine_ok (parseVarOperands b) (\<lambda>n z. machine_ok z \<and> n \<le> 4)"
proof -
  have "zkeeps machine_ok next_pc"
    by (intro keep_rules)
  moreover have "gives machine_ok (parse_types (operand_types v) b 0) (\<lambda>n z. machine_ok z \<and> n \<le> 4)" for v
  proof -
    have "length (operand_types v) = 4"
      by (simp add: operand_types_def)
    then show ?thesis
      using parse_types_gives [of "operand_types v" b 0] unfolding add_0 by simp
  qed
  ultimately show ?thesis
    unfolding parseVarOperands_def zkeeps_gives by (rule gives_bind)
qed

lemma set_count_gives: "n \<le> 8 \<Longrightarrow> gives machine_ok (set_count n) (\<lambda>_. machine_ok)"
  by (simp add: gives_def set_count_def zop_simps machine_ok_def)

lemma counted: "(\<And>n. n \<le> 4 \<Longrightarrow> gives machine_ok (f n) Q) \<Longrightarrow> gives machine_ok (zbind (parseVarOperands b) f) Q"
  by (rule gives_bind [OF parseVarOperands_gives]) (auto simp: gives_def)

lemma ok_parse_form: "zkeeps machine_ok (parse_form opcode)"
proof -
  have two: "zkeeps machine_ok (zbind (set_count 2) (\<lambda>_. zbind (parseOperand t 0) (\<lambda>_. zbind (parseOperand u 1) (\<lambda>_. zret ()))))"
    and one: "zkeeps machine_ok (zbind (set_count 1) (\<lambda>_. zbind (parseOperand t 0) (\<lambda>_. zret ())))" for t u
    by (intro zkeeps_bind ok_parseOperand zkeeps_basic; simp add: zkeeps_gives set_count_gives)+
  have var: "gives machine_ok (zbind (parseVarOperands 0) set_count) (\<lambda>_. machine_ok)"
    by (intro counted set_count_gives) simp
  have more: "gives machine_ok (zbind (set_count n) (\<lambda>_. if n = 4 then zbind (parseVarOperands 4) (\<lambda>m. set_count (n + m))
      else zmod (\<lambda>z. z\<lparr>pc := pc z + 1\<rparr>))) (\<lambda>_. machine_ok)" if "n \<le> 4" for n
  proof (rule gives_bind)
    show "gives machine_ok (set_count n) (\<lambda>_. machine_ok)"
      using that by (intro set_count_gives) simp
    have "gives machine_ok (zbind (parseVarOperands 4) (\<lambda>m. set_count (n + m))) (\<lambda>_. machine_ok)"
      using that by (intro counted set_count_gives) simp
    moreover have "gives machine_ok (zmod (\<lambda>z. z\<lparr>pc := pc z + 1\<rparr>)) (\<lambda>_. machine_ok)"
      using ok.keep_zmod(2) [of "\<lambda>z. pc z + 1"] unfolding zkeeps_gives .
    ultimately show "gives machine_ok (if n = 4 then zbind (parseVarOperands 4) (\<lambda>m. set_count (n + m))
      else zmod (\<lambda>z. z\<lparr>pc := pc z + 1\<rparr>)) (\<lambda>_. machine_ok)"
      by (rule ends_cases(1))
  qed
  have "zkeeps machine_ok (zbind (parseVarOperands 0) (\<lambda>n. zbind (set_count n) (\<lambda>_. if n = 4 then zbind (parseVarOperands 4) (\<lambda>m. set_count (n + m))
      else zmod (\<lambda>z. z\<lparr>pc := pc z + 1\<rparr>))))"
    unfolding zkeeps_gives by (intro counted more)
  then show ?thesis
    unfolding parse_form_def by (intro zkeeps_if two one) (simp_all add: zkeeps_gives set_count_gives var)
qed

lemma ok_fetch: "zkeeps machine_ok fetch"
proof -
  have "gives machine_ok (zbind (set_count n) (\<lambda>_. zget g)) (\<lambda>_. machine_ok)" if "n \<le> 4" for n and g :: "zmachine \<Rightarrow> opcode_entry"
    using that by (intro gives_bind [OF set_count_gives]) (simp_all add: gives_def zop_simps)
  then have ext: "zkeeps machine_ok (zbind (parseVarOperands 0) (\<lambda>n. zbind (set_count n) (\<lambda>_. zget g)))" for g :: "zmachine \<Rightarrow> opcode_entry"
    unfolding zkeeps_gives by (intro counted)
  have first: "zkeeps machine_ok next_pc" "zkeeps machine_ok (zmod (\<lambda>z. z\<lparr>logical_pc := word_of_int (pc z)\<rparr>))"
    by (intro keep_rules)+
  have "zkeeps machine_ok (zbind (parse_form b) (\<lambda>_. zget g))" for b and g :: "zmachine \<Rightarrow> opcode_entry"
    by (intro zkeeps_bind ok_parse_form zkeeps_basic)
  then show ?thesis
    unfolding fetch_def
    by (intro zkeeps_bind [OF first(2)] zkeeps_bind [OF first(1)] zkeeps_bind [OF zkeeps_basic(2)] zkeeps_if zkeeps_basic(4) ext)
qed

lemma ok_runInstruction:
  assumes z: "machine_ok z" and f: "fetch z = Inr (op, z1)" "op \<noteq> Implemented Op_restore"
    and r: "runInstruction H z = Inr (x, z')"
  shows "machine_ok z'"
proof -
  have 1: "machine_ok z1"
    by (rule zkeepsD [OF ok_fetch f(1) z])
  obtain g where g: "op = Implemented g"
    using r f(1) by (cases op) (auto simp: runInstruction_def zbind_Inr zop_simps)
  have k: "zkeeps machine_ok (zbind (run_op H g) (\<lambda>_. zmod (\<lambda>z. z\<lparr>instructions_run := instructions_run z + 1\<rparr>)))"
    using f(2) g by (intro zkeeps_bind ok_run_op ok.keep_zmod) auto
  have "zbind (run_op H g) (\<lambda>_. zmod (\<lambda>z. z\<lparr>instructions_run := instructions_run z + 1\<rparr>)) z1 = Inr (x, z')"
    using r f(1) g by (simp add: runInstruction_def zbind_def)
  from zkeepsD [OF k this 1] show ?thesis .
qed

section \<open>Reachable machines\<close>

text \<open>The machines of a run: the story just loaded, then one instruction after the other.\<close>

inductive reachable :: "host \<Rightarrow> u8 list option \<Rightarrow> zmachine \<Rightarrow> bool" for H fname where
  loaded: "loadStory H fname z0 = Inr ((), z) \<Longrightarrow> reachable H fname z"
| stepped: "reachable H fname z \<Longrightarrow> \<not> quit z \<Longrightarrow> fetch z = Inr (op, z1) \<Longrightarrow> op \<noteq> Implemented Op_restore \<Longrightarrow>
    runInstruction H z = Inr ((), z') \<Longrightarrow> reachable H fname z'"

end
