(* ===== verification/ZProgram.thy ===== *)
theory ZProgram
  imports ZSafe
begin

text \<open>
  The whole of the Z-machine, from its start to the exit status: what every machine of a run
  satisfies, and a program that prints a text and quits.
\<close>

section \<open>A story file\<close>

text \<open>A host that has the file: the calls of \<^verbatim>\<open>loadStory\<close> succeed, and the read gives its bytes.\<close>

definition story_server :: "host \<Rightarrow> u8 list \<Rightarrow> bool" where
  "story_server H data \<longleftrightarrow>
     (\<forall>tr name mode. os_ret (os_call H tr (Fopen name mode)) \<noteq> 0) \<and> (\<forall>tr io w. os_ret (os_call H tr (Fseek io w)) \<noteq> -1) \<and>
     (\<forall>tr io. os_ret (os_call H tr (Ftell io)) = int (length data)) \<and> (\<forall>tr n. os_ret (os_call H tr (Malloc n)) \<noteq> 0) \<and>
     (\<forall>tr io. os_ret (os_call H tr (Fread io (length data))) = 1 \<and> os_data (os_call H tr (Fread io (length data))) = data)"

definition segment :: "u8 list \<Rightarrow> nat \<Rightarrow> u8 list \<Rightarrow> bool" where
  "segment data p bs \<longleftrightarrow> p + length bs \<le> length data \<and> (\<forall>i < length bs. data ! (p + i) = bs ! i)"

definition v3_alphabet :: "u8 list" where
  "v3_alphabet = map (\<lambda>i. 97 + of_nat i) [0..<26] @ map (\<lambda>i. 65 + of_nat i) [0..<26] @ alphabet_A2 3"

definition word_bytes :: "u16 list \<Rightarrow> u8 list" where
  "word_bytes ws = concat (map (\<lambda>w. [hi8 w, lo8 w]) ws)"

text \<open>The instructions \<^verbatim>\<open>print\<close> with a text, and \<^verbatim>\<open>quit\<close>.\<close>

definition print_program :: "u8 list \<Rightarrow> u8 list" where
  "print_program cs = 178 # word_bytes (packed (concat (map (encode_char v3_alphabet) cs))) @ [186]"

lemma segment_append: "segment data p (xs @ ys) \<longleftrightarrow> segment data p xs \<and> segment data (p + length xs) ys"
proof
  assume s: "segment data p (xs @ ys)"
  have "data ! (p + length xs + i) = ys ! i" if "i < length ys" for i
    using s [unfolded segment_def, THEN conjunct2, rule_format, of "length xs + i"] that by (simp add: add.assoc)
  moreover have "data ! (p + i) = xs ! i" if "i < length xs" for i
    using s [unfolded segment_def, THEN conjunct2, rule_format, of i] that by (simp add: nth_append)
  ultimately show "segment data p xs \<and> segment data (p + length xs) ys"
    using s by (simp add: segment_def)
next
  assume s: "segment data p xs \<and> segment data (p + length xs) ys"
  have "data ! (p + i) = (xs @ ys) ! i" if "i < length (xs @ ys)" for i
  proof (cases "i < length xs")
    case False
    then obtain j where "i = length xs + j"
      using le_Suc_ex not_less by blast
    with s that show ?thesis
      by (simp add: segment_def add.assoc)
  qed (use s in \<open>simp add: segment_def nth_append\<close>)
  then show "segment data p (xs @ ys)"
    using s by (simp add: segment_def)
qed

lemma segment_Cons: "segment data p (x # xs) \<longleftrightarrow> p < length data \<and> data ! p = x \<and> segment data (Suc p) xs"
  using segment_append [of data p "[x]" xs] by (simp add: segment_def Suc_le_eq)

lemma loadStory_served:
  assumes "story_server H data"
  shows "\<exists>z1. loadStory H (Some name) z = initStory (Some name) data z1 \<and> printed z1 = printed z"
proof -
  have p: "printed (snd (syscall H e y)) = printed y" for e and y :: zmachine
    by (simp add: syscall_def emit_def Let_def)
  show ?thesis
    using assms by (simp add: loadStory_def story_server_def zop_simps) (auto simp: p)
qed

lemma words_of_bytes:
  assumes "\<And>b. int p \<le> b \<Longrightarrow> in_story z b = (nat b < length data) \<and> (nat b < length data \<longrightarrow> story z b = data ! nat b)"
  shows "p \<le> q \<Longrightarrow> segment data q (word_bytes ws) \<Longrightarrow> words_at z (int q) ws"
proof (induction ws arbitrary: q)
  case (Cons w ws)
  have seg: "q < length data" "data ! q = hi8 w" "Suc q < length data" "data ! Suc q = lo8 w"
    "segment data (Suc (Suc q)) (word_bytes ws)"
    using Cons.prems(2) by (simp_all add: word_bytes_def segment_Cons)
  have "nat (int q + 1) = Suc q"
    by simp
  then have "in_story z (int q)" "in_story z (int q + 1)" "story z (int q) = hi8 w" "story z (int q + 1) = lo8 w"
    using assms [of "int q"] assms [of "int q + 1"] Cons.prems(1) seg by simp_all
  moreover have "words_at z (int q + 2) ws"
    using Cons.IH [OF _ seg(5)] Cons.prems(1) by (simp add: add.commute)
  ultimately show ?case
    by (simp add: get_word_def)
qed simp

section \<open>The machine at its start\<close>

definition started :: "u8 list \<Rightarrow> nat \<Rightarrow> zmachine \<Rightarrow> bool" where
  "started data p z \<longleftrightarrow> story_len z = length data \<and> (\<forall>b. 2 \<le> b \<and> nat b < length data \<longrightarrow> story z b = data ! nat b) \<and>
     version (header z) = 3 \<and> alphabet_table z = v3_alphabet \<and> opcodes z 178 = Implemented Op_print \<and>
     opcodes z 186 = Implemented Op_quit \<and> pc z = int p \<and> \<not> quit z"

lemma v3_tables:
  assumes "version (header z) = 3"
  shows "alphabet_table (initAlphabetTable z) = v3_alphabet"
    "opcodes (initOpcodeTable z) 178 = Implemented Op_print" "opcodes (initOpcodeTable z) 186 = Implemented Op_quit"
    "opcodes (initOpcodeTable z) 224 = Implemented Op_call"
  using assms by (simp_all add: initAlphabetTable_def v3_alphabet_def initOpcodeTable_def inititialOpcodeTableSetup_def Let_def
      set_ops_def base_ops_def v3_ops_def write_me_def)

lemma read_header_ok:
  assumes "\<And>a. 0 \<le> a \<Longrightarrow> a < 64 \<Longrightarrow> in_story z a"
  shows "\<exists>hd. read_header z = Inr (hd, z) \<and> version hd = story z 0 \<and> pc_start hd = get_word (story z) 6"
proof -
  have "read_bytes 6 18 z = Inr (map (\<lambda>i. story z (18 + int i)) [0..<6], z)"
    by (intro read_bytes_ok assms) simp_all
  then show ?thesis
    by (simp add: read_header_def zop_simps assms del: upt_rec_numeral)
qed

lemma init_tables_frame [simp]:
  "story (initAlphabetTable z) = story z" "story_len (initAlphabetTable z) = story_len z" "quit (initAlphabetTable z) = quit z" "printed (initAlphabetTable z) = printed z" "instructions_run (initAlphabetTable z) = instructions_run z"
  "story (initOpcodeTable z) = story z" "story_len (initOpcodeTable z) = story_len z" "quit (initOpcodeTable z) = quit z" "printed (initOpcodeTable z) = printed z" "instructions_run (initOpcodeTable z) = instructions_run z"
  by (simp_all add: initAlphabetTable_def initOpcodeTable_def inititialOpcodeTableSetup_def Let_def)

lemma initStory_started:
  assumes "64 \<le> length data" "data ! 0 = 3" "p = 256 * unat (data ! 6) + unat (data ! 7)"
  shows "\<exists>z'. initStory fname data z = Inr ((), z') \<and> started data p z' \<and> printed z' = printed z \<and> instructions_run z' = 0 \<and>
    sp z' = 0 \<and> bp z' = 0 \<and> opcodes z' 224 = Implemented Op_call"
proof -
  define m where "m = (\<lambda>a. if 0 \<le> a \<and> nat a < length data then data ! nat a else 0)"
  define y where "y = z\<lparr>story_filename := fname, story := m, story_len := length data, instructions_run := 0, pc := 0, logical_pc := 0,
     quit := False, stack := (\<lambda>_. 0), operands := replicate 8 0, operand_count := 0, sp := 0, bp := 0\<rparr>"
  define y1 where "y1 = y\<lparr>story := m(1 := m 1 OR 0x10)\<rparr>"
  have room: "in_story y a" "in_story y1 a" if "0 \<le> a" "a < 64" for a
    using assms(1) that by (simp_all add: in_story_def y_def y1_def)
  from read_header_ok [of y1] room obtain hd where
    hd: "read_header y1 = Inr (hd, y1)" "version hd = story y1 0" "pc_start hd = get_word (story y1) 6"
    by blast
  have m: "m 0 = 3" "m 6 = data ! 6" "m 7 = data ! 7"
    using assms(1,2) by (auto simp: m_def)
  have "unat (pc_start hd) = p"
    using hd(3) m assms(3) by (simp add: y1_def get_word_def unat_u16_of)
  then have v: "version hd = 3" "uint (pc_start hd) = int p"
    using hd(2) m by (auto simp: y1_def)
  have len: "\<forall>b. 2 \<le> b \<and> nat b < length data \<longrightarrow> story y1 b = data ! nat b" "story_len y1 = length data"
    by (simp_all add: y1_def m_def y_def)
  have sy: "story y = m" and y: "quit y1 = False" "printed y1 = printed z" "instructions_run y1 = 0"
    by (simp_all add: y_def y1_def)
  have "initStory fname data z = Inr ((), (initOpcodeTable (initAlphabetTable (y1\<lparr>header := hd\<rparr>)))
       \<lparr>pc := uint (pc_start hd), logical_pc := ucast (pc_start hd), bp := 0, sp := 0\<rparr>)"
    using hd(1) v(1) room(1) [of 1] sy
    by (simp add: initStory_def zop_simps y_def [symmetric, unfolded m_def] ld_byte_def st_byte_def y1_def)
  then show ?thesis
    using v len y v3_tables [of "initAlphabetTable (y1\<lparr>header := hd\<rparr>)"] v3_tables(1) [of "y1\<lparr>header := hd\<rparr>"]
    by (simp add: started_def)
qed

section \<open>Printing and quitting\<close>

lemma fetch_no_operands:
  assumes "in_story z (pc z)" "story z (pc z) = b" "175 < b" "b < 190"
  shows "fetch z = Inr (opcodes z (unat b), z\<lparr>logical_pc := word_of_int (pc z), pc := pc z + 1, operand_count := 0\<rparr>)"
proof -
  have b: "\<not> b \<le> 127" "\<not> b \<le> 175" "b \<le> 191" "b \<noteq> 190"
    using assms(3,4) by (auto simp: word_le_nat_alt word_less_nat_alt)
  then show ?thesis
    using assms(1,2)
    by (simp add: fetch_def parse_form_def set_count_def next_pc_def zop_simps in_story_def)
qed

lemma started_printed:
  assumes "started data p y"
  shows "started data p ((if c then y else snd (syscall H e y))\<lparr>printed := t\<rparr>)"
    "instructions_run ((if c then y else snd (syscall H e y))\<lparr>printed := t\<rparr>) = instructions_run y"
  using assms by (simp_all add: started_def syscall_def emit_def Let_def)

lemma length_word_bytes: "length (word_bytes ws) = 2 * length ws"
  by (induction ws) (simp_all add: word_bytes_def)

lemma run_print:
  assumes z: "started data p z" "2 \<le> p" and seg: "segment data p (178 # word_bytes ws)" and cs: "\<forall>c \<in> set cs. printable c"
    and ws: "ws = packed (concat (map (encode_char v3_alphabet) cs))" and H: "\<And>tr n. os_ret (os_call H tr (Malloc n)) \<noteq> 0"
  shows "\<exists>z'. runInstruction H z = Inr ((), z') \<and> started data (p + 1 + 2 * length ws) z' \<and> printed z' = printed z @ cs \<and>
    instructions_run z' = instructions_run z + 1"
proof -
  define y where "y = z\<lparr>logical_pc := word_of_int (pc z), pc := pc z + 1, operand_count := 0\<rparr>"
  have y: "started data (Suc p) y" "printed y = printed z" "instructions_run y = instructions_run z"
    using z(1) by (simp_all add: started_def y_def)
  have 1: "p < length data" "data ! p = 178" "segment data (Suc p) (word_bytes ws)"
    using seg by (simp_all add: segment_Cons)
  have "fetch z = Inr (Implemented Op_print, y)"
    using fetch_no_operands [of z 178] z 1 by (simp add: started_def in_story_def y_def)
  moreover have "words_at y (int (Suc p)) ws"
    using z y by (intro words_of_bytes [OF _ _ 1(3), of 2]) (auto simp: started_def in_story_def)
  then have "text_at y (int (Suc p)) = Some (cs, 2 * int (length ws))"
    using y(1) ws cs by (intro text_at_packed) (auto simp: started_def v3_alphabet_def alphabet_A2_def nth_append)
  then have "print_zscii H (int (Suc p)) y = Inr (2 * int (length ws),
    (if length cs \<le> 512 then y else snd (syscall H (Malloc (int (length cs))) y))\<lparr>printed := printed y @ cs\<rparr>)"
    using y(1) H by (intro print_zscii_text) (simp_all add: started_def)
  then obtain u where u: "print_zscii H (int (Suc p)) y = Inr (2 * int (length ws), u)" and w: "started data (Suc p) u"
    "printed u = printed z @ cs" "instructions_run u = instructions_run z"
    using y by (simp add: started_printed)
  have "opcode_print H y = Inr ((), u\<lparr>pc := int (Suc p) + 2 * int (length ws)\<rparr>)"
    using u y(1) by (simp add: opcode_print_def zop_simps started_def)
  ultimately have "runInstruction H z = Inr ((), u\<lparr>pc := int (Suc p) + 2 * int (length ws), instructions_run := instructions_run u + 1\<rparr>)"
    by (simp add: runInstruction_def zop_simps zbind_def)
  then show ?thesis
    using w by (simp add: started_def)
qed

lemma run_quit:
  assumes "started data p z" "p < length data" "data ! p = 186" "2 \<le> p"
  shows "\<exists>z'. runInstruction H z = Inr ((), z') \<and> quit z' \<and> printed z' = printed z \<and> instructions_run z' = instructions_run z + 1"
proof -
  have "fetch z = Inr (Implemented Op_quit, z\<lparr>logical_pc := word_of_int (pc z), pc := pc z + 1, operand_count := 0\<rparr>)"
    using fetch_no_operands [of z 186] assms by (simp add: started_def in_story_def)
  then show ?thesis
    by (simp add: runInstruction_def zop_simps zbind_def opcode_quit_def)
qed


definition story_host :: "u8 list \<Rightarrow> host" where
  "story_host data = null_host\<lparr>os_call := (\<lambda>tr e. case e of
     Fread io n \<Rightarrow> \<lparr>os_ret = 1, os_errno = None, os_data = data\<rparr>
   | Ftell io \<Rightarrow> \<lparr>os_ret = int (length data), os_errno = None, os_data = []\<rparr>
   | _ \<Rightarrow> \<lparr>os_ret = 1, os_errno = None, os_data = []\<rparr>)\<rparr>"

lemma story_host_serves: "story_server (story_host data) data"
  by (simp add: story_server_def story_host_def)

text \<open>A header that starts the program at 64.\<close>

definition plain_header :: "u8 list" where
  "plain_header = (replicate 64 0)[0 := 3, 7 := 64]"


section \<open>What every machine of a run satisfies\<close>

lemma reachable_machine: "reachable H fname z \<Longrightarrow> machine_ok z"
proof (induction rule: reachable.induct)
  case (loaded z0 z)
  then show ?case
    using loadStory_gives [of H fname] by (auto simp: gives_def)
next
  case (stepped z op z1 z')
  from stepped.IH stepped.hyps(3-5) show ?case
    by (rule ok_runInstruction)
qed

text \<open>C15. In every machine of a run that does not restore a file, the operands are the eight there is room for
  and at most eight are counted, the alphabet has its 78 characters, the story's version is 3, the stack
  pointer is within the stack, and the base pointer heads a chain of frames that ends at the outermost.\<close>

theorem reachable_ok: "reachable H fname z \<Longrightarrow> machine_ok z"
  by (rule reachable_machine)

text \<open>C16. So a return in a routine never reads outside the stack: the frame lies below the base pointer within
  the stack in use, what it holds is the caller's state, which is in order, and the value is stored
  from there, in the variable that the call named.\<close>

theorem return_finds_frame:
  assumes "reachable H fname z" "bp z \<noteq> 0"
  shows "5 \<le> unat (bp z) \<and> unat (bp z) \<le> sp z \<and> sp z \<le> STACK_SIZE \<and> machine_ok (popped z) \<and>
    doReturn v z = zbind (varAddress (ucast (stack z (unat (bp z) - 5))) True) (\<lambda>store. st_var store v) (popped z)"
  using doReturn_popped [OF reachable_machine [OF assms(1)] assms(2)] by blast

text \<open>A program that calls a routine.\<close>

definition calling_story :: "u8 list" where
  "calling_story = plain_header @ [224, 63, 0, 36, 0, 186, 180, 180, 0, 176]"

lemma calls_routine:
  "\<exists>z. reachable (story_host calling_story) (Some []) z \<and> bp z \<noteq> 0"
proof -
  let ?H = "story_host calling_story"
  have st: "length calling_story = 74" "calling_story ! 0 = 3" "calling_story ! 6 = 0" "calling_story ! 7 = 64"
    "calling_story ! 64 = 224" "calling_story ! 65 = 63" "calling_story ! 66 = 0" "calling_story ! 67 = 36"
    "calling_story ! 68 = 0" "calling_story ! 72 = 0"
    by (simp_all add: calling_story_def plain_header_def nth_append)
  obtain z1 where z1: "loadStory ?H (Some []) zero_machine = initStory (Some []) calling_story z1"
    using loadStory_served [OF story_host_serves] by blast
  obtain z where z: "initStory (Some []) calling_story z1 = Inr ((), z)" "started calling_story 64 z"
    "sp z = 0" "bp z = 0" "opcodes z 224 = Implemented Op_call"
  proof -
    have "64 \<le> length calling_story" "(64::nat) = 256 * unat (calling_story ! 6) + unat (calling_story ! 7)"
      unfolding st by simp_all
    from initStory_started [OF this(1) st(2) this(2), of "Some []" z1] show ?thesis
      by (elim exE conjE) (rule that)
  qed
  have r: "reachable ?H (Some []) z"
    using z1 z(1) by (intro reachable.loaded) simp
  then have ok: "machine_ok z"
    by (rule reachable_machine)
  have m: "story z 64 = 224" "story z 65 = 63" "story z 66 = 0" "story z 67 = 36" "story z 68 = 0" "story z 72 = 0"
    and len: "story_len z = 74" "pc z = 64" "\<not> quit z" "version (header z) = 3" "length (operands z) = 8"
    using z(2) st ok by (simp_all add: started_def machine_ok_def)
  define y where "y = z\<lparr>logical_pc := 64, pc := 68, operands := (operands z)[0 := 36], operand_count := 1\<rparr>"
  have f: "fetch z = Inr (Implemented Op_call, y)"
    using m len z(5)
    by (simp add: fetch_def parse_form_def parseVarOperands_def operand_types_def parseOperand_def set_operand_def set_count_def
        next_pc_def next_pc16_def zop_simps in_story_def get_word_def u16_of_def y_def)
  have "routine y = 72" "num_locals y = 0"
    using len m by (simp_all add: routine_def num_locals_def y_def)
  then have c: "callable y"
    using len m z(3) ok by (simp add: callable_def in_story_def y_def STACK_SIZE_def)
  have "runInstruction ?H z = Inr ((), (entered_state y)\<lparr>instructions_run := instructions_run (entered_state y) + 1\<rparr>)"
    using f call_state [OF c] by (simp add: runInstruction_def zbind_def zop_simps)
  moreover have "bp (entered_state y) \<noteq> 0"
    using called_bp [OF c] by auto
  ultimately show ?thesis
    using reachable.stepped [OF r len(3) f] by (intro exI [of _ "(entered_state y)\<lparr>instructions_run := instructions_run (entered_state y) + 1\<rparr>"]) simp
qed

lemma reachable_ok_witness:
  "\<exists>z. reachable (story_host calling_story) (Some []) z \<and> bp z \<noteq> 0 \<and> machine_ok z"
  using calls_routine reachable_ok by blast

lemma return_finds_frame_witness:
  "\<exists>z. reachable (story_host calling_story) (Some []) z \<and> 5 \<le> unat (bp z) \<and> machine_ok (popped z)"
  using calls_routine return_finds_frame by blast

end
