(* ===== verification/Pi.thy ===== *)
theory Pi
  imports Prelude Complex_Main
begin

text \<open>
  The guest program \<^verbatim>\<open>pi.c\<close>: the digits of pi from a series in mixed radix, with the 16 and
  32-bit arithmetic of cc65, its ring of the last four digits and the carry into them. The
  reference is the exact value of the series; the text on the screen is read off the calls.
\<close>

section \<open>The program\<close>

definition N :: nat where
  "N = 2160"

definition BUF_SIZE :: nat where
  "BUF_SIZE = 4"

datatype guest_call = Puts "u8 list" | Fsync u16

text \<open>\<open>idx\<close> is an \<^verbatim>\<open>int8_t\<close> that stays between -1 and 4; \<open>outer\<close> is the variable \<^verbatim>\<open>j\<close>.\<close>

record pi_state =
  terms :: "u16 list"
  plc :: u16
  carry :: u16
  digit :: "u16 list"
  idx :: int
  outer :: u16
  calls_made :: "guest_call list"

definition call_pi :: "guest_call \<Rightarrow> pi_state \<Rightarrow> pi_state" where
  "call_pi c s = s\<lparr>calls_made := calls_made s @ [c]\<rparr>"

text \<open>The inner loop, from \<open>i\<close> down to 1.\<close>

fun divide_terms :: "nat \<Rightarrow> u32 \<Rightarrow> u16 list \<Rightarrow> u32 \<times> u16 list" where
  "divide_terms 0 numerator ts = (numerator, ts)"
| "divide_terms (Suc k) numerator ts =
     (let i = of_nat (Suc k) :: u16;
          numerator = numerator + ucast (ts ! Suc k * 10);
          denominator = 2 * i + 1;
          ts = ts[Suc k := ucast (numerator mod ucast denominator)];
          numerator = numerator div ucast denominator * ucast i
      in divide_terms k numerator ts)"

definition print_digit :: "pi_state \<Rightarrow> pi_state" where
  "print_digit s = call_pi (Puts (digits (unat (digit s ! nat (idx s))))) s"

definition next_idx :: "pi_state \<Rightarrow> pi_state" where
  "next_idx s = (let i = idx s + 1 in s\<lparr>idx := (if int BUF_SIZE - 1 < i then 0 else i)\<rparr>)"

text \<open>\<^verbatim>\<open>for (j = 0; j <= i; j++)\<close>, which uses the counter of the outer loop.\<close>

fun reprint :: "nat \<Rightarrow> pi_state \<Rightarrow> pi_state" where
  "reprint 0 s = s"
| "reprint (Suc n) s = reprint n ((next_idx (print_digit s))\<lparr>outer := outer s + 1\<rparr>)"

definition back_carry :: "pi_state \<Rightarrow> pi_state" where
  "back_carry s =
     (let s = call_pi (Puts [8]) s;
          s = s\<lparr>digit := (digit s)[nat (idx s) := digit s ! nat (idx s) - 10]\<rparr>;
          i = idx s - 1;
          s = s\<lparr>idx := (if i < 0 then int BUF_SIZE - 1 else i)\<rparr>
      in s\<lparr>digit := (digit s)[nat (idx s) := digit s ! nat (idx s) + 1]\<rparr>)"

text \<open>\<open>Inl\<close> is a return from \<^verbatim>\<open>main\<close>.\<close>

function carry_loop :: "nat \<Rightarrow> pi_state \<Rightarrow> (int \<times> pi_state) + pi_state" where
  "carry_loop i s =
     (if 4 < i then Inr s
      else if 3 < i then Inl (1, call_pi (Puts (bytes_of ''ERROR: too many carry ops!'' @ [10])) s)
      else
        let s = back_carry s
        in if digit s ! nat (idx s) < 10 then Inr (reprint (i + 1) (s\<lparr>outer := 0\<rparr>))
           else carry_loop (i + 1) s)"
  by pat_completeness auto

termination by (relation "measure (\<lambda>(i, s). 5 - i)") auto

declare carry_loop.simps [simp del]

definition put_next :: "pi_state \<Rightarrow> (int \<times> pi_state) + pi_state" where
  "put_next s =
     (if 9 < digit s ! nat (idx s) then carry_loop 1 s
      else
        let s = print_digit s;
            s = (if plc s = 0 then (call_pi (Puts [46]) s)\<lparr>plc := plc s + 1\<rparr> else s)
        in Inr (call_pi (Fsync 1) s))"

text \<open>The body of the outer loop.\<close>

definition pi_step :: "pi_state \<Rightarrow> (int \<times> pi_state) + pi_state" where
  "pi_step s =
     (let (numerator, ts) = divide_terms N 0 (terms s);
          numerator = numerator + ucast (ts ! 0 * 10);
          s = s\<lparr>terms := ts, digit := (digit s)[nat (idx s) := ucast (numerator div 10 + ucast (carry s))]\<rparr>
      in case put_next s of
           Inl r \<Rightarrow> Inl r
         | Inr s \<Rightarrow> Inr (next_idx (s\<lparr>carry := ucast (numerator mod 10), terms := (terms s)[0 := 0]\<rparr>)))"

partial_function (option) pi_loop :: "pi_state \<Rightarrow> (int \<times> pi_state) option" where
  "pi_loop s =
     (if outer s < of_nat (N div 4) then
        (case pi_step s of
           Inl r \<Rightarrow> Some r
         | Inr s \<Rightarrow> pi_loop (s\<lparr>outer := outer s + 1\<rparr>))
      else Some (0, call_pi (Puts [10]) s))"

text \<open>\<^verbatim>\<open>digit\<close> is not initialised: its content at the start is the argument.\<close>

definition pi_start :: "u16 list \<Rightarrow> pi_state" where
  "pi_start d = \<lparr>terms = replicate (N + 1) 2, plc = 0, carry = 0, digit = d, idx = 0, outer = 0,
     calls_made = [Puts (bytes_of ''HAPPY PI DAY 2025 !!!'' @ [10] @ bytes_of '' Pi:'' @ [10])]\<rparr>"

definition pi_main :: "u16 list \<Rightarrow> (int \<times> pi_state) option" where
  "pi_main d = pi_loop (pi_start d)"

section \<open>The series\<close>

text \<open>A term of the mixed radix counts for the product of \<open>k / (2 k + 1)\<close>.\<close>

fun weight :: "nat \<Rightarrow> real" where
  "weight 0 = 1"
| "weight (Suc k) = weight k * real (Suc k) / real (2 * Suc k + 1)"

definition tail_value :: "nat \<Rightarrow> u16 list \<Rightarrow> real" where
  "tail_value n ts = (\<Sum>i = 1..n. real (unat (ts ! i)) * weight i)"

definition series :: real where
  "series = (\<Sum>i = 0..N. 2 * weight i)"

lemma weight_pos: "0 < weight k"
  by (induction k) simp_all

lemma weight_step: "real (2 * Suc k + 1) * weight (Suc k) = real (Suc k) * weight k"
  by simp

lemma weight_half: "weight (Suc k) \<le> weight k / 2"
proof -
  have "weight k * real (Suc k) / real (2 * Suc k + 1) \<le> weight k * (1 / 2)"
    unfolding times_divide_eq_right [symmetric]
    by (intro mult_left_mono less_imp_le [OF weight_pos]) (simp add: field_simps)
  then show ?thesis
    by simp
qed

declare weight.simps(2) [simp del]

lemma sum_weights: "(\<Sum>i = 0..n. weight i) \<le> 2 - weight n"
proof (induction n)
  case (Suc n)
  then show ?case
    using weight_half [of n] by simp
qed simp

lemma full_terms: "(\<Sum>i = 1..n. real (2 * i) * weight i) = 2 - 2 * real (n + 1) * weight n"
proof (induction n)
  case (Suc n)
  have "2 * real (n + 1) * weight n = 2 * (real (2 * Suc n + 1) * weight (Suc n))"
    unfolding weight_step by simp
  then show ?case
    using Suc by (simp add: algebra_simps)
qed simp

lemma tail_value_less:
  assumes "\<And>i. 1 \<le> i \<Longrightarrow> i \<le> n \<Longrightarrow> unat (ts ! i) \<le> 2 * i"
  shows "0 \<le> tail_value n ts" "tail_value n ts < 2"
proof -
  show "0 \<le> tail_value n ts"
    unfolding tail_value_def by (intro sum_nonneg mult_nonneg_nonneg less_imp_le [OF weight_pos] of_nat_0_le_iff)
  have "tail_value n ts \<le> (\<Sum>i = 1..n. real (2 * i) * weight i)"
    unfolding tail_value_def
    by (intro sum_mono mult_right_mono less_imp_le [OF weight_pos] of_nat_mono assms) simp_all
  also have "\<dots> < 2"
    unfolding full_terms using weight_pos [of n] by simp
  finally show "tail_value n ts < 2" .
qed

lemma series_bounds: "2 < series" "series \<le> 4"
proof -
  have s: "series = 2 * (\<Sum>i = 0..N. weight i)"
    by (simp add: series_def sum_distrib_left)
  show "series \<le> 4"
    using sum_weights [of N] weight_pos [of N] by (simp add: s)
  have "weight 0 + weight 1 \<le> (\<Sum>i = 0..N. weight i)"
  proof -
    have "(\<Sum>i \<in> {0, 1}. weight i) \<le> (\<Sum>i = 0..N. weight i)"
      by (rule sum_mono2) (auto simp: N_def intro: less_imp_le [OF weight_pos])
    then show ?thesis by simp
  qed
  moreover have "0 < weight 1"
    by (rule weight_pos)
  ultimately show "2 < series"
    using s by simp
qed

section \<open>The series is pi\<close>

text \<open>The weights are the values at 1 of functions whose derivatives are the powers of \<open>(1 - x\<^sup>2) / 2\<close>; their sum
  has a derivative close to that of 4 arctan.\<close>

fun antiderivative :: "nat \<Rightarrow> real \<Rightarrow> real" where
  "antiderivative 0 x = x"
| "antiderivative (Suc n) x = (real (Suc n) * antiderivative n x + x * ((1 - x * x) / 2) ^ Suc n) / real (2 * Suc n + 1)"

lemma antiderivative_ends: "antiderivative n 0 = 0" "antiderivative n 1 = weight n"
  by (induction n) (simp_all add: weight.simps(2))

lemma antiderivative_deriv: "(antiderivative n has_real_derivative ((1 - x * x) / 2) ^ n) (at x)"
proof (induction n)
  case 0
  have "antiderivative 0 = (\<lambda>x. x)"
    by (rule ext) simp
  then show ?case
    by simp
next
  case (Suc n)
  let ?r = "(1 - x * x) / 2"
  have r: "((\<lambda>x. ((1 - x * x) / 2) ^ Suc n) has_real_derivative real (Suc n) * ?r ^ n * - x) (at x)"
  proof -
    have "((\<lambda>x. (1 - x * x) / 2) has_real_derivative - x) (at x)"
      by (auto intro!: derivative_eq_intros)
    moreover have "(1 + of_nat n) * (- x * ?r ^ n) = real (Suc n) * ?r ^ n * - x"
      by (simp only: of_nat_Suc mult_ac)
    ultimately show ?thesis
      using DERIV_power_Suc [of "\<lambda>x. (1 - x * x) / 2" "- x" x UNIV n] by (simp only:)
  qed
  have d: "((\<lambda>x. (real (Suc n) * antiderivative n x + x * ((1 - x * x) / 2) ^ Suc n) / real (2 * Suc n + 1)) has_real_derivative
      (real (Suc n) * ?r ^ n + (?r ^ Suc n + x * (real (Suc n) * ?r ^ n * - x))) / real (2 * Suc n + 1)) (at x)"
    by (rule derivative_eq_intros Suc.IH r refl)+ simp_all
  have "real (Suc n) * ?r ^ n + (?r ^ Suc n + x * (real (Suc n) * ?r ^ n * - x)) = real (2 * Suc n + 1) * ?r ^ Suc n"
    by (simp add: field_simps)
  then have e: "(real (Suc n) * ?r ^ n + (?r ^ Suc n + x * (real (Suc n) * ?r ^ n * - x))) / real (2 * Suc n + 1) = ?r ^ Suc n"
    by (simp only: nonzero_mult_div_cancel_left of_nat_eq_0_iff)
  have "antiderivative (Suc n) = (\<lambda>x. (real (Suc n) * antiderivative n x + x * ((1 - x * x) / 2) ^ Suc n) / real (2 * Suc n + 1))"
    by (rule ext) (rule antiderivative.simps)
  then show ?case
    using d unfolding e by (simp only:)
qed

lemma series_pi: "0 \<le> pi - series" "pi - series \<le> 4 * (1 / 2) ^ (N + 1)"
proof -
  define g where "g x = 4 * arctan x - 2 * (\<Sum>n = 0..N. antiderivative n x)" for x
  have d: "(g has_real_derivative 4 / (1 + x * x) * ((1 - x * x) / 2) ^ (N + 1)) (at x)" for x
  proof -
    let ?r = "(1 - x * x) / 2"
    have "(g has_real_derivative 4 * inverse (1 + x\<^sup>2) - 2 * (\<Sum>n = 0..N. ?r ^ n)) (at x)"
      unfolding g_def by (auto intro!: derivative_eq_intros antiderivative_deriv)
    moreover have "4 * inverse (1 + x\<^sup>2) - 2 * (\<Sum>n = 0..N. ?r ^ n) = 4 / (1 + x * x) * ?r ^ (N + 1)"
    proof -
      have p: "0 < 1 + x * x"
        by (simp add: add_pos_nonneg)
      have "(1 - ?r) * (\<Sum>n = 0..N. ?r ^ n) = 1 - ?r ^ (N + 1)"
        using sum_gp_basic [of ?r N] by (simp add: atLeast0AtMost)
      moreover have "1 - ?r = (1 + x * x) / 2"
        by (simp add: field_simps)
      ultimately have "(1 + x * x) * (2 * (\<Sum>n = 0..N. ?r ^ n)) = 4 * (1 - ?r ^ (N + 1))"
        by simp
      then have "2 * (\<Sum>n = 0..N. ?r ^ n) = 4 * (1 - ?r ^ (N + 1)) / (1 + x * x)"
        using p nonzero_mult_div_cancel_left [of "1 + x * x" "2 * (\<Sum>n = 0..N. ?r ^ n)"] by (metis less_irrefl)
      then show ?thesis
        by (simp add: power2_eq_square inverse_eq_divide diff_divide_distrib right_diff_distrib)
    qed
    ultimately show ?thesis
      by simp
  qed
  have "\<exists>z. 0 < z \<and> z < 1 \<and> g 1 - g 0 = (1 - 0) * (4 / (1 + z * z) * ((1 - z * z) / 2) ^ (N + 1))"
    by (rule MVT2, simp, rule d)
  then obtain z where z: "0 < z" "z < 1" "g 1 - g 0 = 4 / (1 + z * z) * ((1 - z * z) / 2) ^ (N + 1)"
    by auto
  have "g 1 - g 0 = pi - series"
    by (simp add: g_def antiderivative_ends arctan_one series_def sum_distrib_left)
  moreover have "z * z \<le> 1"
    using z(1,2) mult_le_one [of z z] by simp
  then have r: "0 \<le> (1 - z * z) / 2" "(1 - z * z) / 2 \<le> 1 / 2"
    by simp_all
  have "4 / (1 + z * z) \<le> 4"
    by (simp add: divide_le_eq add_pos_nonneg)
  then have "4 / (1 + z * z) * ((1 - z * z) / 2) ^ (N + 1) \<le> 4 * (1 / 2) ^ (N + 1)"
    using r by (intro mult_mono power_mono) simp_all
  moreover have "0 \<le> 4 / (1 + z * z) * ((1 - z * z) / 2) ^ (N + 1)"
    using r(1) by (intro mult_nonneg_nonneg zero_le_power) simp_all
  ultimately show "0 \<le> pi - series" "pi - series \<le> 4 * (1 / 2) ^ (N + 1)"
    using z(3) by simp_all
qed

lemma series_scaled:
  assumes "k \<le> 649"
  shows "0 \<le> 10 ^ k * pi - 10 ^ k * series" "10 ^ k * pi - 10 ^ k * series \<le> 1"
proof -
  show "0 \<le> 10 ^ k * pi - 10 ^ k * series"
    using series_pi(1) by (simp add: right_diff_distrib [symmetric])
  have "(10 :: real) ^ k \<le> 10 ^ 649"
    using assms by (intro power_increasing) simp_all
  also have "\<dots> \<le> 2 ^ 2159"
    by simp
  finally have "10 ^ k * (pi - series) \<le> 2 ^ 2159 * (4 * (1 / 2) ^ (N + 1))"
    using series_pi by (intro mult_mono) simp_all
  also have "\<dots> = 1"
    by (simp add: N_def power_divide)
  finally show "10 ^ k * pi - 10 ^ k * series \<le> 1"
    by (simp add: right_diff_distrib)
qed

section \<open>One digit\<close>

text \<open>The arithmetic of the inner loop never wraps around.\<close>

lemma unat_small: "n < 2 ^ LENGTH('a) \<Longrightarrow> unat (of_nat n :: 'a::len word) = n"
  by (simp add: unsigned_of_nat take_bit_nat_eq_self)

lemma divide_step:
  fixes num :: u32 and t :: u16
  assumes k: "1 \<le> k" "k \<le> N" and t: "unat t \<le> 2 * k" and num: "unat num \<le> 20 * k + 40"
  defines "i \<equiv> of_nat k :: u16" and "x \<equiv> unat num + 10 * unat t"
  shows "unat (num + ucast (t * 10)) = x" "unat (ucast ((num + ucast (t * 10)) mod ucast (2 * i + 1)) :: u16) = x mod (2 * k + 1)"
    "unat ((num + ucast (t * 10)) div ucast (2 * i + 1) * ucast i) = x div (2 * k + 1) * k"
    "x div (2 * k + 1) * k \<le> 20 * (k - 1) + 40"
proof -
  have kN: "k \<le> 2160"
    using k by (simp add: N_def)
  have x: "x \<le> 40 * k + 40"
    using t num by (simp add: x_def)
  have i: "unat i = k"
    unfolding i_def using kN by (intro unat_small) simp
  have "2 * i + 1 = of_nat (2 * k + 1)"
    by (simp add: i_def)
  then have den: "unat (2 * i + 1) = 2 * k + 1"
    using kN by (simp only:) (intro unat_small, simp)
  have "unat (t * 10) = unat t * 10"
    using t kN by (subst unat_mult_lem [THEN iffD1]) simp_all
  then have t10: "unat (ucast (t * 10) :: u32) = 10 * unat t"
    using t kN by (simp add: unsigned_ucast_eq take_bit_nat_eq_self)
  show num1: "unat (num + ucast (t * 10)) = x"
    using t10 x kN num by (subst unat_add_lem [THEN iffD1]) (simp_all add: x_def)
  have den32: "unat (ucast (2 * i + 1) :: u32) = 2 * k + 1" "unat (ucast i :: u32) = k"
    using den i kN by (simp_all add: unsigned_ucast_eq take_bit_nat_eq_self)
  have "x mod (2 * k + 1) < 2 * k + 1"
    by simp
  then show "unat (ucast ((num + ucast (t * 10)) mod ucast (2 * i + 1)) :: u16) = x mod (2 * k + 1)"
    using kN by (simp add: unsigned_ucast_eq unat_mod_distrib num1 den den32 take_bit_nat_eq_self del: mod_less_divisor)
  have "x div (2 * k + 1) * k * 2 \<le> x div (2 * k + 1) * (2 * k + 1)"
    by simp
  also have "\<dots> \<le> x"
    by (rule div_times_less_eq_dividend)
  finally have half: "x div (2 * k + 1) * k * 2 \<le> x" .
  then show "x div (2 * k + 1) * k \<le> 20 * (k - 1) + 40"
    using x k by simp
  show "unat ((num + ucast (t * 10)) div ucast (2 * i + 1) * ucast i) = x div (2 * k + 1) * k"
    using half x kN by (subst unat_mult_lem [THEN iffD1]) (simp_all add: unat_div_distrib num1 den i den32)
qed

lemma tail_value_upd:
  "k \<le> N \<Longrightarrow> length ts = N + 1 \<Longrightarrow> tail_value k (ts[Suc k := t]) = tail_value k ts"
  unfolding tail_value_def by (intro sum.cong) (auto simp: nth_list_update)

lemma divide_terms_ok:
  assumes "n \<le> N" "length ts = N + 1" "\<And>i. 1 \<le> i \<Longrightarrow> i \<le> n \<Longrightarrow> unat (ts ! i) \<le> 2 * i" "unat num \<le> 20 * n + 40"
    and "divide_terms n num ts = (num', ts')"
  shows "length ts' = N + 1 \<and> ts' ! 0 = ts ! 0 \<and> (\<forall>i \<ge> 1. i \<le> n \<longrightarrow> unat (ts' ! i) \<le> 2 * i) \<and> (\<forall>i > n. ts' ! i = ts ! i) \<and>
    unat num' \<le> 40 \<and> real (unat num) * weight n + 10 * tail_value n ts = real (unat num') + tail_value n ts'"
  using assms
proof (induction n arbitrary: num ts)
  case 0
  then show ?case
    by (simp add: tail_value_def)
next
  case (Suc m)
  let ?k = "Suc m"
  define x where "x = unat num + 10 * unat (ts ! ?k)"
  define t where "t = (ucast ((num + ucast (ts ! ?k * 10)) mod ucast (2 * of_nat ?k + 1 :: u16)) :: u16)"
  define q where "q = (num + ucast (ts ! ?k * 10)) div ucast (2 * of_nat ?k + 1 :: u16) * ucast (of_nat ?k :: u16)"
  have k: "1 \<le> ?k" "?k \<le> N" and ts: "unat (ts ! ?k) \<le> 2 * ?k"
    using Suc.prems(1) Suc.prems(3) [of ?k] by simp_all
  note d = divide_step [OF k ts Suc.prems(4), folded x_def, folded t_def q_def]
  have run: "divide_terms m q (ts[?k := t]) = (num', ts')"
    using Suc.prems(5) by (simp add: t_def q_def Let_def)
  have IH: "length ts' = N + 1 \<and> ts' ! 0 = ts[?k := t] ! 0 \<and> (\<forall>i \<ge> 1. i \<le> m \<longrightarrow> unat (ts' ! i) \<le> 2 * i) \<and>
    (\<forall>i > m. ts' ! i = ts[?k := t] ! i) \<and> unat num' \<le> 40 \<and>
    real (unat q) * weight m + 10 * tail_value m (ts[?k := t]) = real (unat num') + tail_value m ts'"
    using Suc.prems(1-3) d(3,4) by (intro Suc.IH [OF _ _ _ _ run]) (simp_all add: nth_list_update)
  have t': "ts' ! ?k = t"
    using IH k(2) Suc.prems(2) by simp
  have "x = x div (2 * ?k + 1) * (2 * ?k + 1) + x mod (2 * ?k + 1)"
    by (rule div_mult_mod_eq [symmetric])
  then have "real x * weight ?k = real (x div (2 * ?k + 1)) * (real (2 * ?k + 1) * weight ?k) + real (x mod (2 * ?k + 1)) * weight ?k"
    by (metis (no_types, lifting) of_nat_add of_nat_mult distrib_right mult.assoc)
  also have "\<dots> = real (unat q) * weight m + real (unat t) * weight ?k"
    unfolding weight_step d(2,3) by (simp add: algebra_simps)
  finally have e: "real (unat num) * weight ?k + 10 * (real (unat (ts ! ?k)) * weight ?k) = real (unat q) * weight m + real (unat t) * weight ?k"
    by (simp add: x_def distrib_right)
  have "x mod (2 * ?k + 1) < 2 * ?k + 1"
    by (rule mod_less_divisor) simp
  then have "unat t \<le> 2 * ?k"
    unfolding d(2) by linarith
  moreover have "tail_value ?k ts = tail_value m ts + real (unat (ts ! ?k)) * weight ?k" "tail_value ?k ts' = tail_value m ts' + real (unat t) * weight ?k"
    by (simp_all add: tail_value_def t')
  ultimately show ?case
    using IH e t' Suc.prems(1,2) tail_value_upd [of m ts t] by (auto simp: le_Suc_eq distrib_left)
qed

section \<open>All digits\<close>

definition total :: "u16 list \<Rightarrow> real" where
  "total ts = real (unat (ts ! 0)) + tail_value N ts"

text \<open>The terms after \<open>k\<close> rounds, and the numerator that the last of them ends with.\<close>

fun terms_after :: "nat \<Rightarrow> u16 list" where
  "terms_after 0 = replicate (N + 1) 2"
| "terms_after (Suc k) = (snd (divide_terms N 0 (terms_after k)))[0 := 0]"

fun numerator_after :: "nat \<Rightarrow> nat" where
  "numerator_after 0 = 0"
| "numerator_after (Suc k) = unat (fst (divide_terms N 0 (terms_after k))) + 10 * unat (terms_after k ! 0)"

text \<open>The digit that round \<open>k\<close> finds, before a later one carries into it.\<close>

definition raw_digit :: "nat \<Rightarrow> nat" where
  "raw_digit k = numerator_after k div 10 + numerator_after (k - 1) mod 10"

definition proper_terms :: "u16 list \<Rightarrow> bool" where
  "proper_terms ts \<longleftrightarrow> length ts = N + 1 \<and> (\<forall>i \<ge> 1. i \<le> N \<longrightarrow> unat (ts ! i) \<le> 2 * i)"

lemma divide_pass:
  assumes "proper_terms ts" "divide_terms N 0 ts = (n, ts')"
  shows "proper_terms (ts'[0 := 0])" "ts' ! 0 = ts ! 0" "unat n \<le> 40"
    "10 * total ts = real (unat n + 10 * unat (ts ! 0)) + total (ts'[0 := 0])"
proof -
  have d: "length ts' = N + 1 \<and> ts' ! 0 = ts ! 0 \<and> (\<forall>i \<ge> 1. i \<le> N \<longrightarrow> unat (ts' ! i) \<le> 2 * i) \<and> (\<forall>i > N. ts' ! i = ts ! i) \<and>
    unat n \<le> 40 \<and> real (unat (0 :: u32)) * weight N + 10 * tail_value N ts = real (unat n) + tail_value N ts'"
    using assms by (intro divide_terms_ok) (simp_all add: proper_terms_def)
  show "proper_terms (ts'[0 := 0])" "ts' ! 0 = ts ! 0" "unat n \<le> 40"
    using d by (simp_all add: proper_terms_def nth_list_update)
  have "tail_value N (ts'[0 := 0]) = tail_value N ts'"
    unfolding tail_value_def by (intro sum.cong) auto
  then show "10 * total ts = real (unat n + 10 * unat (ts ! 0)) + total (ts'[0 := 0])"
    using d by (simp add: total_def)
qed

lemma terms_after_ok: "proper_terms (terms_after k) \<and> unat (terms_after k ! 0) = (if k = 0 then 2 else 0)"
proof (induction k)
  case 0
  then show ?case
    by (simp add: proper_terms_def nth_replicate N_def del: replicate.simps)
next
  case (Suc k)
  obtain n ts where r: "divide_terms N 0 (terms_after k) = (n, ts)"
    by (cases "divide_terms N 0 (terms_after k)")
  have p: "proper_terms (ts[0 := 0])"
    using divide_pass(1) [OF _ r] Suc.IH by blast
  then show ?case
    using r by (simp add: proper_terms_def)
qed

lemma numerator_step:
  "10 * total (terms_after k) = real (numerator_after (Suc k)) + total (terms_after (Suc k))"
  using divide_pass(4) [of "terms_after k"] terms_after_ok [of k]
  by (cases "divide_terms N 0 (terms_after k)") auto

lemma total_start: "total (terms_after 0) = series"
proof -
  have "series = 2 * weight 0 + (\<Sum>i = Suc 0..N. 2 * weight i)"
    unfolding series_def by (rule sum.atLeast_Suc_atMost) simp
  moreover have "tail_value N (replicate (N + 1) 2) = (\<Sum>i = Suc 0..N. 2 * weight i)"
    unfolding tail_value_def by (intro sum.cong) (simp_all del: replicate.simps add: nth_replicate)
  ultimately show ?thesis
    by (simp add: total_def)
qed

lemma total_later: "0 \<le> total (terms_after (Suc k))" "total (terms_after (Suc k)) < 2"
proof -
  have "unat (terms_after (Suc k) ! 0) = 0" "\<And>i. 1 \<le> i \<Longrightarrow> i \<le> N \<Longrightarrow> unat (terms_after (Suc k) ! i) \<le> 2 * i"
    using terms_after_ok [of "Suc k"] by (simp_all add: proper_terms_def del: terms_after.simps)
  then show "0 \<le> total (terms_after (Suc k))" "total (terms_after (Suc k)) < 2"
    using tail_value_less [of N "terms_after (Suc k)"] by (simp_all add: total_def del: terms_after.simps)
qed

lemma numerator_bounds: "numerator_after 1 \<le> 40" "numerator_after (Suc (Suc k)) < 20"
proof -
  have "real (numerator_after (Suc 0)) \<le> 10 * series"
    using numerator_step [of 0] total_later(1) [of 0] by (simp only: total_start)
  then have "real (numerator_after (Suc 0)) \<le> real 40"
    using series_bounds(2) by linarith
  then show "numerator_after 1 \<le> 40"
    unfolding of_nat_le_iff One_nat_def .
  have "real (numerator_after (Suc (Suc k))) < 20"
    using numerator_step [of "Suc k"] total_later(1) [of "Suc k"] total_later(2) [of k] by linarith
  then show "numerator_after (Suc (Suc k)) < 20"
    by linarith
qed

lemma raw_digit_bounds: "raw_digit 1 \<le> 4" "raw_digit k \<le> 10"
proof -
  show 1: "raw_digit 1 \<le> 4"
    using numerator_bounds(1) by (simp add: raw_digit_def)
  show "raw_digit k \<le> 10"
  proof (cases "k \<le> 1")
    case True
    then show ?thesis
      using 1 by (cases k) (simp_all add: raw_digit_def)
  next
    case False
    then obtain m where "k = Suc (Suc m)"
      by (cases k; cases "k - 1") auto
    then have "numerator_after k div 10 \<le> 1"
      using numerator_bounds(2) [of m] by simp
    moreover have "numerator_after (k - 1) mod 10 < 10"
      by simp
    ultimately show ?thesis
      unfolding raw_digit_def by linarith
  qed
qed

text \<open>The number that the first \<open>k\<close> digits make.\<close>

fun number :: "nat \<Rightarrow> nat" where
  "number 0 = 0"
| "number (Suc k) = 10 * number k + raw_digit (Suc k)"

lemma series_number:
  "10 ^ k * series = 10 * real (number k) + real (numerator_after k mod 10) + total (terms_after k)"
proof (induction k)
  case 0
  then show ?case
    using total_start by simp
next
  case (Suc k)
  let ?n = "numerator_after (Suc k)"
  have n: "real ?n = 10 * real (?n div 10) + real (?n mod 10)"
    using mult_div_mod_eq [of 10 ?n] by (metis of_nat_add of_nat_mult of_nat_numeral)
  have "10 ^ Suc k * series = 10 * (10 ^ k * series)"
    by simp
  also have "\<dots> = 100 * real (number k) + 10 * real (numerator_after k mod 10) + (real ?n + total (terms_after (Suc k)))"
    unfolding Suc.IH distrib_left numerator_step by simp
  also have "\<dots> = 10 * real (number (Suc k)) + real (?n mod 10) + total (terms_after (Suc k))"
    unfolding n number.simps raw_digit_def by simp
  finally show ?case .
qed

section \<open>What is printed\<close>

text \<open>The digits after \<open>k\<close> rounds, with the carry made.\<close>

fun final_digits :: "nat \<Rightarrow> nat list" where
  "final_digits 0 = []"
| "final_digits (Suc k) = (if raw_digit (Suc k) \<le> 9 then final_digits k @ [raw_digit (Suc k)]
     else butlast (final_digits k) @ [last (final_digits k) + 1, raw_digit (Suc k) - 10])"

definition decimal_value :: "nat list \<Rightarrow> nat" where
  "decimal_value ds = foldl (\<lambda>v d. 10 * v + d) 0 ds"

definition pi_text :: "nat list \<Rightarrow> u8 list" where
  "pi_text ds = (case ds of [] \<Rightarrow> [] | d # r \<Rightarrow> digits d @ [46] @ concat (map digits r))"

text \<open>The text on the screen: a backspace takes the last character back.\<close>

definition show_byte :: "u8 list \<Rightarrow> u8 \<Rightarrow> u8 list" where
  "show_byte t b = (if b = 8 then butlast t else t @ [b])"

fun show_call :: "u8 list \<Rightarrow> guest_call \<Rightarrow> u8 list" where
  "show_call t (Puts bs) = foldl show_byte t bs"
| "show_call t (Fsync fd) = t"

definition on_tty :: "guest_call list \<Rightarrow> u8 list" where
  "on_tty cs = foldl show_call [] cs"

text \<open>A carry goes into one digit only, and not into the first two.\<close>

definition single_carries :: "nat \<Rightarrow> bool" where
  "single_carries k \<longleftrightarrow> (\<forall>m \<in> {1..k}. 9 < raw_digit m \<longrightarrow> 3 \<le> m \<and> raw_digit (m - 1) \<le> 8)"

lemma decimal_value_snoc: "decimal_value (ds @ [d]) = 10 * decimal_value ds + d"
  by (simp add: decimal_value_def)

lemma single_carriesD:
  "single_carries (Suc k) \<Longrightarrow> single_carries k"
  "single_carries (Suc k) \<Longrightarrow> 9 < raw_digit (Suc k) \<Longrightarrow> 2 \<le> k \<and> raw_digit k \<le> 8 \<and> raw_digit (Suc k) = 10"
proof -
  show "single_carries (Suc k) \<Longrightarrow> single_carries k"
    by (auto simp: single_carries_def)
  assume "single_carries (Suc k)" and 9: "9 < raw_digit (Suc k)"
  then have "3 \<le> Suc k \<and> raw_digit (Suc k - 1) \<le> 8"
    unfolding single_carries_def by (metis atLeastAtMost_iff le_refl le_add1 plus_1_eq_Suc)
  moreover have "raw_digit (Suc k) = 10"
    using 9 raw_digit_bounds(2) [of "Suc k"] by linarith
  ultimately show "2 \<le> k \<and> raw_digit k \<le> 8 \<and> raw_digit (Suc k) = 10"
    by simp
qed

lemma final_digits_ok:
  "single_carries k \<Longrightarrow> length (final_digits k) = k \<and> (\<forall>d \<in> set (final_digits k). d \<le> 9) \<and>
     decimal_value (final_digits k) = number k \<and>
     (0 < k \<and> raw_digit k \<le> 9 \<longrightarrow> last (final_digits k) = raw_digit k)"
proof (induction k)
  case 0
  then show ?case
    by (simp add: decimal_value_def)
next
  case (Suc k)
  have IH: "length (final_digits k) = k" "\<forall>d \<in> set (final_digits k). d \<le> 9" "decimal_value (final_digits k) = number k"
    "0 < k \<and> raw_digit k \<le> 9 \<longrightarrow> last (final_digits k) = raw_digit k"
    using Suc single_carriesD(1) by blast+
  show ?case
  proof (cases "raw_digit (Suc k) \<le> 9")
    case True
    then show ?thesis
      using IH by (auto simp: decimal_value_snoc)
  next
    case False
    with single_carriesD(2) [OF Suc.prems] have c: "2 \<le> k" "raw_digit k \<le> 8" "raw_digit (Suc k) = 10"
      by simp_all
    obtain ds where ds: "final_digits k = ds @ [raw_digit k]"
      using IH(1,4) c by (cases "final_digits k" rule: rev_cases) auto
    have "decimal_value (ds @ [raw_digit k + 1, 0]) = 10 * (10 * decimal_value ds + raw_digit k + 1)"
      using decimal_value_snoc [of "ds @ [raw_digit k + 1]" 0] decimal_value_snoc [of ds "raw_digit k + 1"] by simp
    also have "\<dots> = number (Suc k)"
      using IH(3) c(3) by (simp add: ds decimal_value_snoc)
    finally show ?thesis
      using False IH(1,2) c ds by auto
  qed
qed

text \<open>The rounds of the outer loop.\<close>

fun pi_rounds :: "nat \<Rightarrow> pi_state \<Rightarrow> (int \<times> pi_state) + pi_state" where
  "pi_rounds 0 s = Inr s"
| "pi_rounds (Suc k) s = (case pi_rounds k s of
       Inl r \<Rightarrow> Inl r
     | Inr s1 \<Rightarrow> (case pi_step s1 of Inl r \<Rightarrow> Inl r | Inr s2 \<Rightarrow> Inr (s2\<lparr>outer := outer s2 + 1\<rparr>)))"

definition banner :: "u8 list" where
  "banner = bytes_of ''HAPPY PI DAY 2025 !!!'' @ [10] @ bytes_of '' Pi:'' @ [10]"

definition pi_inv :: "nat \<Rightarrow> pi_state \<Rightarrow> bool" where
  "pi_inv k s \<longleftrightarrow> terms s = terms_after k \<and> carry s = of_nat (numerator_after k mod 10) \<and> length (digit s) = 4 \<and>
     idx s \<in> {0, 1, 2, 3} \<and> plc s = (if k = 0 then 0 else 1) \<and> on_tty (calls_made s) = banner @ pi_text (final_digits k) \<and>
     (0 < k \<and> raw_digit k \<le> 9 \<longrightarrow> unat (digit s ! nat ((idx s - 1) mod 4)) = raw_digit k)"

lemma on_tty_append [simp]: "on_tty (cs @ ds) = foldl show_call (on_tty cs) ds"
  by (simp add: on_tty_def)

lemma digits_small: "d \<le> 9 \<Longrightarrow> digits d = [48 + of_nat d]"
  by (subst digits.simps) simp

lemma digit_not_backspace: "d \<le> 9 \<Longrightarrow> 48 + of_nat d \<noteq> (8 :: u8)"
proof
  assume d: "d \<le> 9" and e: "48 + of_nat d = (8 :: u8)"
  have "unat (of_nat (48 + d) :: u8) = unat (8 :: u8)"
    unfolding of_nat_add of_nat_numeral e ..
  moreover have "unat (of_nat (48 + d) :: u8) = 48 + d"
    using d by (intro unat_small) simp
  ultimately show False
    unfolding of_nat_add of_nat_numeral by simp
qed

lemma show_digit: "d \<le> 9 \<Longrightarrow> foldl show_byte t (digits d) = t @ digits d"
  by (simp add: digits_small show_byte_def digit_not_backspace)

lemma show_backspace: "show_byte t 8 = butlast t"
  by (simp add: show_byte_def)

lemma pi_text_snoc: "ds \<noteq> [] \<Longrightarrow> pi_text (ds @ [d]) = pi_text ds @ digits d"
  by (cases ds) (simp_all add: pi_text_def)

lemma next_idx_cases: "i \<in> {0, 1, 2, 3} \<Longrightarrow> length ds = 4 \<Longrightarrow> \<exists>a b c d. ds = [a, b, c, d]"
  by (auto simp: length_Suc_conv eval_nat_numeral)

lemma next_idx_after:
  "idx x \<in> {0, 1, 2, 3} \<Longrightarrow> idx (next_idx x) \<in> {0, 1, 2, 3} \<and> (idx (next_idx x) - 1) mod 4 = idx x"
  "terms (next_idx x) = terms x" "carry (next_idx x) = carry x" "digit (next_idx x) = digit x" "plc (next_idx x) = plc x"
  "outer (next_idx x) = outer x" "calls_made (next_idx x) = calls_made x"
  by (auto simp: next_idx_def BUF_SIZE_def Let_def)

lemma pi_inv_next:
  assumes "terms x = terms_after k" "carry x = of_nat (numerator_after k mod 10)" "length (digit x) = 4" "idx x \<in> {0, 1, 2, 3}"
    "plc x = (if k = 0 then 0 else 1)" "on_tty (calls_made x) = banner @ pi_text (final_digits k)"
    "0 < k \<and> raw_digit k \<le> 9 \<longrightarrow> unat (digit x ! nat (idx x)) = raw_digit k"
  shows "pi_inv k (next_idx x)"
  using assms next_idx_after(1) [OF assms(4)] unfolding pi_inv_def next_idx_after(2-) by (simp del: insert_iff)

lemma put_plain:
  assumes "unat (digit s ! nat (idx s)) \<le> 9"
  shows "\<exists>s'. put_next s = Inr s' \<and> s' = s\<lparr>plc := (if plc s = 0 then 1 else plc s), calls_made := calls_made s'\<rparr> \<and>
    on_tty (calls_made s') = on_tty (calls_made s) @ digits (unat (digit s ! nat (idx s))) @ (if plc s = 0 then [46] else [])"
proof -
  have "\<not> 9 < digit s ! nat (idx s)"
    using assms by (simp add: word_less_nat_alt)
  then show ?thesis
    using assms by (simp add: put_next_def print_digit_def call_pi_def show_digit) (simp add: show_byte_def)
qed

lemma put_carry:
  assumes "digit s ! nat (idx s) = 10" "unat (digit s ! nat ((idx s - 1) mod 4)) \<le> 8" "idx s \<in> {0, 1, 2, 3}" "length (digit s) = 4"
  defines "v \<equiv> unat (digit s ! nat ((idx s - 1) mod 4))"
  shows "\<exists>s'. put_next s = Inr s' \<and> terms s' = terms s \<and> plc s' = plc s \<and> length (digit s') = 4 \<and> idx s' = (idx s + 1) mod 4 \<and> outer s' = 2 \<and>
    on_tty (calls_made s') = butlast (on_tty (calls_made s)) @ digits (v + 1) @ digits 0"
proof -
  obtain a b c d where ds: "digit s = [a, b, c, d]"
    using next_idx_cases [OF assms(3,4)] by blast
  have inc: "x + 1 < 10 \<and> unat (x + 1) = unat x + 1" if "unat x \<le> 8" for x :: u16
  proof -
    have "unat (x + 1) = unat x + 1"
      using that by (subst unat_add_lem [THEN iffD1]) simp_all
    then show ?thesis
      using that by (simp add: word_less_nat_alt)
  qed
  note defs = put_next_def carry_loop.simps [of "Suc 0"] back_carry_def call_pi_def print_digit_def next_idx_def Let_def BUF_SIZE_def
  from assms(3) consider "idx s = 0" | "idx s = 1" | "idx s = 2" | "idx s = 3"
    by blast
  then show ?thesis
  proof cases
    case 1
    then show ?thesis
      using assms(1,2) inc [of d] ds show_digit [of "unat d + 1"] show_digit [of 0] by (simp add: defs v_def show_backspace)
  next
    case 2
    then show ?thesis
      using assms(1,2) inc [of a] ds show_digit [of "unat a + 1"] show_digit [of 0] by (simp add: defs v_def show_backspace)
  next
    case 3
    then show ?thesis
      using assms(1,2) inc [of b] ds show_digit [of "unat b + 1"] show_digit [of 0] by (simp add: defs v_def show_backspace)
  next
    case 4
    then show ?thesis
      using assms(1,2) inc [of c] ds show_digit [of "unat c + 1"] show_digit [of 0] by (simp add: defs v_def show_backspace)
  qed
qed

lemma round_numerator:
  assumes s: "terms s = terms_after k" "carry s = of_nat (numerator_after k mod 10)"
    and d: "divide_terms N 0 (terms s) = (n, ts)"
  defines "num \<equiv> n + ucast (ts ! 0 * 10)"
  shows "unat (ucast (num div 10 + ucast (carry s)) :: u16) = raw_digit (Suc k)"
    "ucast (num mod 10) = (of_nat (numerator_after (Suc k) mod 10) :: u16)" "ts[0 := 0] = terms_after (Suc k)"
proof -
  have p: "proper_terms (terms s)" "unat (terms s ! 0) \<le> 2"
    using terms_after_ok [of k] s(1) by auto
  note pass = divide_pass(2,3) [OF p(1) d]
  have "unat (ts ! 0 * 10) = unat (ts ! 0) * 10"
    using p(2) pass(1) by (subst unat_mult_lem [THEN iffD1]) simp_all
  then have z: "unat (ucast (ts ! 0 * 10) :: u32) = 10 * unat (terms_after k ! 0)"
    using p(2) pass(1) s(1) by (simp add: unsigned_ucast_eq take_bit_nat_eq_self)
  have "unat num = unat n + 10 * unat (terms_after k ! 0)"
    unfolding num_def using z pass(2) p(2) s(1) by (subst unat_add_lem [THEN iffD1]) simp_all
  also have "\<dots> = numerator_after (Suc k)"
    using d s(1) by simp
  finally have num: "unat num = numerator_after (Suc k)" .
  have "unat (ucast (carry s) :: u32) = numerator_after k mod 10"
  proof -
    have "numerator_after k mod 10 < 10"
      by simp
    then show ?thesis
      unfolding s(2) by (simp add: unsigned_ucast_eq unsigned_of_nat take_bit_nat_eq_self)
  qed
  moreover have "numerator_after (Suc k) div 10 + numerator_after k mod 10 \<le> 10"
    using raw_digit_bounds(2) [of "Suc k"] by (simp add: raw_digit_def)
  ultimately have "unat (num div 10 + ucast (carry s)) = raw_digit (Suc k)"
    by (subst unat_add_lem [THEN iffD1]) (simp_all add: unat_div_distrib num raw_digit_def)
  then show "unat (ucast (num div 10 + ucast (carry s)) :: u16) = raw_digit (Suc k)"
    using raw_digit_bounds(2) [of "Suc k"] by (simp add: unsigned_ucast_eq take_bit_nat_eq_self)
  have "num mod 10 = of_nat (numerator_after (Suc k) mod 10)"
    unfolding num [symmetric] by (simp add: word_unat_eq_iff unat_mod_distrib unsigned_of_nat take_bit_nat_eq_self)
  then show "ucast (num mod 10) = (of_nat (numerator_after (Suc k) mod 10) :: u16)"
    by (simp add: word_unat_eq_iff unsigned_ucast_eq unsigned_of_nat take_bit_nat_eq_self)
  show "ts[0 := 0] = terms_after (Suc k)"
    using d s(1) by simp
qed

lemma pi_step_inv:
  assumes s: "pi_inv k s" and c: "single_carries (Suc k)"
  shows "\<exists>s'. pi_step s = Inr s' \<and> pi_inv (Suc k) s' \<and> outer s' = (if raw_digit (Suc k) \<le> 9 then outer s else 2)"
proof -
  obtain n ts where d: "divide_terms N 0 (terms s) = (n, ts)"
    by (cases "divide_terms N 0 (terms s)")
  define num where "num = n + ucast (ts ! 0 * 10)"
  define w where "w = (ucast (num div 10 + ucast (carry s)) :: u16)"
  define s1 where "s1 = s\<lparr>terms := ts, digit := (digit s)[nat (idx s) := w]\<rparr>"
  have i: "idx s \<in> {0, 1, 2, 3}" "length (digit s) = 4"
    using s by (simp_all add: pi_inv_def)
  have r: "unat w = raw_digit (Suc k)" "ucast (num mod 10) = (of_nat (numerator_after (Suc k) mod 10) :: u16)" "ts[0 := 0] = terms_after (Suc k)"
    using round_numerator [OF _ _ d] s unfolding pi_inv_def num_def w_def by blast+
  have w: "digit s1 ! nat (idx s1) = w"
    using i by (auto simp: s1_def)
  have inv: "plc s = (if k = 0 then 0 else 1)" "on_tty (calls_made s) = banner @ pi_text (final_digits k)"
    using s by (simp_all add: pi_inv_def)
  have fd: "length (final_digits k) = k"
    using final_digits_ok [OF single_carriesD(1) [OF c]] by blast
  have step: "pi_step s = Inr (next_idx (s2\<lparr>carry := of_nat (numerator_after (Suc k) mod 10), terms := terms_after (Suc k)\<rparr>))"
    if "put_next s1 = Inr s2" "terms s2 = ts" for s2
    using that d r(2,3) by (simp add: pi_step_def num_def w_def s1_def del: terms_after.simps numerator_after.simps)
  show ?thesis
  proof (cases "raw_digit (Suc k) \<le> 9")
    case True
    then obtain s2 where s2: "put_next s1 = Inr s2" "s2 = s1\<lparr>plc := (if plc s1 = 0 then 1 else plc s1), calls_made := calls_made s2\<rparr>"
      "on_tty (calls_made s2) = on_tty (calls_made s1) @ digits (raw_digit (Suc k)) @ (if plc s1 = 0 then [46] else [])"
      using put_plain [of s1] w r(1) by auto
    have o: "outer s2 = outer s" and "terms s2 = ts" "digit s2 = digit s1" "idx s2 = idx s" "plc s2 = 1"
      using s by (subst s2(2), simp add: s1_def pi_inv_def)+
    moreover have "on_tty (calls_made s2) = banner @ pi_text (final_digits (Suc k))"
    proof (cases "k = 0")
      case True
      then show ?thesis
        using s2(3) inv \<open>raw_digit (Suc k) \<le> 9\<close> by (simp add: s1_def pi_text_def)
    next
      case False
      then have "final_digits k \<noteq> []"
        using fd by auto
      then show ?thesis
        using s2(3) inv \<open>raw_digit (Suc k) \<le> 9\<close> False by (simp add: s1_def pi_text_snoc)
    qed
    ultimately have "pi_inv (Suc k) (next_idx (s2\<lparr>carry := of_nat (numerator_after (Suc k) mod 10), terms := terms_after (Suc k)\<rparr>))"
      using i w r(1) by (intro pi_inv_next) (simp_all add: s1_def del: terms_after.simps numerator_after.simps final_digits.simps)
    then show ?thesis
      using step [OF s2(1)] \<open>terms s2 = ts\<close> o True by (simp add: next_idx_after del: terms_after.simps numerator_after.simps)
  next
    case False
    then have c: "2 \<le> k" "raw_digit k \<le> 8" "raw_digit (Suc k) = 10"
      using single_carriesD(2) [OF c] by simp_all
    define ds where "ds = butlast (final_digits k)"
    have last: "last (final_digits k) = raw_digit k" "final_digits k \<noteq> []"
      using final_digits_ok [OF single_carriesD(1) [OF assms(2)]] c fd by auto
    have "length ds = k - 1"
      using fd by (simp add: ds_def)
    then have "ds \<noteq> []"
      using c(1) by (intro notI) simp
    moreover have "final_digits k = ds @ [raw_digit k]"
      using last(1) append_butlast_last_id [OF last(2)] by (simp add: ds_def)
    ultimately have ds: "final_digits k = ds @ [raw_digit k]" "ds \<noteq> []"
      by blast+
    have w10: "digit s1 ! nat (idx s1) = 10"
      using r(1) c(3) w by (simp add: word_unat_eq_iff)
    have prev: "unat (digit s1 ! nat ((idx s1 - 1) mod 4)) = raw_digit k"
      using s c i by (auto simp: pi_inv_def s1_def)
    obtain s2 where s2: "put_next s1 = Inr s2" "terms s2 = ts" "plc s2 = 1" "length (digit s2) = 4" "idx s2 = (idx s + 1) mod 4" "outer s2 = 2"
      "on_tty (calls_made s2) = butlast (banner @ pi_text (final_digits k)) @ digits (raw_digit k + 1) @ digits 0"
      using put_carry [OF w10] prev c i inv by (auto simp: s1_def)
    have "butlast (banner @ pi_text (final_digits k)) = banner @ pi_text ds"
      using ds c(2) by (simp add: pi_text_snoc digits_small butlast_append)
    moreover have "pi_text (ds @ [raw_digit k + 1, 0]) = pi_text ds @ digits (raw_digit k + 1) @ digits 0"
      using pi_text_snoc [of "ds @ [raw_digit k + 1]" 0] pi_text_snoc [OF ds(2)] by simp
    ultimately have "on_tty (calls_made s2) = banner @ pi_text (final_digits (Suc k))"
      using s2(7) ds c(3) by simp
    then have "pi_inv (Suc k) (next_idx (s2\<lparr>carry := of_nat (numerator_after (Suc k) mod 10), terms := terms_after (Suc k)\<rparr>))"
      using s2(3-5) c i by (intro pi_inv_next) (auto simp del: terms_after.simps numerator_after.simps final_digits.simps)
    then show ?thesis
      using step [OF s2(1,2)] s2(6) False by (simp add: next_idx_after del: terms_after.simps numerator_after.simps)
  qed
qed

lemma pi_inv_outer: "pi_inv k (s\<lparr>outer := x\<rparr>) = pi_inv k s"
  by (simp add: pi_inv_def)

lemma pi_rounds_inv:
  assumes "length d = 4"
  shows "single_carries k \<Longrightarrow> k \<le> N div 4 \<Longrightarrow>
    \<exists>s. pi_rounds k (pi_start d) = Inr s \<and> pi_inv k s \<and> unat (outer s) \<le> k \<and> pi_main d = pi_loop s"
proof (induction k)
  case 0
  have "(8 :: u8) \<notin> set banner"
    by code_simp
  moreover have "8 \<notin> set bs \<Longrightarrow> foldl show_byte t bs = t @ bs" for t bs
    by (induction bs arbitrary: t) (auto simp: show_byte_def)
  ultimately have "on_tty [Puts banner] = banner"
    by (simp add: on_tty_def)
  then show ?case
    using assms by (simp add: pi_inv_def pi_start_def pi_main_def pi_text_def banner_def del: replicate.simps)
next
  case (Suc k)
  obtain s where s: "pi_rounds k (pi_start d) = Inr s" "pi_inv k s" "unat (outer s) \<le> k" "pi_main d = pi_loop s"
    using Suc.IH single_carriesD(1) [OF Suc.prems(1)] Suc.prems(2) by auto
  obtain s' where s': "pi_step s = Inr s'" "pi_inv (Suc k) s'" "outer s' = (if raw_digit (Suc k) \<le> 9 then outer s else 2)"
    using pi_step_inv [OF s(2) Suc.prems(1)] by blast
  have k: "k < 540"
    using Suc.prems(2) by (simp add: N_def)
  have "unat (outer s') \<le> k"
    using s'(3) s(3) single_carriesD(2) [OF Suc.prems(1)] by auto
  moreover from this have "unat (outer s' + 1) = unat (outer s') + 1"
    using k by (subst unat_add_lem [THEN iffD1]) simp_all
  moreover have "outer s < of_nat (N div 4)"
    using s(3) k by (simp add: N_def word_less_nat_alt)
  then have "pi_loop s = pi_loop (s'\<lparr>outer := outer s' + 1\<rparr>)"
    using s'(1) pi_loop.simps [of s] by simp
  ultimately show ?case
    using s s' by (simp add: pi_inv_outer)
qed



end
