(* ===== verification/Mandelbrot.thy ===== *)
theory Mandelbrot
  imports Client
begin

text \<open>
  The guest program \<^verbatim>\<open>mandelbrot.c\<close>: fixed-point iteration in the 32-bit \<^verbatim>\<open>long\<close> of cc65, and
  the loops that send the picture column by column to the pixel cursor of the frame buffer.
\<close>

section \<open>The iteration\<close>

text \<open>A \<^verbatim>\<open>nint_t\<close> is an integer that every operation wraps to 32 bits; \<^verbatim>\<open>>>\<close> keeps the sign.\<close>

definition MAXITERATE :: nat where
  "MAXITERATE = 32"

definition NORM_FACT :: int where
  "NORM_FACT = int32 (push_bit 13 1)"

fun iterate_loop :: "nat \<Rightarrow> int \<Rightarrow> int \<Rightarrow> int \<Rightarrow> int \<Rightarrow> int \<Rightarrow> int" where
  "iterate_loop 0 i real imag real0 imag0 = i"
| "iterate_loop (Suc n) i real imag real0 imag0 =
     (let realq = drop_bit 13 (int32 (real * real));
          imagq = drop_bit 13 (int32 (imag * imag))
      in if int32 (4 * NORM_FACT) < int32 (realq + imagq) then i
         else
           let imag' = int32 (drop_bit 12 (int32 (real * imag)) + imag0);
               real' = int32 (int32 (realq - imagq) + real0)
           in iterate_loop n (i + 1) real' imag' real0 imag0)"

definition iterate :: "int \<Rightarrow> int \<Rightarrow> int" where
  "iterate real0 imag0 = iterate_loop MAXITERATE 0 real0 imag0 real0 imag0"

section \<open>Drawing\<close>

text \<open>\<^verbatim>\<open>realmin + deltareal * x / hres\<close>, and \<^verbatim>\<open>imagmax - deltaimag * y / vres\<close>.\<close>

definition real_at :: "int \<Rightarrow> int \<Rightarrow> int \<Rightarrow> int \<Rightarrow> int" where
  "real_at realmin deltareal hres x = int32 (realmin + int32 (int32 (deltareal * x) sdiv hres))"

definition imag_at :: "int \<Rightarrow> int \<Rightarrow> int \<Rightarrow> int \<Rightarrow> int" where
  "imag_at imagmax deltaimag vres y = int32 (imagmax - int32 (int32 (deltaimag * y) sdiv vres))"

text \<open>The loop over \<^verbatim>\<open>_y\<close>; the result is the new \<open>y\<close>.\<close>

function fill_loop :: "host \<Rightarrow> int \<Rightarrow> int \<Rightarrow> int \<Rightarrow> int \<Rightarrow> int \<Rightarrow> 'a mailbox_scheme \<Rightarrow> (int \<times> 'a mailbox_scheme) run" where
  "fill_loop H col deltaimag vres k y s =
     (if y < vres \<and> int32 (deltaimag * k) < vres then
        (case mem_write H 0xFF06 (word_of_int (col + 16)) s of
           Inl e \<Rightarrow> Inl e
         | Inr s \<Rightarrow> fill_loop H col deltaimag vres (k + 1) (y + 1) s)
      else Inr (y, s))"
  by pat_completeness auto

termination by (relation "measure (\<lambda>(H, col, deltaimag, vres, k, y, s). nat (vres - y))") auto

declare fill_loop.simps [simp del]

partial_function (option) column_loop ::
  "host \<Rightarrow> int \<Rightarrow> int \<Rightarrow> int \<Rightarrow> int \<Rightarrow> int \<Rightarrow> 'a mailbox_scheme \<Rightarrow> 'a mailbox_scheme run option" where
  "column_loop H real0 imagmax deltaimag vres y s =
     (if y < vres then
        (case fill_loop H (iterate real0 (imag_at imagmax deltaimag vres y)) deltaimag vres 0 y s of
           Inl e \<Rightarrow> Some (Inl e)
         | Inr (y, s) \<Rightarrow> column_loop H real0 imagmax deltaimag vres y s)
      else Some (Inr s))"

partial_function (option) picture_loop ::
  "host \<Rightarrow> int \<Rightarrow> int \<Rightarrow> int \<Rightarrow> int \<Rightarrow> int \<Rightarrow> int \<Rightarrow> int \<Rightarrow> int \<Rightarrow> 'a mailbox_scheme \<Rightarrow> 'a mailbox_scheme run option" where
  "picture_loop H realmin imagmax deltareal deltaimag hres vres skip x s =
     (if x < hres then
        (case loop_result (column_loop H (real_at realmin deltareal hres x) imagmax deltaimag vres 0 s) of
           Inl e \<Rightarrow> Some (Inl e)
         | Inr s \<Rightarrow> (case mem_write H 0xFF0A 0 s of
             Inl e \<Rightarrow> Some (Inl e)
           | Inr s \<Rightarrow> picture_loop H realmin imagmax deltareal deltaimag hres vres skip (int16 (x + skip)) s))
      else Some (Inr s))"

text \<open>\<open>x0\<close> and \<open>y0\<close> are what the variables \<open>x\<close> and \<open>y\<close> hold before they are set.\<close>

definition mand_calc ::
  "host \<Rightarrow> u16 \<Rightarrow> u16 \<Rightarrow> int \<Rightarrow> int \<Rightarrow> int \<Rightarrow> int \<Rightarrow> int \<Rightarrow> int \<Rightarrow> int \<Rightarrow> int \<Rightarrow> 'a mailbox_scheme \<Rightarrow> 'a mailbox_scheme run" where
  "mand_calc H x0 y0 realmin imagmin realmax imagmax hres vres start skip s =
     (let deltareal = int32 (realmax - realmin); deltaimag = int32 (imagmax - imagmin) in
      bindR (store16 H 0xFF00 x0 s) (\<lambda>s.
      bindR (store16 H 0xFF02 y0 s) (\<lambda>s.
      bindR (mem_write H 0xFF04 1 s) (\<lambda>s.
      loop_result (picture_loop H realmin imagmax deltareal deltaimag hres vres skip start s)))))"

text \<open>The texts are at the addresses \<open>cls\<close>, \<dots>; the results of the calls are not used.\<close>

definition mandelbrot_main ::
  "host \<Rightarrow> u16 \<Rightarrow> u16 \<Rightarrow> u16 \<Rightarrow> u16 list \<Rightarrow> u16 list \<Rightarrow> u16 \<Rightarrow> u16 \<Rightarrow> 'a mailbox_scheme \<Rightarrow> (u16 \<times> 'a mailbox_scheme) run" where
  "mandelbrot_main H cb cbk sys before after x0 y0 s =
     (let texts = \<lambda>ts s. foldl (\<lambda>r t. bindR r (\<lambda>s. bindR (pi_puts H cbk t s) (\<lambda>(_, s). Inr s))) (Inr s) ts in
      bindR (pi_fb_init H cbk sys s) (\<lambda>(_, s).
      bindR (texts before s) (\<lambda>s.
      bindR (mand_calc H x0 y0 (-21 * 819) (-18 * 819) (11 * 819) (25 * 819) 720 400 0 1 s) (\<lambda>s.
      bindR (texts after s) (\<lambda>s.
      bindR (pi_sysexit H cb cbk 0 s) (\<lambda>(_, s). Inr (0, s)))))))"

section \<open>The count is exact where nothing wraps\<close>

text \<open>The orbit in unbounded fixed-point numbers, rounded down as the code does.\<close>

fun orbit :: "int \<Rightarrow> int \<Rightarrow> nat \<Rightarrow> int \<times> int" where
  "orbit r0 i0 0 = (r0, i0)"
| "orbit r0 i0 (Suc n) = (case orbit r0 i0 n of (r, i) \<Rightarrow> (r * r div 8192 - i * i div 8192 + r0, r * i div 4096 + i0))"

definition escaped :: "int \<times> int \<Rightarrow> bool" where
  "escaped z \<longleftrightarrow> 4 * 8192 < fst z * fst z div 8192 + snd z * snd z div 8192"

text \<open>\<open>n\<close> is the first step at which the orbit has escaped, or the limit.\<close>

definition escape_count :: "int \<Rightarrow> int \<Rightarrow> int \<Rightarrow> bool" where
  "escape_count r0 i0 n \<longleftrightarrow> 0 \<le> n \<and> n \<le> int MAXITERATE \<and> (\<forall>j < nat n. \<not> escaped (orbit r0 i0 j)) \<and>
     (n < int MAXITERATE \<longrightarrow> escaped (orbit r0 i0 (nat n)))"

lemma square_bound: "\<bar>a\<bar> \<le> 46340 \<Longrightarrow> \<bar>b\<bar> \<le> 46340 \<Longrightarrow> \<bar>a * b\<bar> \<le> (2147395600 :: int)"
  using mult_mono [of "\<bar>a\<bar>" 46340 "\<bar>b\<bar>" 46340] by (simp add: abs_mult)

lemma int32_product: "\<bar>a\<bar> \<le> 46340 \<Longrightarrow> \<bar>b\<bar> \<le> 46340 \<Longrightarrow> int32 (a * b) = a * b"
  using square_bound [of a b] by (intro int32_id) linarith+

lemma product_half:
  fixes r i :: int
  assumes "r * r div 8192 + i * i div 8192 \<le> 32768"
  shows "\<bar>r * i div 4096\<bar> \<le> 32770"
proof -
  have "r * r < 8192 * (r * r div 8192 + 1)" "i * i < 8192 * (i * i div 8192 + 1)"
    by simp_all
  then have s: "r * r + i * i \<le> 8192 * 32770"
    using assms by linarith
  have "0 \<le> (r - i) * (r - i)" "0 \<le> (r + i) * (r + i)"
    by simp_all
  then have "2 * (r * i) \<le> r * r + i * i" "- (r * r + i * i) \<le> 2 * (r * i)"
    by (simp_all add: algebra_simps)
  with s have "- (32770 * 4096) \<le> r * i" "r * i \<le> 32770 * 4096"
    by linarith+
  then have "- (32770 * 4096) div 4096 \<le> r * i div 4096" "r * i div 4096 \<le> 32770 * 4096 div 4096"
    by (intro zdiv_mono1; simp)+
  then show ?thesis
    by simp
qed

lemma iterate_loop_exact:
  assumes c: "\<bar>r0\<bar> \<le> 13570" "\<bar>i0\<bar> \<le> 13570"
  shows "orbit r0 i0 k = (r, i) \<Longrightarrow> \<bar>r\<bar> \<le> 46340 \<Longrightarrow> \<bar>i\<bar> \<le> 46340 \<Longrightarrow>
    \<exists>m. iterate_loop n (int k) r i r0 i0 = int m \<and> k \<le> m \<and> m \<le> k + n \<and> (\<forall>j \<in> {k..<m}. \<not> escaped (orbit r0 i0 j)) \<and>
      (m < k + n \<longrightarrow> escaped (orbit r0 i0 m))"
proof (induction n arbitrary: k r i)
  case 0
  then show ?case
    by auto
next
  case (Suc n)
  let ?rq = "r * r div 8192" and ?iq = "i * i div 8192"
  have q: "drop_bit 13 (int32 (r * r)) = ?rq" "drop_bit 13 (int32 (i * i)) = ?iq" "drop_bit 12 (int32 (r * i)) = r * i div 4096"
    using Suc.prems(2,3) by (simp_all add: int32_product drop_bit_eq_div)
  have pos: "0 \<le> ?rq" "0 \<le> ?iq"
    by (simp_all add: pos_imp_zdiv_nonneg_iff)
  have "?rq \<le> 2147395600 div 8192" "?iq \<le> 2147395600 div 8192"
    using square_bound [OF Suc.prems(2,2)] square_bound [OF Suc.prems(3,3)] by (intro zdiv_mono1; simp)+
  then have sum: "int32 (?rq + ?iq) = ?rq + ?iq"
    using pos by (intro int32_id) simp_all
  have four: "int32 (4 * NORM_FACT) = 32768"
    by (simp add: NORM_FACT_def int32_def)
  show ?case
  proof (cases "escaped (orbit r0 i0 k)")
    case True
    then have "iterate_loop (Suc n) (int k) r i r0 i0 = int k"
      using Suc.prems(1) by (simp add: q sum four escaped_def)
    then show ?thesis
      using True by (intro exI [of _ k]) simp
  next
    case False
    then have small: "?rq + ?iq \<le> 32768"
      using Suc.prems(1) by (simp add: escaped_def)
    define r' where "r' = ?rq - ?iq + r0"
    define i' where "i' = r * i div 4096 + i0"
    have r': "\<bar>r'\<bar> \<le> 46340" and i': "\<bar>i'\<bar> \<le> 46340"
      using small pos c product_half [OF small] unfolding r'_def i'_def by linarith+
    have e: "int32 (?rq - ?iq) = ?rq - ?iq" "int32 (?rq - ?iq + r0) = r'" "int32 (r * i div 4096 + i0) = i'"
      using small pos r' i' unfolding r'_def i'_def by (intro int32_id; linarith)+
    have ns: "\<not> 32768 < ?rq + ?iq" and k1: "int k + 1 = int (Suc k)"
      using small by simp_all
    have "iterate_loop (Suc n) (int k) r i r0 i0 = iterate_loop n (int (Suc k)) r' i' r0 i0"
      by (simp only: iterate_loop.simps Let_def q sum four ns if_False e k1)
    moreover have "orbit r0 i0 (Suc k) = (r', i')"
      using Suc.prems(1) by (simp add: r'_def i'_def)
    ultimately obtain m where m: "iterate_loop (Suc n) (int k) r i r0 i0 = int m" "Suc k \<le> m" "m \<le> Suc k + n"
      "\<forall>j \<in> {Suc k..<m}. \<not> escaped (orbit r0 i0 j)" "m < Suc k + n \<longrightarrow> escaped (orbit r0 i0 m)"
      using Suc.IH [of "Suc k" r' i'] r' i' by auto
    have "\<forall>j \<in> {k..<m}. \<not> escaped (orbit r0 i0 j)"
      using m(4) False by (auto simp: le_less Suc_le_eq)
    with m show ?thesis
      by (intro exI [of _ m]) simp
  qed
qed

text \<open>C26. Within 1.65 of the axes the iteration counts exactly: no product, sum or shift in 32 bits wraps
  around, and the result is the first step at which the orbit of the point leaves the disk of
  radius 2, or 32.\<close>

theorem iterate_exact:
  assumes "\<bar>r0\<bar> \<le> 13570" "\<bar>i0\<bar> \<le> 13570"
  shows "escape_count r0 i0 (iterate r0 i0)"
proof -
  obtain m where "iterate r0 i0 = int m" "m \<le> MAXITERATE" "\<forall>j \<in> {0..<m}. \<not> escaped (orbit r0 i0 j)"
    "m < MAXITERATE \<longrightarrow> escaped (orbit r0 i0 m)"
    using iterate_loop_exact [OF assms, of 0 r0 i0 MAXITERATE] assms by (auto simp: iterate_def)
  then show ?thesis
    by (simp add: escape_count_def)
qed

lemma iterate_exact_witness: "escape_count 8192 0 (iterate 8192 0) \<and> iterate 8192 0 = 2"
  using iterate_exact [of 8192 0] by (simp add: iterate_def MAXITERATE_def eval_nat_numeral NORM_FACT_def int32_def)

text \<open>C27. Beyond that the square of a component can wrap around, and in the program's own picture it
  does: for the pixel in column 29 and row 227 the orbit escapes at step 4, and the iteration goes
  on to 6, so the pixel is drawn in the wrong colour.\<close>

theorem iterate_wraps:
  "real_at (-21 * 819) (11 * 819 - -21 * 819) 720 29 = -16144 \<and> imag_at (25 * 819) (25 * 819 - -18 * 819) 400 227 = 490 \<and>
   escape_count (-16144) 490 4 \<and> iterate (-16144) 490 = 6"
proof -
  have "real_at (-21 * 819) (11 * 819 - -21 * 819) 720 29 = -16144" "imag_at (25 * 819) (25 * 819 - -18 * 819) 400 227 = 490"
    "iterate (-16144) 490 = 6"
    by code_simp+
  moreover have "\<not> escaped (orbit (-16144) 490 0)" "\<not> escaped (orbit (-16144) 490 1)" "\<not> escaped (orbit (-16144) 490 2)"
    "\<not> escaped (orbit (-16144) 490 3)" "escaped (orbit (-16144) 490 4)"
    by (simp_all add: escaped_def eval_nat_numeral)
  then have "escape_count (-16144) 490 4"
    by (auto simp: escape_count_def MAXITERATE_def less_Suc_eq eval_nat_numeral)
  ultimately show ?thesis
    by blast
qed

section \<open>The picture\<close>

definition fb_ready :: "'a mailbox_scheme \<Rightarrow> bool" where
  "fb_ready s \<longleftrightarrow> fb_ok s \<and> io_write_top_handler s 0 = Some Fb_mem_io_write"

text \<open>The colours a run leaves on the screen; the rest of it is as before.\<close>

definition drew :: "(int \<times> int \<Rightarrow> u8 option) \<Rightarrow> 'a mailbox_scheme \<Rightarrow> 'a mailbox_scheme \<Rightarrow> bool" where
  "drew f s s' \<longleftrightarrow> fb_ready s' \<and> (\<forall>q. on_screen s' q = on_screen s q) \<and> p_cursor_base_y s' = p_cursor_base_y s \<and>
     (\<forall>q. on_screen s q \<longrightarrow> pixel s' q = (case f q of None \<Rightarrow> pixel s q | Some c \<Rightarrow> palette ! unat c))"

lemma drew_nothing: "fb_ready s \<Longrightarrow> drew Map.empty s s"
  by (simp add: drew_def)

lemma drew_trans: "drew f s s1 \<Longrightarrow> drew g s1 s2 \<Longrightarrow> drew (f ++ g) s s2"
  by (auto simp: drew_def map_add_def split: option.splits)

lemma drew_cong: "drew f s s' \<Longrightarrow> (\<And>q. f q = g q) \<Longrightarrow> drew g s s'"
  by (simp add: drew_def)

lemma drewD:
  assumes "drew f s s'"
  shows "fb_ready s'" "on_screen s' q = on_screen s q" "p_cursor_base_y s' = p_cursor_base_y s"
  using assms unfolding drew_def by blast+

lemma fb_register:
  assumes "fb_ready s"
  shows "mem_write H 0xFF00 v s = fb_mem_io_write 0xFF00 v s" "mem_write H 0xFF01 v s = fb_mem_io_write 0xFF01 v s"
    "mem_write H 0xFF02 v s = fb_mem_io_write 0xFF02 v s" "mem_write H 0xFF03 v s = fb_mem_io_write 0xFF03 v s"
    "mem_write H 0xFF04 v s = fb_mem_io_write 0xFF04 v s" "mem_write H 0xFF06 v s = fb_mem_io_write 0xFF06 v s"
    "mem_write H 0xFF0A v s = fb_mem_io_write 0xFF0A v s"
  using assms by (simp_all add: mem_write_top write_himem2_top_def fb_ready_def)

text \<open>A point drawn with the cursor in place.\<close>

lemma point_drew:
  fixes t :: "'a mailbox_scheme"
  assumes t: "fb_ready t" and on: "on_screen t (uint x, uint y)" and c: "unat c < 255"
  shows "\<exists>t'. prim_point x y c t = Inr t' \<and> drew [(uint x, uint y) \<mapsto> c] t t' \<and> p_cursor_x t' = p_cursor_x t \<and>
    p_cursor_y t' = p_cursor_y t \<and> p_cursor_base_x t' = p_cursor_base_x t"
proof -
  let ?p = "(uint x, uint y)"
  let ?t' = "t\<lparr>fbmem := (fbmem t)(offset t ?p := lo8 (palette ! unat c), Suc (offset t ?p) := hi8 (palette ! unat c))\<rparr>"
  have ok: "fb_ok t"
    using t by (simp add: fb_ready_def)
  have "prim_point x y c t = Inr ?t'"
    using plot_on_screen [OF ok on c] by (simp add: plot_def)
  moreover have "drew [?p \<mapsto> c] t ?t'"
    using t pixel_store [OF ok on] by (simp add: drew_def fb_ready_def)
  ultimately show ?thesis
    by (intro exI [of _ ?t']) simp
qed

lemma cursor_frame [simp]:
  "fb_ready (s\<lparr>p_cursor_base_x := b\<rparr>) = fb_ready s" "on_screen (s\<lparr>p_cursor_base_x := b\<rparr>) q = on_screen s q" "pixel (s\<lparr>p_cursor_base_x := b\<rparr>) q = pixel s q"
  "fb_ready (s\<lparr>p_cursor_x := b\<rparr>) = fb_ready s" "on_screen (s\<lparr>p_cursor_x := b\<rparr>) q = on_screen s q" "pixel (s\<lparr>p_cursor_x := b\<rparr>) q = pixel s q"
  "fb_ready (s\<lparr>p_cursor_y := b\<rparr>) = fb_ready s" "on_screen (s\<lparr>p_cursor_y := b\<rparr>) q = on_screen s q" "pixel (s\<lparr>p_cursor_y := b\<rparr>) q = pixel s q"
  "fb_ready (s\<lparr>p_cursor_base_y := b\<rparr>) = fb_ready s" "on_screen (s\<lparr>p_cursor_base_y := b\<rparr>) q = on_screen s q" "pixel (s\<lparr>p_cursor_base_y := b\<rparr>) q = pixel s q"
  by (simp_all add: fb_ready_def fb_ok_def on_screen_def pixel_def offset_def)

lemma store_down:
  assumes "fb_ready s" "on_screen s (uint (p_cursor_x s), uint (p_cursor_y s))" "unat c < 255"
  shows "\<exists>s'. mem_write H 0xFF06 c s = Inr s' \<and> drew [(uint (p_cursor_x s), uint (p_cursor_y s)) \<mapsto> c] s s' \<and>
    p_cursor_x s' = p_cursor_x s \<and> p_cursor_y s' = p_cursor_y s + 1 \<and> p_cursor_base_x s' = p_cursor_base_x s"
proof -
  let ?t = "s\<lparr>p_cursor_y := p_cursor_y s + 1\<rparr>"
  obtain t' where t': "prim_point (p_cursor_x s) (p_cursor_y s) c ?t = Inr t'"
    "drew [(uint (p_cursor_x s), uint (p_cursor_y s)) \<mapsto> c] ?t t'" "p_cursor_x t' = p_cursor_x s"
    "p_cursor_y t' = p_cursor_y s + 1" "p_cursor_base_x t' = p_cursor_base_x s"
    using point_drew [of ?t "p_cursor_x s" "p_cursor_y s" c] assms unfolding cursor_frame by auto
  moreover have "drew f s t'" if "drew f ?t t'" for f
    using that unfolding drew_def cursor_frame by simp
  ultimately show ?thesis
    by (simp add: fb_register [OF assms(1)] fb_mem_io_write_def Let_def)
qed

lemma store_next_column:
  assumes "fb_ready s" "on_screen s (uint (p_cursor_base_x s + 1), uint (p_cursor_base_y s))" "unat c < 255"
  shows "\<exists>s'. mem_write H 0xFF0A c s = Inr s' \<and> drew [(uint (p_cursor_base_x s + 1), uint (p_cursor_base_y s)) \<mapsto> c] s s' \<and>
    p_cursor_x s' = p_cursor_base_x s + 1 \<and> p_cursor_y s' = p_cursor_base_y s \<and> p_cursor_base_x s' = p_cursor_base_x s + 1"
proof -
  let ?x = "p_cursor_base_x s + 1" and ?y = "p_cursor_base_y s"
  let ?t = "s\<lparr>p_cursor_base_x := ?x, p_cursor_x := ?x, p_cursor_y := ?y\<rparr>"
  obtain t' where t': "prim_point ?x ?y c ?t = Inr t'" "drew [(uint ?x, uint ?y) \<mapsto> c] ?t t'" "p_cursor_x t' = ?x"
    "p_cursor_y t' = ?y" "p_cursor_base_x t' = ?x"
    using point_drew [of ?t ?x ?y c] assms unfolding cursor_frame by auto
  moreover have "drew f s t'" if "drew f ?t t'" for f
    using that unfolding drew_def cursor_frame by simp
  ultimately show ?thesis
    by (simp add: fb_register [OF assms(1)] fb_mem_io_write_def Let_def)
qed

section \<open>Columns\<close>

definition colour :: "int \<Rightarrow> int \<Rightarrow> u8" where
  "colour r i = word_of_int (iterate r i + 16)"

lemma iterate_range: "0 \<le> iterate r i \<and> iterate r i \<le> 32"
proof -
  have "k \<le> iterate_loop n k a b c d \<and> iterate_loop n k a b c d \<le> k + int n" for n k a b c d
  proof (induction n arbitrary: k a b)
    case (Suc n)
    have "k + 1 \<le> iterate_loop n (k + 1) x y c d \<and> iterate_loop n (k + 1) x y c d \<le> k + 1 + int n" for x y
      by (rule Suc.IH)
    then show ?case
      by (auto simp: Let_def intro: order_trans [of k "k + 1"] simp del: One_nat_def) (smt (verit))
  qed simp
  from this [of 0 MAXITERATE] show ?thesis
    by (simp add: iterate_def MAXITERATE_def)
qed

lemma unat_colour: "unat (colour r i) = nat (iterate r i) + 16" "unat (colour r i) < 255"
proof -
  have "uint (colour r i) = iterate r i + 16"
    using iterate_range [of r i] unfolding colour_def uint_word_of_int by (intro mod_pos_pos_trivial) simp_all
  then have "int (unat (colour r i)) = iterate r i + 16"
    by simp
  then show "unat (colour r i) = nat (iterate r i) + 16" "unat (colour r i) < 255"
    using iterate_range [of r i] by linarith+
qed

lemma on_screen_next:
  assumes "fb_ready s" "on_screen s (a, uint y)"
  shows "uint (y + 1 :: u16) = uint y + 1"
proof -
  have "unat y < 32768"
    using assms(1) on_screen_nat [OF assms(2)] fb_okD(4) [of s] by (simp add: fb_ready_def)
  moreover have "int (unat y) = uint y"
    by simp
  ultimately have "uint y < 32768"
    by linarith
  then show ?thesis
    using uint_add_small [of y 1] by simp
qed

text \<open>One row: the loop over \<^verbatim>\<open>_y\<close> stores once where the step between two rows is as large as their number.\<close>

lemma fill_once:
  assumes "y < vres" "0 < vres" "vres \<le> d" "d < 2147483648" "mem_write H 0xFF06 (word_of_int (col + 16)) s = Inr s'"
  shows "fill_loop H col d vres 0 y s = Inr (y + 1, s')"
proof -
  have "int32 (d * 0) = 0" "int32 (d * 1) = d"
    using assms(2-4) by (simp_all add: int32_id)
  then show ?thesis
    using assms by (simp add: fill_loop.simps [of H col d vres 0] fill_loop.simps [of H col d vres 1])
qed

lemma column_draws:
  assumes v: "0 < vres" "vres \<le> d" "d < 2147483648"
  shows "0 \<le> y \<Longrightarrow> y \<le> vres \<Longrightarrow> fb_ready s \<Longrightarrow> uint (p_cursor_y s) = Y + y \<Longrightarrow>
    \<forall>b. y \<le> b \<and> b < vres \<longrightarrow> on_screen s (uint (p_cursor_x s), Y + b) \<Longrightarrow>
    \<exists>s'. column_loop H r im d vres y s = Some (Inr s') \<and> p_cursor_base_x s' = p_cursor_base_x s \<and>
      drew (\<lambda>q. if fst q = uint (p_cursor_x s) \<and> Y + y \<le> snd q \<and> snd q < Y + vres
        then Some (colour r (imag_at im d vres (snd q - Y))) else None) s s'"
proof (induction "nat (vres - y)" arbitrary: y s)
  case 0
  then have "y = vres"
    by simp
  then show ?case
    using 0 column_loop.simps [of H r im d vres y s] drew_nothing by (fastforce intro: drew_cong [OF drew_nothing])
next
  case (Suc n)
  then have y: "y < vres" "n = nat (vres - (y + 1))"
    by simp_all
  let ?c = "colour r (imag_at im d vres y)"
  have on: "on_screen s (uint (p_cursor_x s), uint (p_cursor_y s))"
    using Suc.prems(4,5) y(1) by simp
  obtain s1 where s1: "mem_write H 0xFF06 ?c s = Inr s1" "drew [(uint (p_cursor_x s), uint (p_cursor_y s)) \<mapsto> ?c] s s1"
    "p_cursor_x s1 = p_cursor_x s" "p_cursor_y s1 = p_cursor_y s + 1" "p_cursor_base_x s1 = p_cursor_base_x s"
    using store_down [OF Suc.prems(3) on unat_colour(2), of H] by blast
  have y1: "uint (p_cursor_y s1) = Y + (y + 1)"
    using on_screen_next [OF Suc.prems(3) on] Suc.prems(4) s1(4) by simp
  have ready: "fb_ready s1" "\<And>q. on_screen s1 q = on_screen s q"
    by (rule drewD [OF s1(2)])+
  obtain s2 where s2: "column_loop H r im d vres (y + 1) s1 = Some (Inr s2)" "p_cursor_base_x s2 = p_cursor_base_x s1"
    "drew (\<lambda>q. if fst q = uint (p_cursor_x s1) \<and> Y + (y + 1) \<le> snd q \<and> snd q < Y + vres
        then Some (colour r (imag_at im d vres (snd q - Y))) else None) s1 s2"
    using Suc.hyps(1) [OF y(2) _ _ ready(1) y1] Suc.prems(1,5) y(1) ready(2) s1(3) by auto
  have "fill_loop H (iterate r (imag_at im d vres y)) d vres 0 y s = Inr (y + 1, s1)"
    by (rule fill_once [OF y(1) v s1(1) [unfolded colour_def]])
  then have "column_loop H r im d vres y s = Some (Inr s2)"
    using s2(1) y(1) column_loop.simps [of H r im d vres y s] by simp
  moreover have "drew (\<lambda>q. if fst q = uint (p_cursor_x s) \<and> Y + y \<le> snd q \<and> snd q < Y + vres
        then Some (colour r (imag_at im d vres (snd q - Y))) else None) s s2"
    by (rule drew_cong [OF drew_trans [OF s1(2) s2(3)]]) (use y(1) Suc.prems(4) in \<open>auto simp: s1(3) map_add_def\<close>)
  ultimately show ?case
    using s1(5) s2(2) by auto
qed

lemma picture_draws:
  assumes v: "0 < vres" "vres \<le> d" "d < 2147483648" and h: "hres \<le> 32767"
  shows "0 \<le> x \<Longrightarrow> x \<le> hres \<Longrightarrow> fb_ready s \<Longrightarrow> uint (p_cursor_base_x s) = X + x \<Longrightarrow> p_cursor_x s = p_cursor_base_x s \<Longrightarrow>
    p_cursor_y s = p_cursor_base_y s \<Longrightarrow> uint (p_cursor_base_y s) = Y \<Longrightarrow>
    \<forall>a b. x \<le> a \<and> a \<le> hres \<and> 0 \<le> b \<and> b < vres \<longrightarrow> on_screen s (X + a, Y + b) \<Longrightarrow>
    \<exists>s'. picture_loop H rm im dr d hres vres 1 x s = Some (Inr s') \<and>
      drew (\<lambda>q. if X + x \<le> fst q \<and> fst q < X + hres \<and> Y \<le> snd q \<and> snd q < Y + vres
        then Some (colour (real_at rm dr hres (fst q - X)) (imag_at im d vres (snd q - Y)))
        else if x < hres \<and> q = (X + hres, Y) then Some 0 else None) s s'"
proof (induction "nat (hres - x)" arbitrary: x s)
  case 0
  then have "x = hres"
    by simp
  then show ?case
    using 0 picture_loop.simps [of H rm im dr d hres vres 1 x s] by (fastforce intro: drew_cong [OF drew_nothing])
next
  case (Suc n)
  then have x: "x < hres" "n = nat (hres - (x + 1))"
    by simp_all
  let ?r = "real_at rm dr hres x"
  have X: "uint (p_cursor_x s) = X + x" and Y: "uint (p_cursor_y s) = Y + 0"
    using Suc.prems by simp_all
  have "\<forall>b. 0 \<le> b \<and> b < vres \<longrightarrow> on_screen s (uint (p_cursor_x s), Y + b)"
    using Suc.prems(8) x(1) unfolding X by simp
  from column_draws [OF v order_refl _ Suc.prems(3) Y this, of H ?r im] v(1) obtain s1 where
    s1: "column_loop H ?r im d vres 0 s = Some (Inr s1)" "p_cursor_base_x s1 = p_cursor_base_x s"
      "drew (\<lambda>q. if fst q = X + x \<and> Y \<le> snd q \<and> snd q < Y + vres
        then Some (colour ?r (imag_at im d vres (snd q - Y))) else None) s s1"
    unfolding X by auto
  have r1: "fb_ready s1" "\<And>q. on_screen s1 q = on_screen s q" "p_cursor_base_y s1 = p_cursor_base_y s"
    by (rule drewD [OF s1(3)])+
  have on: "on_screen s (X + x, Y)" "on_screen s (X + (x + 1), Y)"
    using Suc.prems(1) Suc.prems(8) [rule_format, of x 0] Suc.prems(8) [rule_format, of "x + 1" 0] x(1) v(1) by simp_all
  have "X + x < 32768"
  proof -
    have "nat (X + x) < 32768"
      using on_screen_nat [OF on(1)] fb_okD(3) [of s] Suc.prems(3) by (simp add: fb_ready_def)
    then show ?thesis
      by simp
  qed
  then have nx: "uint (p_cursor_base_x s + 1) = X + (x + 1)"
    using uint_add_small [of "p_cursor_base_x s" 1] Suc.prems(4) by simp
  obtain s2 where s2: "mem_write H 0xFF0A 0 s1 = Inr s2" "drew [(X + (x + 1), Y) \<mapsto> 0] s1 s2"
    "p_cursor_x s2 = p_cursor_base_x s + 1" "p_cursor_y s2 = p_cursor_base_y s" "p_cursor_base_x s2 = p_cursor_base_x s + 1"
    using store_next_column [OF r1(1), of 0 H] on(2) r1(2,3) nx s1(2) Suc.prems(7) by auto
  have r2: "fb_ready s2" "\<And>q. on_screen s2 q = on_screen s1 q" "p_cursor_base_y s2 = p_cursor_base_y s1"
    by (rule drewD [OF s2(2)])+
  have "\<forall>a b. x + 1 \<le> a \<and> a \<le> hres \<and> 0 \<le> b \<and> b < vres \<longrightarrow> on_screen s2 (X + a, Y + b)"
    using Suc.prems(8) by (simp add: r1(2) r2(2))
  moreover have "0 \<le> x + 1" "x + 1 \<le> hres" "uint (p_cursor_base_x s2) = X + (x + 1)" "p_cursor_x s2 = p_cursor_base_x s2"
    "p_cursor_y s2 = p_cursor_base_y s2" "uint (p_cursor_base_y s2) = Y"
    using Suc.prems(1,7) x(1) s2(3-5) nx r1(3) r2(3) by simp_all
  ultimately obtain s3 where s3: "picture_loop H rm im dr d hres vres 1 (x + 1) s2 = Some (Inr s3)"
    "drew (\<lambda>q. if X + (x + 1) \<le> fst q \<and> fst q < X + hres \<and> Y \<le> snd q \<and> snd q < Y + vres
        then Some (colour (real_at rm dr hres (fst q - X)) (imag_at im d vres (snd q - Y)))
        else if x + 1 < hres \<and> q = (X + hres, Y) then Some 0 else None) s2 s3"
    using Suc.hyps(1) [OF x(2) _ _ r2(1)] by blast
  have "int16 (x + 1) = x + 1"
    using Suc.prems(1) x(1) h by (intro int16_id) simp_all
  then have "picture_loop H rm im dr d hres vres 1 x s = Some (Inr s3)"
    using s1(1) s2(1) s3(1) x(1) picture_loop.simps [of H rm im dr d hres vres 1 x s] by simp
  moreover have "drew (\<lambda>q. if X + x \<le> fst q \<and> fst q < X + hres \<and> Y \<le> snd q \<and> snd q < Y + vres
        then Some (colour (real_at rm dr hres (fst q - X)) (imag_at im d vres (snd q - Y)))
        else if x < hres \<and> q = (X + hres, Y) then Some 0 else None) s s3"
    by (rule drew_cong [OF drew_trans [OF drew_trans [OF s1(3) s2(2)] s3(2)]]) (use x(1) v(1) in \<open>auto simp: map_add_def\<close>)
  ultimately show ?case
    by blast
qed

text \<open>C14. The program draws its picture: on a screen that holds it and one column more, every pixel of the
  rectangle from the cursor's first position gets the colour of the count of its point, the top
  of the column behind it is painted with colour 0, and nothing else on the screen changes. The
  position is what the variables \<open>x\<close> and \<open>y\<close> happen to hold before they are set.\<close>

theorem mand_draws:
  assumes s: "fb_ready s" and d: "vres \<le> int32 (imagmax - imagmin)" and v: "0 < vres" and h: "0 < hres" "hres \<le> 32767"
    and on: "\<forall>a b. 0 \<le> a \<and> a \<le> hres \<and> 0 \<le> b \<and> b < vres \<longrightarrow> on_screen s (uint x0 + a, uint y0 + b)"
  shows "\<exists>s'. mand_calc H x0 y0 realmin imagmin realmax imagmax hres vres 0 1 s = Inr s' \<and>
    (\<forall>a b. on_screen s (uint x0 + a, uint y0 + b) \<longrightarrow> pixel s' (uint x0 + a, uint y0 + b) =
      (if 0 \<le> a \<and> a < hres \<and> 0 \<le> b \<and> b < vres
       then palette ! (nat (iterate (real_at realmin (int32 (realmax - realmin)) hres a)
         (imag_at imagmax (int32 (imagmax - imagmin)) vres b)) + 16)
       else if a = hres \<and> b = 0 then palette ! 0 else pixel s (uint x0 + a, uint y0 + b)))"
proof -
  let ?d = "int32 (imagmax - imagmin)" and ?dr = "int32 (realmax - realmin)"
  define t where "t = s\<lparr>p_cursor_base_x := x0, p_cursor_x := x0, p_cursor_base_y := y0, p_cursor_y := y0\<rparr>"
  have t: "fb_ready t" "\<And>q. on_screen t q = on_screen s q" "\<And>q. pixel t q = pixel s q" "p_cursor_x t = x0" "p_cursor_y t = y0"
    "p_cursor_base_x t = x0" "p_cursor_base_y t = y0"
    using s by (simp_all add: t_def)
  have set: "bindR (store16 H 0xFF00 x0 s) (store16 H 0xFF02 y0) = Inr t"
    using s by (simp add: store16_def fb_register fb_mem_io_write_def u16_two_halves Let_def t_def)
  have "on_screen t (uint x0, uint y0)"
    using on [rule_format, of 0 0] v h by (simp add: t(2))
  then obtain u where u: "mem_write H 0xFF04 1 t = Inr u" "drew [(uint x0, uint y0) \<mapsto> 1] t u" "p_cursor_x u = x0"
    "p_cursor_y u = y0" "p_cursor_base_x u = x0"
    using point_drew [OF t(1), of x0 y0 1] t(4-6) by (auto simp: fb_register [OF t(1)] fb_mem_io_write_def Let_def)
  note ur = drewD [OF u(2)]
  have "?d < 2147483648"
    using signed_take_bit_int_less_exp [of 31 "imagmax - imagmin"] by (simp add: int32_def)
  moreover have "\<forall>a b. 0 \<le> a \<and> a \<le> hres \<and> 0 \<le> b \<and> b < vres \<longrightarrow> on_screen u (uint x0 + a, uint y0 + b)"
    using on by (simp add: ur(2) t(2))
  ultimately obtain s' where s': "picture_loop H realmin imagmax ?dr ?d hres vres 1 0 u = Some (Inr s')"
    "drew (\<lambda>q. if uint x0 + 0 \<le> fst q \<and> fst q < uint x0 + hres \<and> uint y0 \<le> snd q \<and> snd q < uint y0 + vres
        then Some (colour (real_at realmin ?dr hres (fst q - uint x0)) (imag_at imagmax ?d vres (snd q - uint y0)))
        else if 0 < hres \<and> q = (uint x0 + hres, uint y0) then Some 0 else None) u s'"
    using picture_draws [OF v d _ h(2) order_refl _ ur(1), of "uint x0" "uint y0" H realmin imagmax ?dr] h(1) u(3-5) ur(3) t(7) by auto
  have "mand_calc H x0 y0 realmin imagmin realmax imagmax hres vres 0 1 s = Inr s'"
    using set u(1) s'(1) by (simp add: mand_calc_def bindR_assoc [symmetric])
  moreover have "pixel s' (uint x0 + a, uint y0 + b) =
      (if 0 \<le> a \<and> a < hres \<and> 0 \<le> b \<and> b < vres
       then palette ! (nat (iterate (real_at realmin ?dr hres a) (imag_at imagmax ?d vres b)) + 16)
       else if a = hres \<and> b = 0 then palette ! 0 else pixel s (uint x0 + a, uint y0 + b))"
    if q: "on_screen s (uint x0 + a, uint y0 + b)" for a b
  proof -
    let ?q = "(uint x0 + a, uint y0 + b)"
    have "pixel u ?q = (if a = 0 \<and> b = 0 then palette ! 1 else pixel s ?q)"
      using u(2) q t(2,3) by (simp add: drew_def)
    moreover have "on_screen u ?q"
      using q by (simp add: ur(2) t(2))
    ultimately show ?thesis
      using s'(2) v h(1) by (auto simp: drew_def unat_colour)
  qed
  ultimately show ?thesis
    by blast
qed

definition cursor_machine :: mailbox where
  "cursor_machine = small_machine\<lparr>io_write_top_handler := (\<lambda>k. Some Fb_mem_io_write)\<rparr>"

lemma cursor_machine_ready: "fb_ready cursor_machine" "on_screen cursor_machine (a, b) = on_screen small_machine (a, b)"
  using small_machine_ok(2) by (simp_all add: cursor_machine_def fb_ready_def fb_ok_def on_screen_def)

lemma mand_draws_witness:
  "\<exists>s'. mand_calc null_host 5 6 (-17199) (-14742) 9009 20475 20 10 0 1 cursor_machine = Inr s' \<and>
    pixel s' (uint (5 :: u16) + 3, uint (6 :: u16) + 4) =
      palette ! (nat (iterate (real_at (-17199) (int32 26208) 20 3) (imag_at 20475 (int32 35217) 10 4)) + 16)"
proof -
  have "(10 :: int) \<le> int32 (20475 - (-14742))"
    by (simp add: int32_id)
  then obtain s' where s': "mand_calc null_host 5 6 (-17199) (-14742) 9009 20475 20 10 0 1 cursor_machine = Inr s'"
    "\<forall>a b. on_screen cursor_machine (uint (5 :: u16) + a, uint (6 :: u16) + b) \<longrightarrow> pixel s' (uint (5 :: u16) + a, uint (6 :: u16) + b) =
      (if 0 \<le> a \<and> a < 20 \<and> 0 \<le> b \<and> b < 10
       then palette ! (nat (iterate (real_at (-17199) (int32 (9009 - (-17199))) 20 a) (imag_at 20475 (int32 (20475 - (-14742))) 10 b)) + 16)
       else if a = 20 \<and> b = 0 then palette ! 0 else pixel cursor_machine (uint (5 :: u16) + a, uint (6 :: u16) + b))"
    using mand_draws [OF cursor_machine_ready(1), of 10 20475 "-14742" 20 5 6 null_host "-17199" 9009]
    by (auto simp: cursor_machine_ready(2))
  with s'(2) [rule_format, of 3 4] show ?thesis
    by (auto simp: cursor_machine_ready(2))
qed

end
