(* ===== verification/Dial.thy ===== *)
theory Dial
  imports Loader
begin

text \<open>
  The guest program \<^verbatim>\<open>dial.c\<close>: it takes a host name and a port from the argument page that the
  loader has filled, formats a command for \<^verbatim>\<open>nc\<close> and passes it to \<^verbatim>\<open>system\<close>. Everything it
  reads and writes goes over the bus. The theorems compose the loader's argument page, the
  program and the C library assist.
\<close>

section \<open>Strings of the guest\<close>

text \<open>The bytes of a string up to its end, read one by one over the bus.\<close>

partial_function (option) guest_string ::
  "host \<Rightarrow> u16 \<Rightarrow> 'a mailbox_scheme \<Rightarrow> (u8 list \<times> 'a mailbox_scheme) option" where
  "guest_string H a s =
     (case mem_read H a s of (b, s1) \<Rightarrow>
        if b = 0 then Some ([], s1)
        else Option.bind (guest_string H (a + 1) s1) (\<lambda>(bs, s2). Some (b # bs, s2)))"

fun put_bytes :: "host \<Rightarrow> u16 \<Rightarrow> u8 list \<Rightarrow> 'a mailbox_scheme \<Rightarrow> 'a mailbox_scheme run" where
  "put_bytes H a [] s = Inr s"
| "put_bytes H a (b # bs) s = bindR (mem_write H a b s) (put_bytes H (a + 1) bs)"

text \<open>\<^verbatim>\<open>sprintf\<close> with a format of literal text and \<^verbatim>\<open>%s\<close>; each argument is a pointer.\<close>

datatype piece = Lit "u8 list" | Arg u16

definition piece_bytes :: "host \<Rightarrow> piece \<Rightarrow> 'a mailbox_scheme \<Rightarrow> (u8 list \<times> 'a mailbox_scheme) run" where
  "piece_bytes H p s = (case p of
     Lit bs \<Rightarrow> Inr (bs, s)
   | Arg a \<Rightarrow> loop_result (map_option Inr (guest_string H a s)))"

fun sprintf :: "host \<Rightarrow> u16 \<Rightarrow> piece list \<Rightarrow> 'a mailbox_scheme \<Rightarrow> 'a mailbox_scheme run" where
  "sprintf H a [] s = mem_write H a 0 s"
| "sprintf H a (p # ps) s =
     bindR (piece_bytes H p s) (\<lambda>(bs, s).
     bindR (put_bytes H a bs s) (sprintf H (a + of_nat (length bs)) ps))"

section \<open>dial.c\<close>

text \<open>\<open>msg\<close> is the address of the static array, \<open>pfbuf\<close> that of the buffer in the macro
  \<^verbatim>\<open>printf\<close>; \<open>cb\<close> and \<open>cbk\<close> are the struct and the block of the calls.\<close>

definition usage :: "host \<Rightarrow> u16 \<Rightarrow> u16 \<Rightarrow> u16 \<Rightarrow> 'a mailbox_scheme \<Rightarrow> 'a mailbox_scheme run" where
  "usage H cb cbk pfbuf s =
     bindR (sprintf H pfbuf [Lit (bytes_of ''usage: dial <HOST> <PORT>'' @ [10])] s) (\<lambda>s.
     bindR (pi_puts H cbk pfbuf s) (\<lambda>(_, s).
     bindR (pi_sysexit H cb cbk 1 s) (\<lambda>(_, s). Inr s)))"

definition read16 :: "host \<Rightarrow> u16 \<Rightarrow> 'a mailbox_scheme \<Rightarrow> u16 \<times> 'a mailbox_scheme" where
  "read16 H a s = (let (lo, s) = mem_read H a s; (hi, s) = mem_read H (a + 1) s in (u16_of lo hi, s))"

definition dial_up :: "host \<Rightarrow> u16 \<Rightarrow> u16 \<Rightarrow> u16 \<Rightarrow> u16 \<Rightarrow> 'a mailbox_scheme \<Rightarrow> 'a mailbox_scheme run" where
  "dial_up H cb cbk msg pfbuf s =
     (let (argc, s) = mem_read H 0x0900 s in
      bindR (if argc < 2 then usage H cb cbk pfbuf s else Inr s) (\<lambda>s.
      let (argv1, s) = read16 H (0x0901 + 2 * 1) s; (argv2, s) = read16 H (0x0901 + 2 * 2) s in
      bindR (sprintf H msg [Lit (bytes_of ''nc ''), Arg argv1, Lit (bytes_of '' ''), Arg argv2] s) (\<lambda>s.
      bindR (pi_system H cb cbk msg s) (\<lambda>(_, s). Inr s))))"

definition dial_main :: "host \<Rightarrow> u16 \<Rightarrow> u16 \<Rightarrow> u16 \<Rightarrow> u16 \<Rightarrow> 'a mailbox_scheme \<Rightarrow> (int \<times> 'a mailbox_scheme) run" where
  "dial_main H cb cbk msg pfbuf s =
     bindR (dial_up H cb cbk msg pfbuf s) (\<lambda>s.
     bindR (pi_sysexit H cb cbk 2 s) (\<lambda>(_, s). Inr (0, s)))"

section \<open>Strings in low memory\<close>

lemma mem_read_low: "indexed s \<Longrightarrow> uint a < 0xA000 \<Longrightarrow> mem_read H a s = (mem s (uint a), s)"
  by (simp add: mem_read_ram guest_get_def mem_base_low)

text \<open>\<open>holds s a bs\<close>: the string \<open>bs\<close> and its end lie at \<open>a\<close> in low memory.\<close>

definition holds :: "'a memory_scheme \<Rightarrow> u16 \<Rightarrow> u8 list \<Rightarrow> bool" where
  "holds s a bs \<longleftrightarrow> 0 \<notin> set bs \<and> uint a + int (length bs) < 0xA000 \<and>
     (\<forall>i \<le> length bs. mem s (uint a + int i) = (bs @ [0]) ! i)"

lemma holds_Cons:
  assumes "holds s a (b # bs)"
  shows "b \<noteq> 0" "mem s (uint a) = b" "uint a < 0xA000" "holds s (a + 1) bs"
proof -
  have room: "uint a + int (Suc (length bs)) < 0xA000" "0 \<notin> set (b # bs)"
    using assms by (auto simp: holds_def)
  have m: "mem s (uint a + int i) = ((b # bs) @ [0]) ! i" if "i \<le> Suc (length bs)" for i
    using assms that by (auto simp: holds_def)
  have "uint (a + 1) = uint a + 1"
    using room(1) by (intro uint_add_low [of a 1, simplified]) linarith
  then show "holds s (a + 1) bs"
    using m [of "Suc i" for i] room by (auto simp: holds_def add.assoc)
qed (use assms in \<open>auto simp: holds_def dest: spec [of _ 0]\<close>)

lemma guest_string_holds: "indexed s \<Longrightarrow> holds s a bs \<Longrightarrow> guest_string H a s = Some (bs, s)"
proof (induction bs arbitrary: a)
  case Nil
  then show ?case
    by (subst guest_string.simps) (simp add: holds_def mem_read_low)
next
  case (Cons b bs)
  note h = holds_Cons [OF Cons.prems(2)]
  show ?case
    using h Cons.prems(1) Cons.IH [OF Cons.prems(1) h(4)]
    by (subst guest_string.simps) (simp add: mem_read_low)
qed

lemma put_bytes_low:
  "uint a + int (length bs) \<le> 0xA000 \<Longrightarrow> put_bytes H a bs s = Inr (lay s (uint a) bs)"
proof (induction bs arbitrary: a s)
  case (Cons b bs)
  then have "bs \<noteq> [] \<Longrightarrow> uint (a + 1) = uint a + 1"
    using uint_add_low [of a 1] by (cases bs) simp_all
  with Cons show ?case
    by (cases "bs = []") (simp_all add: mem_write_low)
qed simp

text \<open>\<open>expands s p bs\<close>: the piece stands for \<open>bs\<close>, out of reach of a buffer of \<open>n\<close> bytes.\<close>

definition expands :: "'a memory_scheme \<Rightarrow> u16 \<Rightarrow> nat \<Rightarrow> piece \<Rightarrow> u8 list \<Rightarrow> bool" where
  "expands s buf n p bs \<longleftrightarrow> (case p of
     Lit b \<Rightarrow> bs = b
   | Arg a \<Rightarrow> holds s a bs \<and> (uint a + int (length bs) < uint buf \<or> uint buf + int n \<le> uint a))"

lemma holds_lay:
  assumes "holds s a bs" "uint a + int (length bs) < k \<or> k + int (length cs) \<le> uint a"
  shows "holds (lay s k cs) a bs"
  using assms by (auto simp: holds_def mem_lay)

lemma expands_lay:
  assumes "expands s buf n p bs" "uint buf \<le> k" "k + int (length cs) \<le> uint buf + int n"
  shows "expands (lay s k cs) buf n p bs"
  using assms by (cases p) (auto simp: expands_def intro!: holds_lay)

lemma piece_bytes_expands: "indexed s \<Longrightarrow> expands s buf n p bs \<Longrightarrow> piece_bytes H p s = Inr (bs, s)"
  by (cases p) (auto simp: piece_bytes_def expands_def guest_string_holds)

text \<open>What \<^verbatim>\<open>sprintf\<close> leaves in a buffer that has room.\<close>

lemma sprintf_lays:
  assumes "indexed s" "list_all2 (expands s buf n) ps bss" "uint buf + int n \<le> 0xA000"
    and "uint buf \<le> uint a" "uint a + int (length (concat bss)) < uint buf + int n"
  shows "sprintf H a ps s = Inr (lay s (uint a) (concat bss @ [0]))"
  using assms(2,1,4,5)
proof (induction ps arbitrary: bss a s)
  case Nil
  then show ?case
    using assms(3) by (simp add: mem_write_low)
next
  case (Cons p ps)
  obtain bs bss' where bss: "bss = bs # bss'" "expands s buf n p bs" "list_all2 (expands s buf n) ps bss'"
    using Cons.prems(1) by (auto simp: list_all2_Cons1)
  have a: "uint (a + of_nat (length bs)) = uint a + int (length bs)"
    using Cons.prems assms(3) bss(1) by (intro uint_add_low) simp
  let ?s = "lay s (uint a) bs"
  have "list_all2 (expands ?s buf n) ps bss'"
    using bss(3) by (rule list_all2_mono) (use Cons.prems bss(1) in \<open>auto intro!: expands_lay\<close>)
  moreover have "put_bytes H a bs s = Inr ?s"
    using Cons.prems assms(3) bss(1) by (intro put_bytes_low) simp
  ultimately show ?case
    using Cons.prems bss(1) piece_bytes_expands [OF Cons.prems(2) bss(2), of H]
      Cons.IH [of ?s bss' "a + of_nat (length bs)"]
    by (simp add: a lay_append)
qed

section \<open>The call\<close>

lemma holds_c_string: "holds s a bs \<Longrightarrow> c_string s (mem_base s a) = Inr bs"
  by (rule c_string_low) (auto simp: holds_def guest_bytes_def nth_append intro!: nth_equalityI)

lemma called_holds:
  assumes "called s t cbk callid cb cs" "clear_of a (Suc (length bs)) cb (length cs) cbk" "holds s a bs"
  shows "holds t a bs"
  using assms unfolding holds_def called_def clear_of_def by (auto simp: less_Suc_eq_le)

lemma system_delivers:
  assumes s: "indexed s" "himem2_page s = 0" "io_read_top_handler s 0xF = None"
    and pl: "placed cb 2 cbk" and str: "holds s command bs" "clear_of command (Suc (length bs)) cb 2 cbk"
  shows "\<exists>r s'. pi_system H cb cbk command s = Inr (r, s') \<and> trace s' = System bs # trace s \<and>
    indexed s' \<and> himem2_page s' = 0"
proof -
  let ?r = "os_ret (os_call H (trace s) (System bs))"
  obtain t where call: "pi_system H cb cbk command s = bindR (sync_libC_assist H t) (\<lambda>(r, u). finish H r u)"
    and t: "called s t cbk PI_LIBC_SYSTEM cb (bytes16 [command])" "indexed t"
    using call_with_called [OF s(1,2), of cb "[command]" cbk H PI_LIBC_SYSTEM] pl
    by (auto simp: pi_system_def)
  note st = called_state [OF t(1)]
  have "placed cb (length (bytes16 [command])) cbk"
    using pl by (simp del: bytes16_simps)
  from called_field [OF t(1) this, of 0] have f: "ld16 t cb = command"
    by simp
  have "holds t command bs"
    by (rule called_holds [OF t(1) _ str(1)]) (use str(2) in \<open>simp del: bytes16_simps\<close>)
  then have "sync_libC_assist H t = Inr (word_of_int ?r, snd (syscall H (System bs) t))"
    using assist_libc [OF t(1)]
    by (simp add: PI_LIBC_SYSTEM_def libc_call_def libc_opcodes cb_system_def Let_def split_beta st f holds_c_string)
  then have "pi_system H cb cbk command s =
      Inr (ucast (word_of_int ?r :: u8), deposit_result (word_of_int ?r) (snd (syscall H (System bs) t)))"
    using finish_result [of "snd (syscall H (System bs) t)"] t(2) st(6) s(3)
    by (simp add: call)
  then show ?thesis
    using t(2) st s(2) by (simp add: deposit_result_def)
qed

lemma holds_laid:
  "0 \<notin> set bs \<Longrightarrow> uint a + int (length bs) < 0xA000 \<Longrightarrow> holds (lay s (uint a) (bs @ [0])) a bs"
  by (simp add: holds_def mem_lay)

lemma puts_delivers:
  assumes s: "indexed s" "himem2_page s = 0" "io_read_top_handler s 0xF = None"
    and pl: "uint cbk + 4 \<le> 0xA000"
    and str: "holds s a bs" "uint a + int (length bs) < uint cbk \<or> uint cbk + 4 \<le> uint a"
  shows "\<exists>r s'. pi_puts H cbk a s = Inr (r, s') \<and> trace s' = Print bs # trace s \<and>
    indexed s' \<and> himem2_page s' = 0"
proof -
  have "placed a (length []) cbk"
    using pl str by (auto simp: placed_def holds_def)
  then obtain t where c: "send_for_pi H cbk PI_LIBC_PUTS a (lay s (uint a) []) =
      bindR (sync_libC_assist H t) (\<lambda>(r, u). finish H r u)"
    and t: "called s t cbk PI_LIBC_PUTS a []" "indexed t"
    by (rule send_for_pi_called [OF s(1,2)])
  from c have call: "pi_puts H cbk a s = bindR (sync_libC_assist H t) (\<lambda>(r, u). finish H r u)"
    by (simp add: pi_puts_def)
  note st = called_state [OF t(1)]
  have "holds t a bs"
    by (rule called_holds [OF t(1) _ str(1)]) (use pl str in \<open>auto simp: clear_of_def holds_def\<close>)
  then have "sync_libC_assist H t = Inr (0, snd (syscall H (Print bs) t))"
    using assist_libc [OF t(1)]
    by (simp add: PI_LIBC_PUTS_def libc_call_def libc_opcodes cb_puts_def Let_def st holds_c_string)
  then have "pi_puts H cbk a s = Inr (0, deposit_result 0 (snd (syscall H (Print bs) t)))"
    using finish_result [of "snd (syscall H (Print bs) t)"] t(2) st(6) s(3)
    by (simp add: call)
  then show ?thesis
    using t(2) st s(2) by (simp add: deposit_result_def)
qed

section \<open>The program\<close>

lemma dial_reads:
  assumes s: "indexed t" and c: "mem t 0x900 = 3"
  shows "dial_up H cb cbk msg pfbuf t =
    bindR (sprintf H msg [Lit (bytes_of ''nc ''), Arg (arg_pointer t 1), Lit (bytes_of '' ''), Arg (arg_pointer t 2)] t)
      (\<lambda>s. bindR (pi_system H cb cbk msg s) (\<lambda>(_, s). Inr s))"
  using assms by (simp add: dial_up_def read16_def mem_read_low arg_pointer_def)

text \<open>C38. A program started with a host and a port passes the host system one command, made of
  the arguments as the loader cut them, whatever the arguments, and ends with status 2. Its 48 bytes
  are enough for the arguments of this loader.\<close>

theorem dial_calls_nc:
  assumes s: "indexed s" "himem2_page s = 0" "io_read_top_handler s 0xF = None"
    and pl: "placed cb 2 cbk" "clear_of msg 48 cb 2 cbk"
    and msg: "0xA00 \<le> uint msg \<or> uint msg + 48 \<le> 0x900"
  shows "\<exists>t u. put_args H [prog, hst, port] s = Inr t \<and>
    dial_up H cb cbk msg pfbuf t = Inr u \<and>
    trace u = System (bytes_of ''nc '' @ arg_bytes hst @ bytes_of '' '' @ arg_bytes port) # trace t \<and>
    dial_main H cb cbk msg pfbuf t = Inl (Exited 2)"
proof -
  let ?args = "[prog, hst, port]"
  let ?bs = "bytes_of ''nc '' @ arg_bytes hst @ bytes_of '' '' @ arg_bytes port"
  have len: "length (arg_bytes a) \<le> 20" for a
    by (rule set_arg_bytes)
  have fits: "1 + 2 * length ?args + arg_offset ?args (length ?args) \<le> 256"
    using len [of prog] len [of hst] len [of port] by (simp add: arg_offset_def)
  obtain t where put: "put_args H ?args s = Inr t" "only_memory s t" and count: "mem t 0x900 = 3"
    and strs: "\<And>k. k < 3 \<Longrightarrow> 0x900 \<le> uint (arg_pointer t k) \<and>
       uint (arg_pointer t k) + int (length (arg_bytes (?args ! k))) < 0xA00 \<and>
       (\<forall>i \<le> length (arg_bytes (?args ! k)).
          mem t (uint (arg_pointer t k) + int i) = (arg_bytes (?args ! k) @ [0]) ! i)"
    using args_laid [OF fits, of H s] by auto
  have t: "indexed t" "himem2_page t = 0" "io_read_top_handler t 0xF = None"
    using s put(2) only_memory_indexed [OF put(2)] by (auto simp: only_memory_def)
  have h: "expands t msg 48 (Arg (arg_pointer t k)) (arg_bytes (?args ! k))" if "k < 3" for k
    using strs [OF that] msg set_arg_bytes(1) by (auto simp: expands_def holds_def)
  define v where "v = lay t (uint msg) (?bs @ [0])"
  have room: "length ?bs < 48"
    using len [of hst] len [of port] by (simp add: bytes_of_def)
  have "sprintf H msg [Lit (bytes_of ''nc ''), Arg (arg_pointer t 1), Lit (bytes_of '' ''), Arg (arg_pointer t 2)] t = Inr v"
    using sprintf_lays [OF t(1), of msg 48
        "[Lit (bytes_of ''nc ''), Arg (arg_pointer t 1), Lit (bytes_of '' ''), Arg (arg_pointer t 2)]"
        "[bytes_of ''nc '', arg_bytes hst, bytes_of '' '', arg_bytes port]" msg H]
      h [of 1] h [of 2] room pl(2)
    by (simp add: v_def expands_def clear_of_def del: sprintf.simps)
  moreover have v: "indexed v" "himem2_page v = 0" "io_read_top_handler v 0xF = None" "trace v = trace t"
    using t by (simp_all add: v_def)
  moreover have "holds v msg ?bs"
    using room pl(2) set_arg_bytes(1) [of hst] set_arg_bytes(1) [of port]
    unfolding v_def by (intro holds_laid) (auto simp: clear_of_def bytes_of_def)
  moreover have "clear_of msg (Suc (length ?bs)) cb 2 cbk"
    using pl(2) room by (auto simp: clear_of_def)
  ultimately obtain u where u: "dial_up H cb cbk msg pfbuf t = Inr u" "trace u = System ?bs # trace t"
    "indexed u" "himem2_page u = 0"
    using system_delivers [of v cb cbk msg ?bs H] pl(1) dial_reads [OF t(1) count] by auto
  have "dial_main H cb cbk msg pfbuf t = Inl (Exited 2)"
    using u(1) sysexit_exits [OF u(3,4) pl(1), of H 2] by (simp add: dial_main_def)
  then show ?thesis
    using put(1) u by blast
qed

theorem dial_calls_nc_witness:
  "\<exists>t u. put_args null_host [bytes_of ''dial'', bytes_of ''pi'', bytes_of ''23''] loader_machine = Inr t \<and>
    dial_up null_host 0x400 0x500 0x3000 0x600 t = Inr u \<and>
    trace u = System (bytes_of ''nc '' @ arg_bytes (bytes_of ''pi'') @ bytes_of '' '' @ arg_bytes (bytes_of ''23'')) # trace t \<and>
    dial_main null_host 0x400 0x500 0x3000 0x600 t = Inl (Exited 2)"
  by (rule dial_calls_nc [OF loader_machine_ok(2)])
    (simp_all add: small_placed clear_of_def loader_machine_def cpu_machine_def small_machine_def small_screen_def
      cpu.defs mailbox.defs framebuffer.defs timeunit.defs memory.defs)

text \<open>With fewer than two arguments (the program's name counts) it prints its usage and exits with 1.\<close>

theorem dial_usage:
  assumes s: "indexed t" "himem2_page t = 0" "io_read_top_handler t 0xF = None"
    and argc: "mem t 0x900 < 2" and pl: "placed cb 2 cbk" "clear_of pfbuf 128 cb 2 cbk"
  shows "\<exists>r u. bindR (sprintf H pfbuf [Lit (bytes_of ''usage: dial <HOST> <PORT>'' @ [10])] t) (pi_puts H cbk pfbuf) = Inr (r, u) \<and>
    trace u = Print (bytes_of ''usage: dial <HOST> <PORT>'' @ [10]) # trace t \<and>
    dial_main H cb cbk msg pfbuf t = Inl (Exited 1)"
proof -
  let ?bs = "bytes_of ''usage: dial <HOST> <PORT>'' @ [10]"
  define v where "v = lay t (uint pfbuf) (?bs @ [0])"
  have n: "length ?bs = 26" "0 \<notin> set ?bs"
    by (simp_all add: bytes_of_def)
  have sp: "sprintf H pfbuf [Lit ?bs] t = Inr v"
    using sprintf_lays [OF s(1), of pfbuf 128 "[Lit ?bs]" "[?bs]" pfbuf H] pl(2) n
    by (simp add: v_def expands_def clear_of_def del: sprintf.simps)
  have v: "indexed v" "himem2_page v = 0" "io_read_top_handler v 0xF = None" "trace v = trace t"
    using s by (simp_all add: v_def)
  have "holds v pfbuf ?bs"
    using n pl(2) unfolding v_def by (intro holds_laid) (simp_all add: clear_of_def)
  then obtain r u where u: "pi_puts H cbk pfbuf v = Inr (r, u)" "trace u = Print ?bs # trace t" "indexed u" "himem2_page u = 0"
    using puts_delivers [OF v(1-3), of cbk pfbuf ?bs H] v(4) pl n by (auto simp: placed_def clear_of_def)
  have "dial_up H cb cbk msg pfbuf t = Inl (Exited 1)"
    using argc sysexit_exits [OF u(3,4) pl(1), of H 1] sp u(1)
    by (simp add: dial_up_def usage_def mem_read_low s(1) del: sprintf.simps)
  then show ?thesis
    using sp u by (simp add: dial_main_def)
qed

end
